(* ===== verification/Prelude.thy ===== *)
theory Prelude
  imports Main "HOL-Library.Word" "HOL-Library.Sublist" "HOL-Library.Multiset"
begin

unbundle bit_operations_syntax

text \<open>
  Shared vocabulary of the development: machine integers at their width with Rust's checked
  and saturating operations, fallible results as sums with the early return of the question-mark
  operator, and the generic lemmas on lists that several components use.

  A Rust \<open>u8\<close>, \<open>u16\<close>, \<open>u32\<close> or \<open>u64\<close> is a word of that width; \<open>usize\<close> indices into
  buffers are natural numbers, with the 64-bit limit written out where the code checks it.
  A \<open>Duration\<close> of whole seconds or milliseconds is a 64-bit word.
\<close>

section \<open>Machine integers\<close>

type_synonym u8 = "8 word"
type_synonym u16 = "16 word"
type_synonym u32 = "32 word"
type_synonym u64 = "64 word"

named_theorems unat_simps \<open>reading checked and saturating operations as natural numbers\<close>
named_theorems result_simps \<open>inversion of fallible steps\<close>

definition sat_add :: "'a::len word \<Rightarrow> 'a word \<Rightarrow> 'a word" where
  "sat_add x y = (if unat x + unat y < 2 ^ LENGTH('a) then x + y else - 1)"

definition sat_sub :: "'a::len word \<Rightarrow> 'a word \<Rightarrow> 'a word" where
  "sat_sub x y = (if y \<le> x then x - y else 0)"

definition sat_mul :: "'a::len word \<Rightarrow> 'a word \<Rightarrow> 'a word" where
  "sat_mul x y = (if unat x * unat y < 2 ^ LENGTH('a) then x * y else - 1)"

fun sat_pow :: "'a::len word \<Rightarrow> nat \<Rightarrow> 'a word" where
  "sat_pow x n = (if unat x ^ n < 2 ^ LENGTH('a) then x ^ n else - 1)"

declare sat_pow.simps [simp del]

definition checked_sub :: "'a::len word \<Rightarrow> 'a word \<Rightarrow> 'a word option" where
  "checked_sub x y = (if y \<le> x then Some (x - y) else None)"

definition checked_add :: "'a::len word \<Rightarrow> 'a word \<Rightarrow> 'a word option" where
  "checked_add x y = (if unat x + unat y < 2 ^ LENGTH('a) then Some (x + y) else None)"

lemma unat_max_word: "unat (- 1 :: 'a::len word) = 2 ^ LENGTH('a) - 1"
  by (simp add: unsigned_minus_1_eq_mask mask_eq_exp_minus_1)

lemma unat_sat_add [unat_simps]:
  fixes x y :: "'a::len word"
  shows "unat (sat_add x y) = min (unat x + unat y) (2 ^ LENGTH('a) - 1)"
  by (auto simp: sat_add_def unat_word_ariths unat_max_word)

lemma unat_sat_sub [unat_simps]: "unat (sat_sub x y) = unat x - unat y"
  by (auto simp: sat_sub_def unat_sub word_le_nat_alt)

lemma unat_sat_mul [unat_simps]:
  fixes x y :: "'a::len word"
  shows "unat (sat_mul x y) = min (unat x * unat y) (2 ^ LENGTH('a) - 1)"
  by (auto simp: sat_mul_def unat_word_ariths unat_max_word)

lemma unat_power_small:
  fixes x :: "'a::len word"
  shows "unat x ^ n < 2 ^ LENGTH('a) \<Longrightarrow> unat (x ^ n) = unat x ^ n"
proof -
  have "unat (x ^ n) = unat x ^ n mod 2 ^ LENGTH('a)"
    by (induction n) (simp_all add: unat_word_ariths mod_mult_right_eq)
  then show "unat x ^ n < 2 ^ LENGTH('a) \<Longrightarrow> unat (x ^ n) = unat x ^ n"
    by simp
qed

lemma unat_sat_pow [unat_simps]:
  fixes x :: "'a::len word"
  shows "unat (sat_pow x n) = min (unat x ^ n) (2 ^ LENGTH('a) - 1)"
  by (auto simp: sat_pow.simps unat_power_small unat_max_word)

lemma checked_sub_Some [unat_simps]:
  "checked_sub x y = Some z \<longleftrightarrow> unat y \<le> unat x \<and> unat z = unat x - unat y"
  by (auto simp: checked_sub_def word_le_nat_alt unat_sub word_unat_eq_iff)

lemma checked_sub_None: "checked_sub x y = None \<longleftrightarrow> x < y"
  by (auto simp: checked_sub_def)

lemma unat_add_one:
  fixes x y :: "'a::len word"
  assumes "x < y"
  shows "unat (x + 1) = Suc (unat x)"
proof -
  have "unat x < unat y" using assms by (simp add: word_less_nat_alt)
  moreover have "unat y < 2 ^ LENGTH('a)" by simp
  ultimately have "unat x + 1 < 2 ^ LENGTH('a)" by linarith
  then show ?thesis by (cases "LENGTH('a) = 1") (auto simp: unat_word_ariths)
qed

section \<open>Durations\<close>

text \<open>A \<open>Duration\<close> is whole seconds and nanoseconds, ordered lexicographically.\<close>

datatype duration = Duration (as_secs: u64) (subsec_nanos: u32)

definition from_secs :: "u64 \<Rightarrow> duration" where
  "from_secs s = Duration s 0"

instantiation duration :: linorder
begin

definition less_eq_duration :: "duration \<Rightarrow> duration \<Rightarrow> bool" where
  "less_eq_duration a b \<longleftrightarrow>
     as_secs a < as_secs b \<or> as_secs a = as_secs b \<and> subsec_nanos a \<le> subsec_nanos b"

definition less_duration :: "duration \<Rightarrow> duration \<Rightarrow> bool" where
  "less_duration a b \<longleftrightarrow> a \<le> b \<and> \<not> b \<le> (a :: duration)"

instance
proof
  fix x y z :: duration
  show "x < y \<longleftrightarrow> x \<le> y \<and> \<not> y \<le> x" by (simp add: less_duration_def)
  show "x \<le> x" by (simp add: less_eq_duration_def)
  show "x \<le> y \<Longrightarrow> y \<le> z \<Longrightarrow> x \<le> z" unfolding less_eq_duration_def by auto
  show "x \<le> y \<Longrightarrow> y \<le> x \<Longrightarrow> x = y"
    unfolding less_eq_duration_def by (cases x; cases y) auto
  show "x \<le> y \<or> y \<le> x" unfolding less_eq_duration_def by auto
qed

end

lemma from_secs_simps [simp]: "as_secs (from_secs s) = s" "subsec_nanos (from_secs s) = 0"
  by (simp_all add: from_secs_def)

section \<open>Fallible steps\<close>

text \<open>
  A \<open>Result<T, E>\<close> is \<open>'e + 'a\<close>, \<open>Inl\<close> for the error. The question-mark operator is
  \<open>andthen\<close>: an error leaves the function at once, a value goes to the rest.
\<close>

fun andthen :: "'e + 'a \<Rightarrow> ('a \<Rightarrow> 'e + 'b) \<Rightarrow> 'e + 'b" where
  "andthen (Inl e) f = Inl e"
| "andthen (Inr a) f = f a"

lemma andthen_cong [fundef_cong]:
  "x = y \<Longrightarrow> (\<And>a. y = Inr a \<Longrightarrow> f a = g a) \<Longrightarrow> andthen x f = andthen y g"
  by (cases y) auto

lemma andthen_Inr [result_simps]:
  "andthen x f = Inr b \<longleftrightarrow> (\<exists>a. x = Inr a \<and> f a = Inr b)"
  by (cases x) auto

lemma andthen_Inl [result_simps]:
  "andthen x f = Inl e \<longleftrightarrow> x = Inl e \<or> (\<exists>a. x = Inr a \<and> f a = Inl e)"
  by (cases x) auto

definition ok_or :: "'e \<Rightarrow> 'a option \<Rightarrow> 'e + 'a" where
  "ok_or e m = (case m of None \<Rightarrow> Inl e | Some a \<Rightarrow> Inr a)"

lemma ok_or_simps [simp]: "ok_or e None = Inl e" "ok_or e (Some a) = Inr a"
  by (simp_all add: ok_or_def)

lemma ok_or_Inr [result_simps]: "ok_or e m = Inr a \<longleftrightarrow> m = Some a"
  by (cases m) auto

definition is_ok :: "'e + 'a \<Rightarrow> bool" where
  "is_ok r = (case r of Inl _ \<Rightarrow> False | Inr _ \<Rightarrow> True)"

lemma is_ok_simps [simp]: "\<not> is_ok (Inl e)" "is_ok (Inr a)"
  by (simp_all add: is_ok_def)

section \<open>Lists\<close>

fun position :: "('a \<Rightarrow> bool) \<Rightarrow> 'a list \<Rightarrow> nat option" where
  "position p [] = None"
| "position p (x # xs) = (if p x then Some 0 else map_option Suc (position p xs))"

lemma ge2_Suc: "\<not> k < 2 \<Longrightarrow> \<exists>j. k = Suc (Suc j)"
  by (intro exI [of _ "k - 2"]) simp

lemma ge3_Suc: "\<not> k < 3 \<Longrightarrow> \<exists>j. k = Suc (Suc (Suc j))"
  by (intro exI [of _ "k - 3"]) simp

lemma find_Some_set: "find p xs = Some x \<Longrightarrow> x \<in> set xs \<and> p x"
  by (induction xs) (auto split: if_splits)

lemma filter_sort: "filter p (sort xs) = sort (filter p xs)"
  by (simp add: filter_sort)

lemma sort_mset_eq:
  assumes "mset xs = mset ys"
  shows "sort xs = sort (ys :: 'a::linorder list)"
  using assms by (metis mset_sort properties_for_sort sorted_sort)

lemma mset_eq_sort_iff: "mset xs = mset ys \<longleftrightarrow> sort xs = sort (ys :: 'a::linorder list)"
  by (metis mset_sort sort_mset_eq)

lemma mset_filter_eq: "mset xs = mset ys \<Longrightarrow> mset (filter p xs) = mset (filter p ys)"
  by simp

lemma append_shorter:
  assumes "a @ b = c @ d" and "length a \<le> length c"
  obtains u where "c = a @ u"
proof -
  have "take (length a) (c @ d) = a" using assms(1) by (metis append_eq_conv_conj)
  then have "take (length a) c = a" using assms(2) by simp
  then have "c = a @ drop (length a) c" by (metis append_take_drop_id)
  then show thesis by (rule that)
qed

end
