(* ===== verification/Rust_Str.thy ===== *)
theory Rust_Str
  imports Prelude
begin

text \<open>
  The parts of Rust's string library the crate uses, over UTF-8 byte strings: a Rust \<open>String\<close>
  is a list of \<open>char\<close>, one per byte. Searching, splitting and prefix tests work on bytes, as
  they do in Rust; \<open>trim\<close> removes the UTF-8 encodings of every code point with the Unicode
  property White\_Space; \<open>from_utf8_lossy\<close> replaces each maximal invalid run by U+FFFD;
  \<open>parse_i64\<close> and \<open>is_ip_addr\<close> follow the standard library's integer and \<open>IpAddr\<close> parsers.
\<close>

section \<open>Bytes and ASCII classes\<close>

definition byte :: "char \<Rightarrow> nat" where
  "byte c = of_char c"

definition is_digit :: "char \<Rightarrow> bool" where
  "is_digit c \<longleftrightarrow> 48 \<le> byte c \<and> byte c \<le> 57"

definition is_upper :: "char \<Rightarrow> bool" where
  "is_upper c \<longleftrightarrow> 65 \<le> byte c \<and> byte c \<le> 90"

definition is_lower :: "char \<Rightarrow> bool" where
  "is_lower c \<longleftrightarrow> 97 \<le> byte c \<and> byte c \<le> 122"

definition is_alpha :: "char \<Rightarrow> bool" where
  "is_alpha c \<longleftrightarrow> is_upper c \<or> is_lower c"

definition is_alnum :: "char \<Rightarrow> bool" where
  "is_alnum c \<longleftrightarrow> is_alpha c \<or> is_digit c"

definition lower_char :: "char \<Rightarrow> char" where
  "lower_char c = (if is_upper c then char_of (byte c + 32) else c)"

definition upper_char :: "char \<Rightarrow> char" where
  "upper_char c = (if is_lower c then char_of (byte c - 32) else c)"

definition lower :: "string \<Rightarrow> string" where
  "lower s = map lower_char s"

lemma byte_char_of [simp]: "byte (char_of (n::nat)) = n mod 256"
  by (simp add: byte_def)

lemma byte_bound [simp]: "byte c < 256"
  by (simp add: byte_def)

lemma byte_eq_iff: "byte c = byte d \<longleftrightarrow> c = d"
  by (simp add: byte_def)

lemma lower_char_idem [simp]: "lower_char (lower_char c) = lower_char c"
  by (auto simp: lower_char_def is_upper_def)

lemma lower_idem [simp]: "lower (lower s) = lower s"
  by (simp add: lower_def)

lemma lower_Nil [simp]: "lower [] = []" and lower_Cons: "lower (c # s) = lower_char c # lower s"
  and lower_append: "lower (s @ t) = lower s @ lower t"
  and length_lower [simp]: "length (lower s) = length s"
  by (simp_all add: lower_def)

lemma is_upper_upper_char: "is_alpha c \<Longrightarrow> is_upper (upper_char c)"
  by (auto simp: is_alpha_def upper_char_def is_lower_def is_upper_def)

lemma upper_char_idem [simp]: "upper_char (upper_char c) = upper_char c"
  by (auto simp: upper_char_def is_lower_def)

definition eq_ignore_case :: "string \<Rightarrow> string \<Rightarrow> bool" where
  "eq_ignore_case s t \<longleftrightarrow> lower s = lower t"

section \<open>Searching and splitting\<close>

fun contains :: "string \<Rightarrow> string \<Rightarrow> bool" where
  "contains [] n = (n = [])"
| "contains (c # cs) n = (prefix n (c # cs) \<or> contains cs n)"

lemma contains_iff_sublist: "contains h n \<longleftrightarrow> sublist n h"
  by (induction h n rule: contains.induct) (auto simp: sublist_Cons_right)

lemma contains_append: "contains (a @ n @ b) n"
  by (auto simp: contains_iff_sublist sublist_def)

definition contains_any :: "string \<Rightarrow> string list \<Rightarrow> bool" where
  "contains_any h ns \<longleftrightarrow> (\<exists>n \<in> set ns. contains h n)"

lemma contains_any_code [code]: "contains_any h ns = list_ex (contains h) ns"
  by (simp add: contains_any_def list_ex_iff)

fun split_once :: "string \<Rightarrow> string \<Rightarrow> (string \<times> string) option" where
  "split_once p [] = (if p = [] then Some ([], []) else None)"
| "split_once p (c # cs) =
     (if prefix p (c # cs) then Some ([], drop (length p) (c # cs))
      else map_option (\<lambda>(a, b). (c # a, b)) (split_once p cs))"

lemma split_once_Some: "split_once p s = Some (a, b) \<Longrightarrow> s = a @ p @ b"
proof (induction p s arbitrary: a b rule: split_once.induct)
  case (1 p)
  then show ?case by (auto split: if_splits)
next
  case (2 p c cs)
  then show ?case by (auto split: if_splits simp: prefix_def)
qed

lemma split_once_None: "split_once p s = None \<longleftrightarrow> \<not> contains s p"
  by (induction p s rule: split_once.induct) auto

lemma split_once_head: "split_once t (t @ r) = Some ([], r)"
proof (cases "t @ r")
  case (Cons a l)
  have "prefix t (a # l)" "drop (length t) (a # l) = r"
    unfolding Cons [symmetric] by simp_all
  then show ?thesis by (simp add: Cons)
qed simp

lemma split_once_first:
  assumes "\<And>x y. a = x @ y \<Longrightarrow> y \<noteq> [] \<Longrightarrow> \<not> prefix t (y @ t @ r)"
  shows "split_once t (a @ t @ r) = Some (a, r)"
  using assms
proof (induction a)
  case Nil
  then show ?case by (simp add: split_once_head)
next
  case (Cons c a)
  have "\<not> prefix t ((c # a) @ t @ r)" using Cons.prems [of "[]"] by simp
  moreover have "split_once t (a @ t @ r) = Some (a, r)"
    using Cons.prems by (intro Cons.IH) (metis append_Cons)
  ultimately show ?case by simp
qed

lemma split_once_char:
  "c \<notin> set a \<Longrightarrow> split_once [c] (a @ c # b) = Some (a, b)"
  by (induction a) (auto simp: prefix_def)

lemma split_once_char_absent: "c \<notin> set s \<Longrightarrow> split_once [c] s = None"
  by (induction s) (auto simp: prefix_def)

lemma split_once_char_first: "split_once [c] s = Some (a, b) \<Longrightarrow> c \<notin> set a"
proof (induction "[c]" s arbitrary: a b rule: split_once.induct)
  case 1
  then show ?case by simp
next
  case (2 d cs)
  then show ?case by (auto split: if_splits simp: prefix_def)
qed

fun split_char :: "char \<Rightarrow> string \<Rightarrow> string list" where
  "split_char c [] = [[]]"
| "split_char c (x # xs) =
     (if x = c then [] # split_char c xs
      else (case split_char c xs of [] \<Rightarrow> [[x]] | y # ys \<Rightarrow> (x # y) # ys))"

lemma split_char_not_Nil [simp]: "split_char c s \<noteq> []"
  by (cases s) (auto split: list.splits)

lemma split_char_absent: "c \<notin> set s \<Longrightarrow> split_char c s = [s]"
  by (induction s) auto

lemma split_char_append: "c \<notin> set a \<Longrightarrow> split_char c (a @ c # b) = a # split_char c b"
  by (induction a) auto

lemma split_char_pieces: "y \<in> set (split_char c s) \<Longrightarrow> c \<notin> set y"
  by (induction s arbitrary: y) (auto split: if_splits list.splits)

lemma split_char_subset: "y \<in> set (split_char c s) \<Longrightarrow> set y \<subseteq> set s"
proof (induction s arbitrary: y)
  case (Cons x s)
  obtain z zs where z: "split_char c s = z # zs"
    by (metis list.exhaust split_char_not_Nil)
  with Cons.prems have "y \<in> set (split_char c s) \<or> y = x # z \<or> y = []"
    by (auto split: if_splits)
  moreover have "set z \<subseteq> set s" using Cons.IH z by simp
  ultimately show ?case using Cons.IH by auto
qed simp

fun join :: "string \<Rightarrow> string list \<Rightarrow> string" where
  "join sep [] = []"
| "join sep [x] = x"
| "join sep (x # y # ys) = x @ sep @ join sep (y # ys)"

lemma split_char_join:
  assumes "xs \<noteq> []" and "\<forall>x \<in> set xs. c \<notin> set x"
  shows "split_char c (join [c] xs) = xs"
  using assms
proof (induction "[c]" xs rule: join.induct)
  case (3 x y ys)
  then show ?case by (simp add: split_char_append)
qed (auto simp: split_char_absent)

lemma join_split_char: "join [c] (split_char c s) = s"
proof (induction s)
  case (Cons x xs)
  obtain y ys where "split_char c xs = y # ys"
    by (cases "split_char c xs") auto
  with Cons show ?case by (cases ys) auto
qed simp

definition strip_prefix :: "string \<Rightarrow> string \<Rightarrow> string option" where
  "strip_prefix p s = (if prefix p s then Some (drop (length p) s) else None)"

definition strip_suffix :: "string \<Rightarrow> string \<Rightarrow> string option" where
  "strip_suffix p s = (if suffix p s then Some (take (length s - length p) s) else None)"

lemma strip_prefix_Some: "strip_prefix p s = Some r \<longleftrightarrow> s = p @ r"
  by (auto simp: strip_prefix_def prefix_def)

definition trim_start_char :: "char \<Rightarrow> string \<Rightarrow> string" where
  "trim_start_char c s = dropWhile (\<lambda>x. x = c) s"

definition trim_end_char :: "char \<Rightarrow> string \<Rightarrow> string" where
  "trim_end_char c s = rev (dropWhile (\<lambda>x. x = c) (rev s))"

lemma trim_end_char_last: "trim_end_char c s \<noteq> [] \<Longrightarrow> last (trim_end_char c s) \<noteq> c"
proof -
  assume "trim_end_char c s \<noteq> []"
  then have "dropWhile (\<lambda>x. x = c) (rev s) \<noteq> []" by (simp add: trim_end_char_def)
  then show ?thesis
    using hd_dropWhile [of "\<lambda>x. x = c" "rev s"] by (simp add: trim_end_char_def last_rev)
qed

lemma trim_end_char_id: "(s \<noteq> [] \<Longrightarrow> last s \<noteq> c) \<Longrightarrow> trim_end_char c s = s"
  by (cases "rev s") (auto simp: trim_end_char_def)

lemma trim_end_char_idem [simp]: "trim_end_char c (trim_end_char c s) = trim_end_char c s"
  by (rule trim_end_char_id) (rule trim_end_char_last)

lemma trim_end_char_snoc [simp]: "trim_end_char c (s @ [c]) = trim_end_char c s"
  by (simp add: trim_end_char_def)

lemma trim_end_char_decomp: "\<exists>k. s = trim_end_char c s @ replicate k c"
proof (induction s rule: rev_induct)
  case Nil
  then show ?case by (simp add: trim_end_char_def)
next
  case (snoc x s)
  show ?case
  proof (cases "x = c")
    case True
    obtain k where k: "s = trim_end_char c s @ replicate k c" using snoc by blast
    have "trim_end_char c (s @ [x]) @ replicate (Suc k) c = (trim_end_char c s @ replicate k c) @ [c]"
      unfolding True trim_end_char_snoc by (simp add: replicate_append_same)
    also have "\<dots> = s @ [x]" unfolding True k [symmetric] ..
    finally show ?thesis by metis
  next
    case False
    then have "trim_end_char c (s @ [x]) = s @ [x]" by (simp add: trim_end_char_def)
    then show ?thesis by (intro exI [of _ 0]) simp
  qed
qed

definition rfind_char :: "char \<Rightarrow> string \<Rightarrow> nat option" where
  "rfind_char c s = map_option (\<lambda>i. length s - 1 - i) (position (\<lambda>x. x = c) (rev s))"

section \<open>White space\<close>

definition ws_codes :: "string list" where
  "ws_codes = map (map (char_of :: nat \<Rightarrow> char))
     ([[9], [10], [11], [12], [13], [32], [194, 133], [194, 160], [225, 154, 128]]
      @ map (\<lambda>n. [226, 128, n]) [128, 129, 130, 131, 132, 133, 134, 135, 136, 137, 138, 168, 169, 175]
      @ [[226, 129, 159], [227, 128, 128]])"

function strip_ws :: "string list \<Rightarrow> string \<Rightarrow> string" where
  "strip_ws ws s =
     (case find (\<lambda>w. w \<noteq> [] \<and> prefix w s) ws of
        None \<Rightarrow> s
      | Some w \<Rightarrow> strip_ws ws (drop (length w) s))"
  by pat_completeness auto
termination
  by (relation "measure (\<lambda>(ws, s). length s)")
    (auto dest!: find_Some_set simp: prefix_def)

declare strip_ws.simps [simp del]

definition trim :: "string \<Rightarrow> string" where
  "trim s = rev (strip_ws (map rev ws_codes) (rev (strip_ws ws_codes s)))"

lemma strip_ws_suffix: "suffix (strip_ws ws s) s"
proof (induction ws s rule: strip_ws.induct)
  case (1 ws s)
  show ?case
  proof (cases "find (\<lambda>w. w \<noteq> [] \<and> prefix w s) ws")
    case None
    then show ?thesis by (simp add: strip_ws.simps [of ws s])
  next
    case (Some w)
    with 1 have "suffix (strip_ws ws (drop (length w) s)) s"
      using suffix_drop suffix_order.trans by blast
    with Some show ?thesis by (simp add: strip_ws.simps [of ws s])
  qed
qed

lemma strip_ws_stop: "find (\<lambda>w. w \<noteq> [] \<and> prefix w s) ws = None \<Longrightarrow> strip_ws ws s = s"
  by (simp add: strip_ws.simps)

definition graphic :: "char \<Rightarrow> bool" where
  "graphic c \<longleftrightarrow> 33 \<le> byte c \<and> byte c \<le> 126"

lemma ws_codes_edges: "list_all (\<lambda>w. w \<noteq> [] \<and> \<not> graphic (hd w) \<and> \<not> graphic (last w)) ws_codes"
  by code_simp

lemma strip_ws_graphic:
  assumes "\<forall>w \<in> set ws. w \<noteq> [] \<and> \<not> graphic (hd w)" and "s \<noteq> [] \<Longrightarrow> graphic (hd s)"
  shows "strip_ws ws s = s"
proof (rule strip_ws_stop)
  have "\<not> prefix w s" if "w \<in> set ws" for w
  proof
    assume "prefix w s"
    moreover have "w \<noteq> []" using assms(1) that by blast
    ultimately have "s \<noteq> []" "hd s = hd w" by (auto simp: prefix_def)
    then show False using assms that by auto
  qed
  then show "find (\<lambda>w. w \<noteq> [] \<and> prefix w s) ws = None" by (auto simp: find_None_iff)
qed

lemma trim_id:
  assumes "s \<noteq> [] \<Longrightarrow> graphic (hd s) \<and> graphic (last s)"
  shows "trim s = s"
proof -
  have "strip_ws ws_codes s = s"
    using assms ws_codes_edges by (intro strip_ws_graphic) (auto simp: list_all_iff)
  moreover have "strip_ws (map rev ws_codes) (rev s) = rev s"
    using assms ws_codes_edges by (intro strip_ws_graphic) (auto simp: list_all_iff hd_rev)
  ultimately show ?thesis by (simp add: trim_def)
qed

lemma trim_graphic: "list_all graphic s \<Longrightarrow> trim s = s"
  by (rule trim_id) (auto simp: list_all_iff)

lemma strip_ws_result: "find (\<lambda>w. w \<noteq> [] \<and> prefix w (strip_ws ws s)) ws = None"
proof (induction ws s rule: strip_ws.induct)
  case (1 ws s)
  show ?case
  proof (cases "find (\<lambda>w. w \<noteq> [] \<and> prefix w s) ws")
    case None
    then show ?thesis by (simp add: strip_ws_stop)
  next
    case (Some w)
    then have "strip_ws ws s = strip_ws ws (drop (length w) s)" by (simp add: strip_ws.simps [of ws s])
    with 1 [OF Some] show ?thesis by simp
  qed
qed

lemma trim_prefix: "prefix (trim s) (strip_ws ws_codes s)"
  using strip_ws_suffix [of "map rev ws_codes" "rev (strip_ws ws_codes s)"]
  by (simp add: trim_def suffix_to_prefix)

lemma ws_codes_space: "'' '' \<in> set ws_codes"
  by code_simp

lemma trim_hd_space: "trim s \<noteq> [] \<Longrightarrow> hd (trim s) \<noteq> CHR '' ''"
proof
  assume ne: "trim s \<noteq> []" and hd: "hd (trim s) = CHR '' ''"
  obtain r where "strip_ws ws_codes s = trim s @ r" using trim_prefix by (auto simp: prefix_def)
  then have "prefix '' '' (strip_ws ws_codes s)" using ne hd by (cases "trim s") auto
  then show False using strip_ws_result [of ws_codes s] ws_codes_space by (auto simp: find_None_iff)
qed

lemma strip_ws_space: "strip_ws ws_codes (CHR '' '' # s) = strip_ws ws_codes s"
proof -
  have only: "list_all (\<lambda>w. w \<noteq> [] \<and> hd w = CHR '' '' \<longrightarrow> w = '' '') ws_codes" by code_simp
  have "find (\<lambda>w. w \<noteq> [] \<and> prefix w (CHR '' '' # s)) ws_codes \<noteq> None"
    using ws_codes_space unfolding find_None_iff by fastforce
  then obtain w where w: "find (\<lambda>w. w \<noteq> [] \<and> prefix w (CHR '' '' # s)) ws_codes = Some w" by blast
  then have p: "w \<in> set ws_codes" "w \<noteq> []" "prefix w (CHR '' '' # s)"
    using find_Some_set [OF w] by auto
  have "hd w = CHR '' ''" using p(2,3) by (auto simp: neq_Nil_conv)
  then have "w = '' ''" using only p by (auto simp: list_all_iff)
  with w have "find (\<lambda>w. w \<noteq> [] \<and> prefix w (CHR '' '' # s)) ws_codes = Some '' ''" by simp
  then show ?thesis by (simp add: strip_ws.simps [of _ "CHR '' '' # s"])
qed

lemma trim_space_Cons: "trim (CHR '' '' # s) = trim s"
  by (simp add: trim_def strip_ws_space)

lemma set_trim: "set (trim s) \<subseteq> set s"
proof -
  let ?a = "strip_ws ws_codes s"
  have "set ?a \<subseteq> set s" by (meson set_mono_suffix strip_ws_suffix)
  moreover have "set (strip_ws (map rev ws_codes) (rev ?a)) \<subseteq> set (rev ?a)"
    by (meson set_mono_suffix strip_ws_suffix)
  ultimately show ?thesis by (auto simp: trim_def)
qed

section \<open>Numbers\<close>

definition digit_val :: "char \<Rightarrow> nat" where
  "digit_val c = byte c - 48"

definition hex_val :: "char \<Rightarrow> nat option" where
  "hex_val c =
     (if is_digit c then Some (byte c - 48)
      else if 97 \<le> byte c \<and> byte c \<le> 102 then Some (byte c - 87)
      else if 65 \<le> byte c \<and> byte c \<le> 70 then Some (byte c - 55)
      else None)"

definition digits_val :: "string \<Rightarrow> nat" where
  "digits_val s = foldl (\<lambda>n c. 10 * n + digit_val c) 0 s"

definition parse_digits :: "string \<Rightarrow> nat option" where
  "parse_digits s = (if s \<noteq> [] \<and> list_all is_digit s then Some (digits_val s) else None)"

definition parse_u32 :: "string \<Rightarrow> u32 option" where
  "parse_u32 s =
     (case parse_digits (if prefix ''+'' s then tl s else s) of
        Some n \<Rightarrow> if n < 2 ^ 32 then Some (of_nat n) else None
      | None \<Rightarrow> None)"

definition parse_i64 :: "string \<Rightarrow> int option" where
  "parse_i64 s =
     (if prefix ''-'' s then
        (case parse_digits (tl s) of
           Some n \<Rightarrow> if n \<le> 2 ^ 63 then Some (- int n) else None
         | None \<Rightarrow> None)
      else
        (case parse_digits (if prefix ''+'' s then tl s else s) of
           Some n \<Rightarrow> if n < 2 ^ 63 then Some (int n) else None
         | None \<Rightarrow> None))"

definition digit_char :: "nat \<Rightarrow> char" where
  "digit_char n = char_of (48 + n)"

fun dec :: "nat \<Rightarrow> string" where
  "dec n = (if n < 10 then [digit_char n] else dec (n div 10) @ [digit_char (n mod 10)])"

declare dec.simps [simp del]

definition hex_digit :: "nat \<Rightarrow> char" where
  "hex_digit n = (if n < 10 then char_of (48 + n) else char_of (87 + n))"

lemma digit_char_props [simp]:
  "n < 10 \<Longrightarrow> is_digit (digit_char n)" "n < 10 \<Longrightarrow> digit_val (digit_char n) = n"
  by (simp_all add: digit_char_def is_digit_def digit_val_def)

lemma digits_val_snoc: "digits_val (s @ [c]) = 10 * digits_val s + digit_val c"
  by (simp add: digits_val_def)

lemma dec_not_Nil [simp]: "dec n \<noteq> []"
  by (subst dec.simps) simp

lemma dec_digits: "list_all is_digit (dec n)"
proof (induction n rule: dec.induct)
  case (1 n)
  then show ?case by (subst dec.simps) (auto simp: list_all_iff)
qed

lemma digits_val_dec: "digits_val (dec n) = n"
proof (induction n rule: dec.induct)
  case (1 n)
  show ?case
  proof (cases "n < 10")
    case True
    then show ?thesis by (subst dec.simps) (simp add: digits_val_def)
  next
    case False
    with 1 have "digits_val (dec (n div 10)) = n div 10" by simp
    with False show ?thesis by (subst dec.simps) (simp add: digits_val_snoc)
  qed
qed

lemma parse_digits_dec [simp]: "parse_digits (dec n) = Some n"
  using dec_digits [of n] by (simp add: parse_digits_def digits_val_dec)

lemma parse_i64_range: "parse_i64 s = Some n \<Longrightarrow> - (2 ^ 63) \<le> n \<and> n < 2 ^ 63"
proof -
  assume h: "parse_i64 s = Some n"
  consider (neg) m where "m \<le> 2 ^ 63" "n = - int m" | (pos) m where "m < 2 ^ 63" "n = int m"
    using h by (auto simp: parse_i64_def split: if_splits option.splits)
  then show ?thesis
  proof cases
    case neg
    then have "int m \<le> 2 ^ 63" using of_nat_le_iff [of m "2 ^ 63", where 'a = int] by simp
    with neg show ?thesis by simp
  next
    case pos
    then have "int m < 2 ^ 63" using of_nat_less_iff [of m "2 ^ 63", where 'a = int] by simp
    with pos show ?thesis by simp
  qed
qed

lemma digit_chars:
  "digit_char 0 = CHR ''0''" "digit_char 1 = CHR ''1''" "digit_char 2 = CHR ''2''"
  "digit_char 3 = CHR ''3''" "digit_char 4 = CHR ''4''" "digit_char 5 = CHR ''5''"
  "digit_char 6 = CHR ''6''" "digit_char 7 = CHR ''7''" "digit_char 8 = CHR ''8''"
  "digit_char 9 = CHR ''9''"
  by code_simp+

lemmas dec_eval = dec.simps digit_chars digit_chars(2) [unfolded One_nat_def]

lemma dec_hd_digit: "is_digit (hd (dec n))"
  using dec_digits [of n] by (cases "dec n") auto

lemma parse_i64_dec: "n < 2 ^ 63 \<Longrightarrow> parse_i64 (dec n) = Some (int n)"
proof -
  assume n: "n < 2 ^ 63"
  have "\<not> prefix [c] (dec n)" if "\<not> is_digit c" for c
    using dec_hd_digit [of n] that by (cases "dec n") auto
  then have "\<not> prefix ''-'' (dec n)" "\<not> prefix ''+'' (dec n)"
    by (auto simp: is_digit_def byte_def)
  with n show ?thesis by (simp add: parse_i64_def)
qed

lemma dec_graphic: "list_all graphic (dec n)"
  using dec_digits [of n] by (auto simp: list_all_iff is_digit_def graphic_def)

lemma dec_no_char: "\<not> is_digit c \<Longrightarrow> c \<notin> set (dec n)"
  using dec_digits [of n] by (auto simp: list_all_iff)

lemma lower_char_dot: "lower_char c = CHR ''.'' \<longleftrightarrow> c = CHR ''.''"
proof -
  have "byte (CHR ''.'') = 46" by (simp add: byte_def)
  then have "lower_char c = CHR ''.'' \<longleftrightarrow> byte (lower_char c) = 46"
      "c = CHR ''.'' \<longleftrightarrow> byte c = 46" using byte_eq_iff by metis+
  then show ?thesis by (simp add: lower_char_def is_upper_def)
qed

section \<open>IP address literals\<close>

text \<open>
  \<open>str::parse::<IpAddr>\<close>: an IPv4 address is tried first, then an IPv6 address, and the whole
  input has to be consumed. Each reader returns the rest of the input.
\<close>

definition read_dec_octet :: "string \<Rightarrow> string option" where
  "read_dec_octet s =
     (let ds = takeWhile is_digit s in
      if ds = [] \<or> 3 < length ds \<or> (1 < length ds \<and> hd ds = CHR ''0'') \<or> 255 < digits_val ds
      then None else Some (drop (length ds) s))"

definition read_hex_group :: "string \<Rightarrow> string option" where
  "read_hex_group s =
     (let ds = takeWhile (\<lambda>c. hex_val c \<noteq> None) s in
      if ds = [] \<or> 4 < length ds then None else Some (drop (length ds) s))"

definition read_sep :: "char \<Rightarrow> nat \<Rightarrow> string \<Rightarrow> string option" where
  "read_sep c i s = (if i = 0 then Some s else strip_prefix [c] s)"

fun read_octets :: "nat \<Rightarrow> nat \<Rightarrow> string \<Rightarrow> string option" where
  "read_octets i 0 s = Some s"
| "read_octets i (Suc k) s =
     Option.bind (read_sep (CHR ''.'') i s) (\<lambda>s'.
       Option.bind (read_dec_octet s') (read_octets (Suc i) k))"

definition read_ipv4 :: "string \<Rightarrow> string option" where
  "read_ipv4 s = read_octets 0 4 s"

fun read_groups :: "nat \<Rightarrow> nat \<Rightarrow> string \<Rightarrow> nat \<times> bool \<times> string" where
  "read_groups i 0 s = (i, False, s)"
| "read_groups i (Suc k) s =
     (case (if 0 < k then Option.bind (read_sep (CHR '':'') i s) read_ipv4 else None) of
        Some r \<Rightarrow> (i + 2, True, r)
      | None \<Rightarrow>
          (case Option.bind (read_sep (CHR '':'') i s) read_hex_group of
             Some r \<Rightarrow> read_groups (Suc i) k r
           | None \<Rightarrow> (i, False, s)))"

definition read_ipv6 :: "string \<Rightarrow> string option" where
  "read_ipv6 s =
     (case read_groups 0 8 s of (n, v4, r) \<Rightarrow>
        if n = 8 then Some r
        else if v4 then None
        else Option.bind (strip_prefix ''::'' r) (\<lambda>r'.
          (case read_groups 0 (8 - (n + 1)) r' of (m, w4, r'') \<Rightarrow> Some r'')))"

definition is_ip_addr :: "string \<Rightarrow> bool" where
  "is_ip_addr s =
     (case read_ipv4 s of
        Some r \<Rightarrow> r = []
      | None \<Rightarrow> (case read_ipv6 s of Some r \<Rightarrow> r = [] | None \<Rightarrow> False))"

section \<open>Lossy UTF-8 decoding\<close>

definition is_cont :: "u8 \<Rightarrow> bool" where
  "is_cont b \<longleftrightarrow> b AND 192 = 128"

definition between :: "u8 \<Rightarrow> u8 \<Rightarrow> u8 \<Rightarrow> bool" where
  "between lo hi b \<longleftrightarrow> lo \<le> b \<and> b \<le> hi"

text \<open>
  One step of the decoder on a non-empty input: whether a complete character was read, and how
  many bytes were consumed. A read past the end sees a zero byte, which continues nothing.
\<close>

definition byte_at :: "u8 list \<Rightarrow> nat \<Rightarrow> u8" where
  "byte_at bs i = (if i < length bs then bs ! i else 0)"

definition utf8_second3 :: "u8 \<Rightarrow> u8 \<Rightarrow> bool" where
  "utf8_second3 a b \<longleftrightarrow>
     a = 224 \<and> between 160 191 b \<or> between 225 236 a \<and> between 128 191 b \<or>
     a = 237 \<and> between 128 159 b \<or> between 238 239 a \<and> between 128 191 b"

definition utf8_second4 :: "u8 \<Rightarrow> u8 \<Rightarrow> bool" where
  "utf8_second4 a b \<longleftrightarrow>
     a = 240 \<and> between 144 191 b \<or> between 241 243 a \<and> between 128 191 b \<or>
     a = 244 \<and> between 128 143 b"

definition utf8_step :: "u8 list \<Rightarrow> bool \<times> nat" where
  "utf8_step bs =
     (let a = byte_at bs 0 in
      if a < 128 then (True, 1)
      else if between 194 223 a then
        (if is_cont (byte_at bs 1) then (True, 2) else (False, 1))
      else if between 224 239 a then
        (if \<not> utf8_second3 a (byte_at bs 1) then (False, 1)
         else if is_cont (byte_at bs 2) then (True, 3) else (False, 2))
      else if between 240 244 a then
        (if \<not> utf8_second4 a (byte_at bs 1) then (False, 1)
         else if \<not> is_cont (byte_at bs 2) then (False, 2)
         else if is_cont (byte_at bs 3) then (True, 4) else (False, 3))
      else (False, 1))"

lemma utf8_step_pos: "0 < snd (utf8_step bs)"
  by (simp add: utf8_step_def Let_def)

definition char_of_byte :: "u8 \<Rightarrow> char" where
  "char_of_byte b = char_of (unat b)"

function from_utf8_lossy :: "u8 list \<Rightarrow> string" where
  "from_utf8_lossy bs =
     (if bs = [] then []
      else (case utf8_step bs of (valid, n) \<Rightarrow>
        (if valid then map char_of_byte (take n bs) else map char_of [239, 191, 189 :: nat])
        @ from_utf8_lossy (drop n bs)))"
  by pat_completeness auto
termination
proof (relation "measure length", goal_cases)
  case 1
  show ?case by simp
next
  case (2 bs)
  then show ?case using utf8_step_pos [of bs]
    by (cases bs) (auto dest!: arg_cong [where f = snd])
qed

declare from_utf8_lossy.simps [simp del]

lemma from_utf8_lossy_Nil [simp]: "from_utf8_lossy [] = []"
  by (simp add: from_utf8_lossy.simps)

lemma from_utf8_lossy_ascii:
  "\<forall>b \<in> set bs. b < 128 \<Longrightarrow> from_utf8_lossy bs = map char_of_byte bs"
proof (induction bs)
  case (Cons b bs)
  then have "utf8_step (b # bs) = (True, 1)"
    by (simp add: utf8_step_def byte_at_def)
  with Cons show ?case by (simp add: from_utf8_lossy.simps [of "b # bs"])
qed simp

end
