(* ===== verification/Ja4Parse.thy ===== *)
theory Ja4Parse
  imports Rust_Str
begin

text \<open>
  Models \<open>src/src/ja4/parse.rs\<close> and the error type of \<open>src/src/ja4/mod.rs\<close>: the bounds-checked
  cursor \<open>Reader\<close>, the \<open>ClientHello\<close> record and \<open>ClientHello::parse\<close>. A reader is a buffer and a
  position, passed and returned explicitly; an error ends the parse. The two list loops and the
  extension loop are recursive functions whose measure is the unread part of the buffer.

  The second half states what a well-formed message is with a reference encoder, and proves that
  the parser inverts it, that it never accepts a truncated message, and that its cursor stays
  inside the buffer.
\<close>

section \<open>Errors and the cursor\<close>

datatype ja4_error = Truncated | NotClientHello u8 | Malformed string

record reader =
  rbuf :: "u8 list"
  rpos :: nat

definition rd_new :: "u8 list \<Rightarrow> reader" where
  "rd_new b = \<lparr>rbuf = b, rpos = 0\<rparr>"

definition rd_is_empty :: "reader \<Rightarrow> bool" where
  "rd_is_empty r \<longleftrightarrow> length (rbuf r) \<le> rpos r"

definition rd_take :: "nat \<Rightarrow> reader \<Rightarrow> ja4_error + (u8 list \<times> reader)" where
  "rd_take n r =
     (let end_pos = rpos r + n in
      if 2 ^ 64 \<le> end_pos then Inl Truncated
      else if end_pos \<le> length (rbuf r)
      then Inr (take n (drop (rpos r) (rbuf r)), r\<lparr>rpos := end_pos\<rparr>)
      else Inl Truncated)"

definition u16_from_be :: "u8 \<Rightarrow> u8 \<Rightarrow> u16" where
  "u16_from_be a b = of_nat (unat a * 256 + unat b)"

definition u32_from_be :: "u8 \<Rightarrow> u8 \<Rightarrow> u8 \<Rightarrow> u8 \<Rightarrow> u32" where
  "u32_from_be a b c d = of_nat (unat a * 16777216 + unat b * 65536 + unat c * 256 + unat d)"

definition rd_u8 :: "reader \<Rightarrow> ja4_error + (u8 \<times> reader)" where
  "rd_u8 r = andthen (rd_take 1 r) (\<lambda>(bs, r'). Inr (bs ! 0, r'))"

definition rd_u16 :: "reader \<Rightarrow> ja4_error + (u16 \<times> reader)" where
  "rd_u16 r = andthen (rd_take 2 r) (\<lambda>(bs, r'). Inr (u16_from_be (bs ! 0) (bs ! 1), r'))"

definition rd_u24 :: "reader \<Rightarrow> ja4_error + (u32 \<times> reader)" where
  "rd_u24 r = andthen (rd_take 3 r) (\<lambda>(bs, r'). Inr (u32_from_be 0 (bs ! 0) (bs ! 1) (bs ! 2), r'))"

definition rd_block :: "nat \<Rightarrow> reader \<Rightarrow> ja4_error + (u8 list \<times> reader)" where
  "rd_block len_bytes r =
     (if len_bytes = 1 then andthen (rd_u8 r) (\<lambda>(n, r'). rd_take (unat n) r')
      else if len_bytes = 2 then andthen (rd_u16 r) (\<lambda>(n, r'). rd_take (unat n) r')
      else if len_bytes = 3 then andthen (rd_u24 r) (\<lambda>(n, r'). rd_take (unat n) r')
      else Inl (Malformed ''unsupported length prefix width''))"

fun u16_list :: "u8 list \<Rightarrow> ja4_error + u16 list" where
  "u16_list [] = Inr []"
| "u16_list [x] = Inl (Malformed ''odd-length u16 list'')"
| "u16_list (a # b # bs) = andthen (u16_list bs) (\<lambda>vs. Inr (u16_from_be a b # vs))"

lemma rd_take_Inr:
  "rd_take n r = Inr (bs, r') \<Longrightarrow>
     rbuf r' = rbuf r \<and> rpos r' = rpos r + n \<and> rpos r' \<le> length (rbuf r) \<and> length bs = n"
  by (auto simp: rd_take_def Let_def split: if_splits)

lemma rd_take_short: "length (rbuf r) < rpos r + n \<Longrightarrow> rd_take n r = Inl Truncated"
  by (simp add: rd_take_def Let_def)

lemma rd_take_error: "rd_take n r = Inl e \<Longrightarrow> e = Truncated"
  by (auto simp: rd_take_def Let_def split: if_splits)

lemma rd_u8_Inr:
  "rd_u8 r = Inr (b, r') \<Longrightarrow> rbuf r' = rbuf r \<and> rpos r' = rpos r + 1 \<and> rpos r' \<le> length (rbuf r)"
  by (auto simp: rd_u8_def andthen_Inr dest!: rd_take_Inr)

lemma rd_u16_Inr:
  "rd_u16 r = Inr (b, r') \<Longrightarrow> rbuf r' = rbuf r \<and> rpos r' = rpos r + 2 \<and> rpos r' \<le> length (rbuf r)"
  by (auto simp: rd_u16_def andthen_Inr dest!: rd_take_Inr)

lemma rd_u24_Inr:
  "rd_u24 r = Inr (b, r') \<Longrightarrow> rbuf r' = rbuf r \<and> rpos r' = rpos r + 3 \<and> rpos r' \<le> length (rbuf r)"
  by (auto simp: rd_u24_def andthen_Inr dest!: rd_take_Inr)

lemma rd_block_Inr:
  "rd_block k r = Inr (bs, r') \<Longrightarrow>
     rbuf r' = rbuf r \<and> rpos r + k + length bs = rpos r' \<and> rpos r' \<le> length (rbuf r)"
  by (auto simp: rd_block_def andthen_Inr
      dest!: rd_take_Inr rd_u8_Inr rd_u16_Inr rd_u24_Inr split: if_splits)

lemmas rd_advance = rd_take_Inr rd_u8_Inr rd_u16_Inr rd_u24_Inr rd_block_Inr

section \<open>The parsed message\<close>

record client_hello =
  ch_legacy_version :: u16
  ch_cipher_suites :: "u16 list"
  ch_extensions :: "u16 list"
  ch_supported_versions :: "u16 list"
  ch_signature_algorithms :: "u16 list"
  ch_supported_groups :: "u16 list"
  ch_alpn :: "string list"
  ch_server_name :: "string option"

definition hello_default :: client_hello where
  "hello_default = \<lparr>ch_legacy_version = 0, ch_cipher_suites = [], ch_extensions = [],
     ch_supported_versions = [], ch_signature_algorithms = [], ch_supported_groups = [],
     ch_alpn = [], ch_server_name = None\<rparr>"

definition EXT_SERVER_NAME :: u16 where "EXT_SERVER_NAME = 0x0000"
definition EXT_SUPPORTED_GROUPS :: u16 where "EXT_SUPPORTED_GROUPS = 0x000a"
definition EXT_SIGNATURE_ALGORITHMS :: u16 where "EXT_SIGNATURE_ALGORITHMS = 0x000d"
definition EXT_ALPN :: u16 where "EXT_ALPN = 0x0010"
definition EXT_SUPPORTED_VERSIONS :: u16 where "EXT_SUPPORTED_VERSIONS = 0x002b"

lemmas ext_ids = EXT_SERVER_NAME_def EXT_SUPPORTED_GROUPS_def EXT_SIGNATURE_ALGORITHMS_def
  EXT_ALPN_def EXT_SUPPORTED_VERSIONS_def

definition CONTENT_TYPE_HANDSHAKE :: u8 where "CONTENT_TYPE_HANDSHAKE = 0x16"
definition HANDSHAKE_TYPE_CLIENT_HELLO :: u8 where "HANDSHAKE_TYPE_CLIENT_HELLO = 0x01"
definition CLIENT_HELLO_RANDOM_LEN :: nat where "CLIENT_HELLO_RANDOM_LEN = 32"

lemmas wire_consts = CONTENT_TYPE_HANDSHAKE_def HANDSHAKE_TYPE_CLIENT_HELLO_def
  CLIENT_HELLO_RANDOM_LEN_def

text \<open>The loop over the entries of a \<open>server_name\<close> extension stops at the first host name.\<close>

function sni_loop :: "reader \<Rightarrow> client_hello \<Rightarrow> ja4_error + client_hello" where
  "sni_loop r h =
     (if rd_is_empty r then Inr h
      else andthen (rd_u8 r) (\<lambda>(name_type, r1).
        andthen (rd_block 2 r1) (\<lambda>(name, r2).
          if name_type = 0 then Inr (h\<lparr>ch_server_name := Some (from_utf8_lossy name)\<rparr>)
          else sni_loop r2 h)))"
  by pat_completeness auto
termination
  by (relation "measure (\<lambda>(r, h). length (rbuf r) - rpos r)") (auto dest!: rd_advance)

function alpn_loop :: "reader \<Rightarrow> client_hello \<Rightarrow> ja4_error + client_hello" where
  "alpn_loop r h =
     (if rd_is_empty r then Inr h
      else andthen (rd_block 1 r) (\<lambda>(proto, r1).
        alpn_loop r1 (h\<lparr>ch_alpn := ch_alpn h @ [from_utf8_lossy proto]\<rparr>)))"
  by pat_completeness auto
termination
  by (relation "measure (\<lambda>(r, h). length (rbuf r) - rpos r)") (auto dest!: rd_advance)

declare sni_loop.simps [simp del] alpn_loop.simps [simp del]

definition absorb_extension :: "u16 \<Rightarrow> u8 list \<Rightarrow> client_hello \<Rightarrow> ja4_error + client_hello" where
  "absorb_extension ext_type data h =
     (if ext_type = EXT_SERVER_NAME then
        (if rd_is_empty (rd_new data) then Inr h
         else andthen (rd_block 2 (rd_new data)) (\<lambda>(lst, _). sni_loop (rd_new lst) h))
      else if ext_type = EXT_SIGNATURE_ALGORITHMS then
        andthen (rd_block 2 (rd_new data)) (\<lambda>(lst, _).
          andthen (u16_list lst) (\<lambda>vs. Inr (h\<lparr>ch_signature_algorithms := vs\<rparr>)))
      else if ext_type = EXT_SUPPORTED_GROUPS then
        andthen (rd_block 2 (rd_new data)) (\<lambda>(lst, _).
          andthen (u16_list lst) (\<lambda>vs. Inr (h\<lparr>ch_supported_groups := vs\<rparr>)))
      else if ext_type = EXT_ALPN then
        andthen (rd_block 2 (rd_new data)) (\<lambda>(lst, _). alpn_loop (rd_new lst) h)
      else if ext_type = EXT_SUPPORTED_VERSIONS then
        andthen (rd_block 1 (rd_new data)) (\<lambda>(lst, _).
          andthen (u16_list lst) (\<lambda>vs. Inr (h\<lparr>ch_supported_versions := vs\<rparr>)))
      else Inr h)"

function ext_loop :: "reader \<Rightarrow> client_hello \<Rightarrow> ja4_error + client_hello" where
  "ext_loop r h =
     (if rd_is_empty r then Inr h
      else andthen (rd_u16 r) (\<lambda>(ext_type, r1).
        andthen (rd_block 2 r1) (\<lambda>(ext_data, r2).
          andthen (absorb_extension ext_type ext_data
                     (h\<lparr>ch_extensions := ch_extensions h @ [ext_type]\<rparr>)) (\<lambda>h'.
            ext_loop r2 h'))))"
  by pat_completeness auto
termination
  by (relation "measure (\<lambda>(r, h). length (rbuf r) - rpos r)") (auto dest!: rd_advance)

declare ext_loop.simps [simp del]

text \<open>A full TLS record or a bare handshake message: the slice that holds the handshake.\<close>

definition handshake_slice :: "u8 list \<Rightarrow> ja4_error + u8 list" where
  "handshake_slice bytes =
     (case bytes of
        [] \<Rightarrow> Inl Truncated
      | b # _ \<Rightarrow>
          if b = CONTENT_TYPE_HANDSHAKE then
            andthen (rd_u8 (rd_new bytes)) (\<lambda>(_, r1).
              andthen (rd_u16 r1) (\<lambda>(_, r2).
                andthen (rd_block 2 r2) (\<lambda>(body, _). Inr body)))
          else if b = HANDSHAKE_TYPE_CLIENT_HELLO then Inr bytes
          else Inl (NotClientHello b))"

definition parse_hello_body :: "reader \<Rightarrow> ja4_error + client_hello" where
  "parse_hello_body r =
     andthen (rd_u16 r) (\<lambda>(version, r1).
     andthen (rd_take CLIENT_HELLO_RANDOM_LEN r1) (\<lambda>(_, r2).
     andthen (rd_block 1 r2) (\<lambda>(_, r3).
     andthen (rd_block 2 r3) (\<lambda>(suites, r4).
     andthen (u16_list suites) (\<lambda>cs.
     andthen (rd_block 1 r4) (\<lambda>(_, r5).
       (let h = hello_default\<lparr>ch_legacy_version := version, ch_cipher_suites := cs\<rparr> in
        if rd_is_empty r5 then Inr h
        else andthen (rd_block 2 r5) (\<lambda>(exts, _). ext_loop (rd_new exts) h))))))))"

definition parse_client_hello :: "u8 list \<Rightarrow> ja4_error + client_hello" where
  "parse_client_hello bytes =
     andthen (handshake_slice bytes) (\<lambda>body.
       andthen (rd_u8 (rd_new body)) (\<lambda>(handshake_type, r1).
         if handshake_type \<noteq> HANDSHAKE_TYPE_CLIENT_HELLO then Inl (NotClientHello handshake_type)
         else andthen (rd_u24 r1) (\<lambda>(handshake_len, r2).
           andthen (rd_take (unat handshake_len) r2) (\<lambda>(msg, _).
             parse_hello_body (rd_new msg)))))"

section \<open>A reference encoder\<close>

text \<open>
  What a peer writes, field by field, as a specification of the wire format: the parser is proved
  against these functions, which model no code of the crate.
\<close>

definition be16 :: "u16 \<Rightarrow> u8 list" where
  "be16 v = [of_nat (unat v div 256), of_nat (unat v mod 256)]"

definition block8 :: "u8 list \<Rightarrow> u8 list" where
  "block8 xs = of_nat (length xs) # xs"

definition block16 :: "u8 list \<Rightarrow> u8 list" where
  "block16 xs = [of_nat (length xs div 256), of_nat (length xs mod 256)] @ xs"

definition block24 :: "u8 list \<Rightarrow> u8 list" where
  "block24 xs = [of_nat (length xs div 65536), of_nat (length xs div 256 mod 256),
                 of_nat (length xs mod 256)] @ xs"

definition enc_ext :: "u16 \<times> u8 list \<Rightarrow> u8 list" where
  "enc_ext x = be16 (fst x) @ block16 (snd x)"

record hello_msg =
  msg_version :: u16
  msg_random :: "u8 list"
  msg_session :: "u8 list"
  msg_ciphers :: "u16 list"
  msg_compression :: "u8 list"
  msg_exts :: "(u16 \<times> u8 list) list"

definition enc_body :: "hello_msg \<Rightarrow> u8 list" where
  "enc_body m = be16 (msg_version m) @ msg_random m @ block8 (msg_session m)
     @ block16 (concat (map be16 (msg_ciphers m))) @ block8 (msg_compression m)
     @ block16 (concat (map enc_ext (msg_exts m)))"

definition enc_handshake :: "hello_msg \<Rightarrow> u8 list" where
  "enc_handshake m = HANDSHAKE_TYPE_CLIENT_HELLO # block24 (enc_body m)"

definition enc_record :: "hello_msg \<Rightarrow> u8 list" where
  "enc_record m = [CONTENT_TYPE_HANDSHAKE, 3, 1] @ block16 (enc_handshake m)"

definition wf_msg :: "hello_msg \<Rightarrow> bool" where
  "wf_msg m \<longleftrightarrow> length (msg_random m) = CLIENT_HELLO_RANDOM_LEN \<and>
     length (msg_session m) < 256 \<and> length (msg_ciphers m) < 32768 \<and>
     length (msg_compression m) < 256 \<and>
     length (concat (map enc_ext (msg_exts m))) < 65536 \<and>
     length (enc_handshake m) < 65536"

fun absorb_all :: "(u16 \<times> u8 list) list \<Rightarrow> client_hello \<Rightarrow> ja4_error + client_hello" where
  "absorb_all [] h = Inr h"
| "absorb_all ((t, d) # xs) h =
     andthen (absorb_extension t d (h\<lparr>ch_extensions := ch_extensions h @ [t]\<rparr>)) (absorb_all xs)"

definition hello_of_msg :: "hello_msg \<Rightarrow> ja4_error + client_hello" where
  "hello_of_msg m = absorb_all (msg_exts m)
     (hello_default\<lparr>ch_legacy_version := msg_version m, ch_cipher_suites := msg_ciphers m\<rparr>)"

section \<open>Reading what was written\<close>

text \<open>
  A cursor is good when its position is inside a buffer that fits in memory; what is left to read
  is \<open>rest\<close>. Each reader operation, on a good cursor, returns what the encoder wrote.
\<close>

definition good :: "reader \<Rightarrow> bool" where
  "good r \<longleftrightarrow> rpos r \<le> length (rbuf r) \<and> length (rbuf r) < 2 ^ 64"

definition rest :: "reader \<Rightarrow> u8 list" where
  "rest r = drop (rpos r) (rbuf r)"

lemma good_new: "length b < 2 ^ 64 \<Longrightarrow> good (rd_new b)"
  and rest_new [simp]: "rest (rd_new b) = b"
  by (simp_all add: good_def rest_def rd_new_def)

lemma rd_is_empty_rest: "rd_is_empty r \<longleftrightarrow> rest r = []"
  by (auto simp: rd_is_empty_def rest_def)

lemma rd_take_ok:
  assumes "good r" and "rest r = xs @ ys" and "n = length xs"
  shows "\<exists>r'. rd_take n r = Inr (xs, r') \<and> good r' \<and> rest r' = ys"
proof -
  have len: "rpos r + length xs \<le> length (rbuf r)"
    using assms(1,2) by (metis good_def rest_def le_add_diff_inverse length_append length_drop
        nat_add_left_cancel_le le_add1)
  moreover have "drop (rpos r + length xs) (rbuf r) = ys"
    using assms(2) by (metis add.commute append_eq_conv_conj drop_drop rest_def)
  moreover have "take (length xs) (drop (rpos r) (rbuf r)) = xs"
    using assms(2) by (simp add: rest_def)
  ultimately show ?thesis
    using assms(1,3) by (auto simp: rd_take_def Let_def good_def rest_def)
qed

lemma rd_take_short_rest:
  assumes "length (rest r) < n"
  shows "rd_take n r = Inl Truncated"
  using assms by (intro rd_take_short) (auto simp: rest_def)

lemma rd_u8_ok:
  assumes "good r" and "rest r = x # ys"
  shows "\<exists>r'. rd_u8 r = Inr (x, r') \<and> good r' \<and> rest r' = ys"
  using rd_take_ok [of r "[x]" ys 1] assms by (auto simp: rd_u8_def)

lemma rd_u16_ok:
  assumes "good r" and "rest r = a # b # ys"
  shows "\<exists>r'. rd_u16 r = Inr (u16_from_be a b, r') \<and> good r' \<and> rest r' = ys"
  using rd_take_ok [of r "[a, b]" ys 2] assms by (auto simp: rd_u16_def)

lemma rd_u24_ok:
  assumes "good r" and "rest r = a # b # c # ys"
  shows "\<exists>r'. rd_u24 r = Inr (u32_from_be 0 a b c, r') \<and> good r' \<and> rest r' = ys"
  using rd_take_ok [of r "[a, b, c]" ys 3] assms by (auto simp: rd_u24_def numeral_2_eq_2)

lemma u16_from_be_of_nat:
  "n < 65536 \<Longrightarrow> u16_from_be (of_nat (n div 256)) (of_nat (n mod 256)) = of_nat n"
  by (simp add: u16_from_be_def unat_of_nat div_mult_mod_eq)

lemma unat_u16_of_nat: "n < 65536 \<Longrightarrow> unat (of_nat n :: u16) = n"
  by (simp add: unat_of_nat)

lemma unat_u16_less: "unat (v :: u16) < 65536"
proof -
  have "unat v < 2 ^ LENGTH(16)" by (rule unsigned_less)
  then show ?thesis by simp
qed

lemma u16_from_be_be16: "u16_from_be (of_nat (unat v div 256)) (of_nat (unat v mod 256)) = v"
  using unat_u16_less [of v] by (simp add: u16_from_be_of_nat)

lemma rd_block8_ok:
  assumes "good r" and "rest r = block8 xs @ ys" and "length xs < 256"
  shows "\<exists>r'. rd_block 1 r = Inr (xs, r') \<and> good r' \<and> rest r' = ys"
proof -
  obtain r1 where r1: "rd_u8 r = Inr (of_nat (length xs), r1)" "good r1" "rest r1 = xs @ ys"
    using rd_u8_ok [of r "of_nat (length xs)" "xs @ ys"] assms by (auto simp: block8_def)
  have "unat (of_nat (length xs) :: u8) = length xs"
    using assms(3) by (simp add: unat_of_nat)
  with r1 rd_take_ok [of r1 xs ys] show ?thesis by (auto simp: rd_block_def)
qed

lemma rd_block16_ok:
  assumes "good r" and "rest r = block16 xs @ ys" and "length xs < 65536"
  shows "\<exists>r'. rd_block 2 r = Inr (xs, r') \<and> good r' \<and> rest r' = ys"
proof -
  obtain r1 where r1: "rd_u16 r = Inr (of_nat (length xs), r1)" "good r1" "rest r1 = xs @ ys"
    using rd_u16_ok [of r _ _ "xs @ ys"] assms
    by (fastforce simp: block16_def u16_from_be_of_nat)
  with assms(3) rd_take_ok [of r1 xs ys] show ?thesis
    by (auto simp: rd_block_def unat_u16_of_nat)
qed

lemma u16_list_concat: "u16_list (concat (map be16 vs)) = Inr vs"
  by (induction vs) (auto simp: be16_def u16_from_be_be16)

lemma u16_list_even: "u16_list bs = Inr vs \<Longrightarrow> length bs = 2 * length vs"
  by (induction bs arbitrary: vs rule: u16_list.induct) (auto simp: andthen_Inr)

lemma u16_list_odd: "odd (length bs) \<Longrightarrow> u16_list bs = Inl (Malformed ''odd-length u16 list'')"
  by (induction bs rule: u16_list.induct) auto

lemma length_be16 [simp]: "length (be16 v) = 2"
  by (simp add: be16_def)

lemma length_concat_be16 [simp]: "length (concat (map be16 vs)) = 2 * length vs"
  by (induction vs) auto

lemma length_blocks [simp]:
  "length (block8 xs) = Suc (length xs)" "length (block16 xs) = length xs + 2"
  "length (block24 xs) = length xs + 3"
  by (simp_all add: block8_def block16_def block24_def)

lemma ext_loop_ok:
  assumes "good r" and "rest r = concat (map enc_ext exts)"
    and "\<forall>x \<in> set exts. length (snd x) < 65536"
  shows "ext_loop r h = absorb_all exts h"
  using assms
proof (induction exts arbitrary: r h)
  case Nil
  then show ?case by (simp add: ext_loop.simps rd_is_empty_rest)
next
  case (Cons x exts)
  obtain t d where x: "x = (t, d)" by (cases x)
  let ?tl = "concat (map enc_ext exts)"
  have rr: "rest r = be16 t @ block16 d @ ?tl" using Cons.prems x by (simp add: enc_ext_def [of "(t, d)"])
  obtain r1 where r1: "rd_u16 r = Inr (t, r1)" "good r1" "rest r1 = block16 d @ ?tl"
    using rd_u16_ok [of r _ _ "block16 d @ ?tl"] Cons.prems(1) rr
    by (fastforce simp: be16_def u16_from_be_be16)
  obtain r2 where r2: "rd_block 2 r1 = Inr (d, r2)" "good r2" "rest r2 = ?tl"
    using rd_block16_ok [OF r1(2,3)] Cons.prems(3) x by auto
  have "\<not> rd_is_empty r" using rr by (simp add: rd_is_empty_rest be16_def)
  moreover have "ext_loop r2 = absorb_all exts"
    using Cons.IH r2 Cons.prems(3) by (intro ext) simp
  ultimately show ?case
    using r1 r2 x by (simp add: ext_loop.simps [of r])
qed

lemma enc_ext_lengths:
  "x \<in> set exts \<Longrightarrow> length (snd x) < length (concat (map enc_ext exts))"
proof (induction exts)
  case (Cons y ys)
  then show ?case by (auto simp: enc_ext_def)
qed simp

lemma parse_hello_body_ok:
  assumes wf: "wf_msg m"
  shows "parse_hello_body (rd_new (enc_body m)) = hello_of_msg m"
proof -
  let ?ex = "concat (map enc_ext (msg_exts m))" and ?cs = "concat (map be16 (msg_ciphers m))"
  have small: "length (enc_body m) < 2 ^ 64"
    using wf by (simp add: wf_msg_def enc_handshake_def)
  obtain r1 where r1: "rd_u16 (rd_new (enc_body m)) = Inr (msg_version m, r1)" "good r1"
      "rest r1 = msg_random m @ block8 (msg_session m) @ block16 ?cs
         @ block8 (msg_compression m) @ block16 ?ex"
    using rd_u16_ok [OF good_new [OF small]] by (fastforce simp: enc_body_def be16_def u16_from_be_be16)
  obtain r2 where r2: "rd_take CLIENT_HELLO_RANDOM_LEN r1 = Inr (msg_random m, r2)" "good r2"
      "rest r2 = block8 (msg_session m) @ block16 ?cs @ block8 (msg_compression m) @ block16 ?ex"
    using rd_take_ok [OF r1(2,3)] wf by (auto simp: wf_msg_def)
  obtain r3 where r3: "rd_block 1 r2 = Inr (msg_session m, r3)" "good r3"
      "rest r3 = block16 ?cs @ block8 (msg_compression m) @ block16 ?ex"
    using rd_block8_ok [OF r2(2,3)] wf by (auto simp: wf_msg_def)
  obtain r4 where r4: "rd_block 2 r3 = Inr (?cs, r4)" "good r4"
      "rest r4 = block8 (msg_compression m) @ block16 ?ex"
    using rd_block16_ok [OF r3(2,3)] wf by (auto simp: wf_msg_def)
  obtain r5 where r5: "rd_block 1 r4 = Inr (msg_compression m, r5)" "good r5"
      "rest r5 = block16 ?ex"
    using rd_block8_ok [OF r4(2,3)] wf by (auto simp: wf_msg_def)
  obtain r6 where r6: "rd_block 2 r5 = Inr (?ex, r6)"
    using rd_block16_ok [of r5 ?ex "[]"] r5 wf by (auto simp: wf_msg_def)
  have ex: "ext_loop (rd_new ?ex) h = absorb_all (msg_exts m) h" for h
    using wf by (intro ext_loop_ok good_new) (auto simp: wf_msg_def dest: enc_ext_lengths)
  have "\<not> rd_is_empty r5" using r5 by (simp add: rd_is_empty_rest block16_def)
  then show ?thesis
    by (simp add: parse_hello_body_def r1 r2 r3 r4 r5 r6 ex u16_list_concat hello_of_msg_def
        del: One_nat_def)
qed

lemma unat_u24:
  "n < 65536 \<Longrightarrow> unat (u32_from_be 0 (of_nat (n div 65536)) (of_nat (n div 256 mod 256))
     (of_nat (n mod 256))) = n"
proof -
  assume n: "n < 65536"
  then have "n div 65536 = 0" and "n div 256 < 256" by simp_all
  moreover have "n div 256 * 256 + n mod 256 = n" by simp
  ultimately show ?thesis
    using n by (simp add: u32_from_be_def unat_of_nat)
qed

lemma handshake_header_ok:
  assumes "wf_msg m"
  obtains r1 r2 r3 v where
      "rd_u8 (rd_new (enc_handshake m)) = Inr (HANDSHAKE_TYPE_CLIENT_HELLO, r1)"
    and "rd_u24 r1 = Inr (v, r2)" and "unat v = length (enc_body m)"
    and "rd_take (length (enc_body m)) r2 = Inr (enc_body m, r3)"
proof -
  have g: "good (rd_new (enc_handshake m))"
    using assms by (intro good_new) (simp add: wf_msg_def)
  have len: "length (enc_body m) < 65536"
    using assms by (simp add: wf_msg_def enc_handshake_def)
  obtain r1 where r1: "rd_u8 (rd_new (enc_handshake m)) = Inr (HANDSHAKE_TYPE_CLIENT_HELLO, r1)"
      "good r1" "rest r1 = block24 (enc_body m)"
    using rd_u8_ok [OF g] by (auto simp: enc_handshake_def)
  obtain v r2 where r2: "rd_u24 r1 = Inr (v, r2)" "unat v = length (enc_body m)"
      "good r2" "rest r2 = enc_body m"
    using rd_u24_ok [OF r1(2) r1(3) [unfolded block24_def append_Cons append_Nil]]
      unat_u24 [OF len] by blast
  obtain r3 where "rd_take (length (enc_body m)) r2 = Inr (enc_body m, r3)"
    using rd_take_ok [of r2 "enc_body m" "[]"] r2 by auto
  with r1 r2 that show ?thesis by blast
qed

lemma length_enc_handshake [simp]: "length (enc_handshake m) = length (enc_body m) + 4"
  by (simp add: enc_handshake_def)

lemma parse_after_slice:
  assumes "wf_msg m" and "handshake_slice bytes = Inr (enc_handshake m)"
  shows "parse_client_hello bytes = hello_of_msg m"
proof -
  obtain r1 r2 r3 v where
    "rd_u8 (rd_new (enc_handshake m)) = Inr (HANDSHAKE_TYPE_CLIENT_HELLO, r1)"
    "rd_u24 r1 = Inr (v, r2)" "unat v = length (enc_body m)"
    "rd_take (length (enc_body m)) r2 = Inr (enc_body m, r3)"
    using handshake_header_ok [OF assms(1)] .
  then show ?thesis
    by (simp add: parse_client_hello_def assms(2) parse_hello_body_ok [OF assms(1)])
qed

lemma slice_record:
  assumes "wf_msg m"
  shows "handshake_slice (enc_record m) = Inr (enc_handshake m)"
proof -
  let ?hs = "enc_handshake m"
  have g: "good (rd_new (enc_record m))"
    using assms by (intro good_new) (simp add: enc_record_def wf_msg_def)
  obtain r1 where r1: "rd_u8 (rd_new (enc_record m)) = Inr (CONTENT_TYPE_HANDSHAKE, r1)"
      "good r1" "rest r1 = 3 # 1 # block16 ?hs"
    using rd_u8_ok [OF g] by (auto simp: enc_record_def)
  obtain v r2 where r2: "rd_u16 r1 = Inr (v, r2)" "good r2" "rest r2 = block16 ?hs"
    using rd_u16_ok [OF r1(2,3)] by auto
  obtain r3 where "rd_block 2 r2 = Inr (?hs, r3)"
    using rd_block16_ok [of r2 ?hs "[]"] r2 assms by (auto simp: wf_msg_def)
  then show ?thesis
    using r1 r2 by (simp add: handshake_slice_def enc_record_def)
qed

lemma slice_handshake: "handshake_slice (enc_handshake m) = Inr (enc_handshake m)"
  by (simp add: handshake_slice_def enc_handshake_def wire_consts)

section \<open>Truncated input\<close>

lemma take_slice_handshake:
  "0 < n \<Longrightarrow> handshake_slice (take n (enc_handshake m)) = Inr (take n (enc_handshake m))"
  by (cases n) (simp_all add: handshake_slice_def enc_handshake_def wire_consts)

lemma rd_u8_short: "rest r = [] \<Longrightarrow> rd_u8 r = Inl Truncated"
  by (simp add: rd_u8_def rd_take_short_rest)

lemma rd_u16_short: "length (rest r) < 2 \<Longrightarrow> rd_u16 r = Inl Truncated"
  by (simp add: rd_u16_def rd_take_short_rest)

lemma rd_u24_short: "length (rest r) < 3 \<Longrightarrow> rd_u24 r = Inl Truncated"
  by (simp add: rd_u24_def rd_take_short_rest)

lemmas rd_short = rd_u8_short rd_u16_short rd_u24_short rd_take_short_rest

lemma parse_handshake_prefix:
  assumes wf: "wf_msg m" and n: "n < length (enc_handshake m)"
  shows "parse_client_hello (take n (enc_handshake m)) = Inl Truncated"
proof (cases n)
  case 0
  then show ?thesis by (simp add: parse_client_hello_def handshake_slice_def)
next
  case (Suc k)
  let ?b = "take n (enc_handshake m)"
  have len: "length (enc_body m) < 65536"
    using wf by (simp add: wf_msg_def)
  have slice: "handshake_slice ?b = Inr ?b"
    using Suc by (simp add: take_slice_handshake)
  have g: "good (rd_new ?b)"
    using wf by (intro good_new) (simp add: wf_msg_def min_less_iff_disj)
  obtain r1 where r1: "rd_u8 (rd_new ?b) = Inr (HANDSHAKE_TYPE_CLIENT_HELLO, r1)" "good r1"
      "rest r1 = take k (block24 (enc_body m))"
    using rd_u8_ok [OF g] Suc by (auto simp: enc_handshake_def)
  show ?thesis
  proof (cases "k < 3")
    case True
    then have "rd_u24 r1 = Inl Truncated" using r1 by (intro rd_u24_short) simp
    then show ?thesis by (simp add: parse_client_hello_def slice r1)
  next
    case False
    then obtain j where j: "k = Suc (Suc (Suc j))" using ge3_Suc by blast
    obtain v r2 where r2: "rd_u24 r1 = Inr (v, r2)" "unat v = length (enc_body m)"
        "rest r2 = take j (enc_body m)"
      using rd_u24_ok [OF r1(2) r1(3) [unfolded j block24_def append_Cons append_Nil take_Suc_Cons]]
        unat_u24 [OF len] by blast
    have "rd_take (unat v) r2 = Inl Truncated"
      using r2 n Suc j by (intro rd_take_short_rest) simp
    then show ?thesis by (simp add: parse_client_hello_def slice r1 r2)
  qed
qed

lemma slice_record_prefix:
  assumes wf: "wf_msg m" and n: "n < length (enc_record m)"
  shows "handshake_slice (take n (enc_record m)) = Inl Truncated"
proof (cases n)
  case 0
  then show ?thesis by (simp add: handshake_slice_def)
next
  case (Suc k)
  let ?b = "take n (enc_record m)" and ?hs = "enc_handshake m"
  have g: "good (rd_new ?b)"
    using wf by (intro good_new) (simp add: wf_msg_def enc_record_def min_less_iff_disj)
  obtain r1 where r1: "rd_u8 (rd_new ?b) = Inr (CONTENT_TYPE_HANDSHAKE, r1)" "good r1"
      "rest r1 = take k ([3, 1] @ block16 ?hs)"
    using rd_u8_ok [OF g] Suc by (auto simp: enc_record_def)
  have cons: "?b = CONTENT_TYPE_HANDSHAKE # take k ([3, 1] @ block16 ?hs)"
    using Suc by (simp add: enc_record_def)
  show ?thesis
  proof (cases "k < 2")
    case True
    then have "rd_u16 r1 = Inl Truncated" using r1 by (intro rd_u16_short) simp
    then show ?thesis using r1 by (simp add: handshake_slice_def cons)
  next
    case False
    then obtain j where j: "k = Suc (Suc j)" using ge2_Suc by blast
    obtain v r2 where r2: "rd_u16 r1 = Inr (v, r2)" "good r2" "rest r2 = take j (block16 ?hs)"
      using rd_u16_ok [OF r1(2) r1(3) [unfolded j append_Cons append_Nil take_Suc_Cons]] by blast
    have "rd_block 2 r2 = Inl Truncated"
    proof (cases "j < 2")
      case True
      then have "rd_u16 r2 = Inl Truncated" using r2 by (intro rd_u16_short) simp
      then show ?thesis by (simp add: rd_block_def)
    next
      case False
      then obtain i where i: "j = Suc (Suc i)" using ge2_Suc by blast
      obtain r3 where r3: "rd_u16 r2 = Inr (of_nat (length ?hs), r3)" "rest r3 = take i ?hs"
        using rd_u16_ok [OF r2(2) r2(3) [unfolded i block16_def append_Cons append_Nil take_Suc_Cons]]
          wf u16_from_be_of_nat [of "length ?hs"] by (auto simp: wf_msg_def)
      have "rd_take (length ?hs) r3 = Inl Truncated"
        using r3 n Suc j i by (intro rd_take_short_rest) (simp add: enc_record_def)
      moreover have "unat (of_nat (length ?hs) :: u16) = length ?hs"
        using wf by (intro unat_u16_of_nat) (simp add: wf_msg_def)
      ultimately show ?thesis using r3 by (simp add: rd_block_def)
    qed
    then show ?thesis using r1 r2 by (simp add: handshake_slice_def cons)
  qed
qed

section \<open>Extension payloads\<close>

lemma payload16:
  assumes "length xs < 65536"
  shows "\<exists>r'. rd_block 2 (rd_new (block16 xs)) = Inr (xs, r')"
  using rd_block16_ok [of "rd_new (block16 xs)" xs "[]"] assms
  by (auto simp: good_def rd_new_def rest_def)

lemma payload8:
  assumes "length xs < 256"
  shows "\<exists>r'. rd_block 1 (rd_new (block8 xs)) = Inr (xs, r')"
  using rd_block8_ok [of "rd_new (block8 xs)" xs "[]"] assms
  by (auto simp: good_def rd_new_def rest_def)

lemma absorb_signature_algorithms:
  assumes "length vs < 32768"
  shows "absorb_extension EXT_SIGNATURE_ALGORITHMS (block16 (concat (map be16 vs))) h
           = Inr (h\<lparr>ch_signature_algorithms := vs\<rparr>)"
  using payload16 [of "concat (map be16 vs)"] assms
  by (auto simp: absorb_extension_def ext_ids u16_list_concat)

lemma absorb_supported_groups:
  assumes "length vs < 32768"
  shows "absorb_extension EXT_SUPPORTED_GROUPS (block16 (concat (map be16 vs))) h
           = Inr (h\<lparr>ch_supported_groups := vs\<rparr>)"
  using payload16 [of "concat (map be16 vs)"] assms
  by (auto simp: absorb_extension_def ext_ids u16_list_concat)

lemma absorb_supported_versions:
  assumes "length vs < 128"
  shows "absorb_extension EXT_SUPPORTED_VERSIONS (block8 (concat (map be16 vs))) h
           = Inr (h\<lparr>ch_supported_versions := vs\<rparr>)"
  using payload8 [of "concat (map be16 vs)"] assms
  by (auto simp: absorb_extension_def ext_ids u16_list_concat simp del: One_nat_def)

lemma alpn_loop_ok:
  assumes "good r" and "rest r = concat (map block8 ps)" and "\<forall>p \<in> set ps. length p < 256"
  shows "alpn_loop r h = Inr (h\<lparr>ch_alpn := ch_alpn h @ map from_utf8_lossy ps\<rparr>)"
  using assms
proof (induction ps arbitrary: r h)
  case Nil
  then show ?case by (simp add: alpn_loop.simps rd_is_empty_rest)
next
  case (Cons p ps)
  then obtain r1 where r1: "rd_block 1 r = Inr (p, r1)" "good r1" "rest r1 = concat (map block8 ps)"
    using rd_block8_ok [of r p "concat (map block8 ps)"] by auto
  have "\<not> rd_is_empty r" using Cons.prems by (simp add: rd_is_empty_rest block8_def)
  then show ?case
    using Cons.IH [OF r1(2,3)] r1 Cons.prems(3)
    by (simp add: alpn_loop.simps [of r] del: One_nat_def)
qed

lemma absorb_alpn:
  assumes "length (concat (map block8 ps)) < 65536" and "\<forall>p \<in> set ps. length p < 256"
  shows "absorb_extension EXT_ALPN (block16 (concat (map block8 ps))) h
           = Inr (h\<lparr>ch_alpn := ch_alpn h @ map from_utf8_lossy ps\<rparr>)"
  using payload16 [OF assms(1)] assms
  by (auto simp: absorb_extension_def ext_ids alpn_loop_ok good_new)

definition enc_name :: "u8 \<times> u8 list \<Rightarrow> u8 list" where
  "enc_name x = fst x # block16 (snd x)"

lemma sni_loop_ok:
  assumes "good r" and "rest r = concat (map enc_name ns)"
    and "\<forall>x \<in> set ns. length (snd x) < 65536"
  shows "sni_loop r h = Inr (case find (\<lambda>x. fst x = 0) ns of None \<Rightarrow> h
           | Some x \<Rightarrow> h\<lparr>ch_server_name := Some (from_utf8_lossy (snd x))\<rparr>)"
  using assms
proof (induction ns arbitrary: r)
  case Nil
  then show ?case by (simp add: sni_loop.simps rd_is_empty_rest)
next
  case (Cons x ns)
  obtain t d where x: "x = (t, d)" by (cases x)
  obtain r1 where r1: "rd_u8 r = Inr (t, r1)" "good r1" "rest r1 = block16 d @ concat (map enc_name ns)"
    using rd_u8_ok [of r t "block16 d @ concat (map enc_name ns)"] Cons.prems x
    by (auto simp: enc_name_def [of "(t, d)"])
  obtain r2 where r2: "rd_block 2 r1 = Inr (d, r2)" "good r2" "rest r2 = concat (map enc_name ns)"
    using rd_block16_ok [OF r1(2,3)] Cons.prems(3) x by auto
  have "\<not> rd_is_empty r" using Cons.prems by (simp add: rd_is_empty_rest enc_name_def)
  then show ?case
    using Cons.IH [OF r2(2,3)] r1 r2 Cons.prems(3) x by (simp add: sni_loop.simps [of r])
qed

lemma absorb_server_name:
  assumes "length (concat (map enc_name ns)) < 65536"
    and "\<forall>x \<in> set ns. length (snd x) < 65536"
  shows "absorb_extension EXT_SERVER_NAME (block16 (concat (map enc_name ns))) h
    = Inr (case find (\<lambda>x. fst x = 0) ns of None \<Rightarrow> h
           | Some x \<Rightarrow> h\<lparr>ch_server_name := Some (from_utf8_lossy (snd x))\<rparr>)"
proof -
  have "\<not> rd_is_empty (rd_new (block16 (concat (map enc_name ns))))"
    by (simp add: rd_is_empty_rest block16_def)
  then show ?thesis
    using payload16 [OF assms(1)] sni_loop_ok [of "rd_new (concat (map enc_name ns))" ns h] assms
    by (auto simp: absorb_extension_def ext_ids good_new)
qed

section \<open>Memory\<close>

lemma sni_loop_frame:
  "sni_loop r h = Inr h' \<Longrightarrow>
     ch_extensions h' = ch_extensions h \<and> ch_cipher_suites h' = ch_cipher_suites h"
proof (induction r h rule: sni_loop.induct)
  case (1 r h)
  then show ?case
    by (auto simp: sni_loop.simps [of r h] andthen_Inr split: if_splits)
qed

lemma alpn_loop_frame:
  "alpn_loop r h = Inr h' \<Longrightarrow>
     ch_extensions h' = ch_extensions h \<and> ch_cipher_suites h' = ch_cipher_suites h"
proof (induction r h rule: alpn_loop.induct)
  case (1 r h)
  then show ?case
    by (fastforce simp: alpn_loop.simps [of r h] andthen_Inr split: if_splits)
qed

lemma absorb_frame:
  "absorb_extension t d h = Inr h' \<Longrightarrow>
     ch_extensions h' = ch_extensions h \<and> ch_cipher_suites h' = ch_cipher_suites h"
  by (auto simp: absorb_extension_def andthen_Inr split: if_splits
      dest: sni_loop_frame alpn_loop_frame)

lemma ext_loop_frame:
  "ext_loop r h = Inr h' \<Longrightarrow> rpos r \<le> length (rbuf r) \<Longrightarrow>
     4 * length (ch_extensions h') \<le> 4 * length (ch_extensions h) + length (rest r) \<and>
     ch_cipher_suites h' = ch_cipher_suites h"
proof (induction r h rule: ext_loop.induct)
  case (1 r h)
  show ?case
  proof (cases "rd_is_empty r")
    case True
    with 1 show ?thesis by (simp add: ext_loop.simps [of r])
  next
    case False
    with "1.prems"(1) obtain t r1 d r2 h1 where
      r1: "rd_u16 r = Inr (t, r1)" and r2: "rd_block 2 r1 = Inr (d, r2)"
      and h1: "absorb_extension t d (h\<lparr>ch_extensions := ch_extensions h @ [t]\<rparr>) = Inr h1"
      and go: "ext_loop r2 h1 = Inr h'"
      by (auto simp: ext_loop.simps [of r] andthen_Inr)
    have pos: "rpos r2 = rpos r + 4 + length d" "rpos r2 \<le> length (rbuf r2)" "rbuf r2 = rbuf r"
      using rd_u16_Inr [OF r1] rd_block_Inr [OF r2] by auto
    have "4 * length (ch_extensions h') \<le> 4 * length (ch_extensions h1) + length (rest r2) \<and>
        ch_cipher_suites h' = ch_cipher_suites h1"
      using "1.IH" [OF False r1 refl r2 refl h1 go pos(2)] .
    then show ?thesis
      using absorb_frame [OF h1] pos by (auto simp: rest_def)
  qed
qed

lemma rd_block_le: "rd_block k r = Inr (bs, r') \<Longrightarrow> rpos r + k + length bs = rpos r' \<and> rpos r' \<le> length (rbuf r)"
  by (auto dest: rd_block_Inr)

lemma handshake_slice_le: "handshake_slice bytes = Inr body \<Longrightarrow> length body \<le> length bytes"
  by (auto simp: handshake_slice_def andthen_Inr rd_new_def dest!: rd_advance
      split: list.splits if_splits)

lemma parse_hello_body_memory:
  assumes "parse_hello_body r = Inr h" and "rpos r = 0"
  shows "4 * length (ch_extensions h) + 2 * length (ch_cipher_suites h) \<le> length (rbuf r)"
proof -
  obtain v r1 rn r2 s r3 cs r4 vs c r5 where
    r1: "rd_u16 r = Inr (v, r1)" and r2: "rd_take CLIENT_HELLO_RANDOM_LEN r1 = Inr (rn, r2)"
    and r3: "rd_block 1 r2 = Inr (s, r3)" and r4: "rd_block 2 r3 = Inr (cs, r4)"
    and vs: "u16_list cs = Inr vs" and r5: "rd_block 1 r4 = Inr (c, r5)"
    and last: "(let h = hello_default\<lparr>ch_legacy_version := v, ch_cipher_suites := vs\<rparr> in
        if rd_is_empty r5 then Inr h
        else andthen (rd_block 2 r5) (\<lambda>(exts, _). ext_loop (rd_new exts) h)) = Inr h"
    using assms(1) by (auto simp: parse_hello_body_def andthen_Inr)
  have p5: "length cs \<le> rpos r5" "rpos r5 \<le> length (rbuf r)" "rbuf r5 = rbuf r"
    using rd_u16_Inr [OF r1] rd_take_Inr [OF r2] rd_block_Inr [OF r3] rd_block_Inr [OF r4]
      rd_block_Inr [OF r5] by auto
  show ?thesis
  proof (cases "rd_is_empty r5")
    case True
    then show ?thesis using last p5 u16_list_even [OF vs] by (auto simp: Let_def hello_default_def)
  next
    case False
    then obtain ex r6 where r6: "rd_block 2 r5 = Inr (ex, r6)"
      and go: "ext_loop (rd_new ex) (hello_default\<lparr>ch_legacy_version := v, ch_cipher_suites := vs\<rparr>) = Inr h"
      using last by (auto simp: Let_def andthen_Inr)
    have "4 * length (ch_extensions h) \<le> length ex \<and> ch_cipher_suites h = vs"
      using ext_loop_frame [OF go] by (simp add: rd_new_def rest_def hello_default_def)
    then show ?thesis using rd_block_Inr [OF r6] p5 u16_list_even [OF vs] by auto
  qed
qed

section \<open>Properties\<close>

definition sample_msg :: hello_msg where
  "sample_msg = \<lparr>msg_version = 0x0303, msg_random = replicate 32 7, msg_session = [1, 2],
     msg_ciphers = [0x1301, 0x0a0a], msg_compression = [0], msg_exts = [(0x0017, [])]\<rparr>"

lemma sample_wf: "wf_msg sample_msg"
  by (simp add: wf_msg_def sample_msg_def wire_consts enc_body_def enc_ext_def)

text \<open>C11. Round trip with the wire format: for every well-formed message, parsing its TLS record or
  its bare handshake message gives the hello the message describes (its version, its cipher suites
  in wire order, and the effect of its extensions in wire order), or the error of the first
  extension payload that is malformed.\<close>

theorem parse_of_encoded:
  assumes "wf_msg m"
  shows "parse_client_hello (enc_record m) = hello_of_msg m \<and>
         parse_client_hello (enc_handshake m) = hello_of_msg m"
  using parse_after_slice [OF assms slice_record [OF assms]]
    parse_after_slice [OF assms slice_handshake] by simp

theorem parse_of_encoded_witness:
  "wf_msg sample_msg \<and> parse_client_hello (enc_record sample_msg)
     = Inr (hello_default\<lparr>ch_legacy_version := 0x0303, ch_cipher_suites := [0x1301, 0x0a0a],
              ch_extensions := [0x0017]\<rparr>)"
  using parse_of_encoded [OF sample_wf] sample_wf
  by (simp add: hello_of_msg_def sample_msg_def absorb_extension_def ext_ids hello_default_def)

text \<open>A truncated or fragmented hello is never parsed into a fingerprint: every strict prefix of
  a well-formed record, and every strict prefix of a well-formed handshake message, is reported as
  truncated.\<close>

theorem parse_truncated:
  assumes "wf_msg m"
  shows "(n < length (enc_record m) \<longrightarrow> parse_client_hello (take n (enc_record m)) = Inl Truncated) \<and>
         (n < length (enc_handshake m) \<longrightarrow>
            parse_client_hello (take n (enc_handshake m)) = Inl Truncated)"
  using slice_record_prefix [OF assms] parse_handshake_prefix [OF assms]
  by (simp add: parse_client_hello_def)

theorem parse_truncated_witness:
  "parse_client_hello (take 40 (enc_record sample_msg)) = Inl Truncated \<and>
   parse_client_hello (take 3 (enc_handshake sample_msg)) = Inl Truncated"
  using parse_truncated [OF sample_wf, of 40] parse_truncated [OF sample_wf, of 3]
  by (simp add: enc_record_def enc_body_def sample_msg_def)

text \<open>What a successful parse keeps is bounded by what was received: every recorded extension
  accounts for at least four input bytes and every recorded cipher suite for two, whatever lengths
  the peer declares.\<close>

theorem parse_memory_bound:
  assumes "parse_client_hello bytes = Inr h"
  shows "4 * length (ch_extensions h) + 2 * length (ch_cipher_suites h) \<le> length bytes"
proof -
  obtain body ty r1 hl r2 msg r3 where
    b: "handshake_slice bytes = Inr body" and r1: "rd_u8 (rd_new body) = Inr (ty, r1)"
    and r2: "rd_u24 r1 = Inr (hl, r2)" and r3: "rd_take (unat hl) r2 = Inr (msg, r3)"
    and h: "parse_hello_body (rd_new msg) = Inr h"
    using assms by (auto simp: parse_client_hello_def andthen_Inr split: if_splits)
  have "length msg \<le> length body"
    using rd_u8_Inr [OF r1] rd_u24_Inr [OF r2] rd_take_Inr [OF r3] by (auto simp: rd_new_def)
  then show ?thesis
    using parse_hello_body_memory [OF h] handshake_slice_le [OF b] by (simp add: rd_new_def)
qed

theorem parse_memory_bound_witness:
  "4 * length (ch_extensions (hello_default\<lparr>ch_legacy_version := 0x0303,
     ch_cipher_suites := [0x1301, 0x0a0a], ch_extensions := [0x0017]\<rparr>)) \<le> length (enc_record sample_msg)"
proof -
  have "parse_client_hello (enc_record sample_msg) = Inr (hello_default\<lparr>ch_legacy_version := 0x0303,
     ch_cipher_suites := [0x1301, 0x0a0a], ch_extensions := [0x0017]\<rparr>)"
    using parse_after_slice [OF sample_wf slice_record [OF sample_wf]]
    by (simp add: hello_of_msg_def sample_msg_def absorb_extension_def ext_ids hello_default_def)
  from parse_memory_bound [OF this] show ?thesis by simp
qed

end
