(* ===== verification/Ja4Fingerprint.thy ===== *)
theory Ja4Fingerprint
  imports Ja4Parse
begin

text \<open>
  Models \<open>src/src/ja4/fingerprint.rs\<close>: the JA4 summary of a parsed \<open>ClientHello\<close>. SHA-256 is the
  \<open>sha2\<close> crate's, so it is the parameter \<open>sha\<close>, a function from the hashed text to the digest
  bytes; nothing is assumed of it but, where a length is claimed, that a digest has 32 bytes.
\<close>

section \<open>Computation\<close>

definition HASH_TRUNCATE_LEN :: nat where "HASH_TRUNCATE_LEN = 12"
definition EMPTY_HASH :: string where "EMPTY_HASH = ''000000000000''"
definition MAX_TWO_DIGIT_COUNT :: nat where "MAX_TWO_DIGIT_COUNT = 99"

definition is_grease :: "u16 \<Rightarrow> bool" where
  "is_grease v =
     (let hi = (ucast (drop_bit 8 v) :: u8); lo = (ucast v :: u8) in
      hi = lo \<and> lo AND 0x0f = 0x0a)"

definition hex4 :: "u16 \<Rightarrow> string" where
  "hex4 v = (let n = unat v in
     [hex_digit (n div 4096), hex_digit (n div 256 mod 16), hex_digit (n div 16 mod 16),
      hex_digit (n mod 16)])"

definition hex2 :: "u8 \<Rightarrow> string" where
  "hex2 b = [hex_digit (unat b div 16), hex_digit (unat b mod 16)]"

definition truncated_hash :: "(string \<Rightarrow> u8 list) \<Rightarrow> string list \<Rightarrow> string" where
  "truncated_hash sha parts =
     (if parts = [] then EMPTY_HASH
      else concat (map hex2 (take (HASH_TRUNCATE_LEN div 2) (sha (join '','' parts)))))"

datatype transport = Tcp | Quic

fun transport_code :: "transport \<Rightarrow> char" where
  "transport_code Tcp = CHR ''t''"
| "transport_code Quic = CHR ''q''"

definition highest_version :: "client_hello \<Rightarrow> u16" where
  "highest_version h =
     (case filter (\<lambda>v. \<not> is_grease v) (ch_supported_versions h) of
        [] \<Rightarrow> ch_legacy_version h
      | v # vs \<Rightarrow> fold max vs v)"

definition version_code :: "client_hello \<Rightarrow> string" where
  "version_code h =
     (let v = highest_version h in
      if v = 0x0304 then ''13'' else if v = 0x0303 then ''12'' else if v = 0x0302 then ''11''
      else if v = 0x0301 then ''10'' else if v = 0x0300 then ''s3'' else if v = 0x0002 then ''s2''
      else ''00'')"

definition alpn_code :: "client_hello \<Rightarrow> string" where
  "alpn_code h =
     (case find (\<lambda>p. p \<noteq> []) (ch_alpn h) of
        None \<Rightarrow> ''00''
      | Some p \<Rightarrow>
          if is_alnum (hd p) \<and> is_alnum (last p) then [hd p, last p]
          else [hex_digit (byte (hd p) div 16), hex_digit (byte (last p) mod 16)])"

record ja4 =
  ja4_a :: string
  ja4_b :: string
  ja4_c :: string

definition two_digits :: "nat \<Rightarrow> string" where
  "two_digits n = (if n < 10 then CHR ''0'' # dec n else dec n)"

definition from_client_hello :: "(string \<Rightarrow> u8 list) \<Rightarrow> client_hello \<Rightarrow> transport \<Rightarrow> ja4" where
  "from_client_hello sha h t =
     (let ciphers = filter (\<lambda>c. \<not> is_grease c) (ch_cipher_suites h);
          extensions = filter (\<lambda>e. \<not> is_grease e) (ch_extensions h);
          sni_code = (if EXT_SERVER_NAME \<in> set (ch_extensions h) then CHR ''d'' else CHR ''i'');
          a = [transport_code t] @ version_code h @ [sni_code]
              @ two_digits (min (length ciphers) MAX_TWO_DIGIT_COUNT)
              @ two_digits (min (length extensions) MAX_TWO_DIGIT_COUNT) @ alpn_code h;
          b = truncated_hash sha (map hex4 (sort ciphers));
          sorted_extensions =
            sort (filter (\<lambda>e. e \<noteq> EXT_SERVER_NAME \<and> e \<noteq> EXT_ALPN) extensions);
          c_parts = map hex4 sorted_extensions;
          sig_algs = map hex4 (filter (\<lambda>s. \<not> is_grease s) (ch_signature_algorithms h));
          c = (if c_parts = [] \<and> sig_algs = [] then EMPTY_HASH
               else truncated_hash sha
                 [if sig_algs = [] then join '','' c_parts
                  else join '','' c_parts @ ''_'' @ join '','' sig_algs])
      in \<lparr>ja4_a = a, ja4_b = b, ja4_c = c\<rparr>)"

definition ja4_display :: "ja4 \<Rightarrow> string" where
  "ja4_display j = ja4_a j @ ''_'' @ ja4_b j @ ''_'' @ ja4_c j"

section \<open>GREASE\<close>

lemma is_grease_nat:
  "is_grease v \<longleftrightarrow> unat v div 256 = unat v mod 256 \<and> unat v mod 16 = 10"
proof -
  have hi: "unat (ucast (drop_bit 8 v) :: u8) = unat v div 256"
    using less_mult_imp_div_less [of "unat v" 256 256] unat_u16_less [of v]
    by (simp add: unsigned_ucast_eq take_bit_eq_mod unsigned_drop_bit_eq drop_bit_eq_div unat_div)
  have lo: "unat (ucast v :: u8) = unat v mod 256"
    by (simp add: unsigned_ucast_eq take_bit_eq_mod)
  have nib: "unat ((ucast v :: u8) AND 0x0f) = unat v mod 16"
  proof -
    have "(ucast v :: u8) AND 0x0f = take_bit 4 (ucast v)"
      by (simp add: take_bit_eq_mask mask_eq_exp_minus_1)
    then have "unat ((ucast v :: u8) AND 0x0f) = take_bit 4 (unat (ucast v :: u8))"
      by (simp add: unsigned_take_bit_eq)
    also have "\<dots> = unat v mod 16"
      by (simp add: lo take_bit_eq_mod mod_mod_cancel)
    finally show ?thesis .
  qed
  show ?thesis
    unfolding is_grease_def Let_def by (simp add: word_unat_eq_iff hi lo nib)
qed

lemma is_grease_iff: "is_grease v \<longleftrightarrow> (\<exists>k < 16. unat v = 0x0a0a + 0x1010 * k)"
proof
  assume "is_grease v"
  then have eq: "unat v div 256 = unat v mod 256" and nib: "unat v mod 16 = 10"
    by (simp_all add: is_grease_nat)
  let ?lo = "unat v mod 256"
  have "?lo mod 16 = 10" using nib by (simp add: mod_mod_cancel)
  then obtain k where lo: "?lo = k * 16 + 10" by (metis div_mult_mod_eq)
  have "unat v = unat v div 256 * 256 + ?lo" by simp
  also have "\<dots> = ?lo * 257" using eq by simp
  finally have "unat v = ?lo * 257" .
  moreover have "?lo < 256" by simp
  ultimately have "k < 16 \<and> unat v = 0x0a0a + 0x1010 * k" unfolding lo by simp
  then show "\<exists>k < 16. unat v = 0x0a0a + 0x1010 * k" by blast
next
  assume "\<exists>k < 16. unat v = 0x0a0a + 0x1010 * k"
  then obtain k where k: "k < 16" "unat v = 0x0a0a + 0x1010 * k" by blast
  define m where "m = 10 + 16 * k"
  have m: "m < 256" "m mod 16 = 10" using k by (simp_all add: m_def)
  have v: "unat v = m * 256 + m" using k by (simp add: m_def)
  have "unat v mod 256 = m"
    unfolding v using m(1) by (metis mod_mult_self3 mod_less)
  moreover have "unat v div 256 = m"
    unfolding v using m(1) div_mult_self3 [of 256 m m] by simp
  moreover have "unat v mod 16 = m mod 16"
    unfolding v using mod_mult_self3 [of "m * 16" 16 m] by (simp add: mult.assoc)
  ultimately show "is_grease v" using m by (simp add: is_grease_nat)
qed

lemma ext_not_grease [simp]: "\<not> is_grease EXT_SERVER_NAME" "\<not> is_grease EXT_ALPN"
  by (simp_all add: is_grease_nat ext_ids)

section \<open>Shape\<close>

lemma two_digits_length: "n \<le> 99 \<Longrightarrow> length (two_digits n) = 2"
proof -
  assume n: "n \<le> 99"
  show ?thesis
  proof (cases "n < 10")
    case True
    then show ?thesis by (simp add: two_digits_def dec.simps [of n])
  next
    case False
    then have "n div 10 < 10" using n by simp
    with False show ?thesis
      by (simp add: two_digits_def dec.simps [of n] dec.simps [of "n div 10"])
  qed
qed

lemma version_code_length: "length (version_code h) = 2"
  by (simp add: version_code_def Let_def)

lemma alpn_code_length: "length (alpn_code h) = 2"
  by (simp add: alpn_code_def split: option.splits)

lemma concat_hex2_length: "length (concat (map hex2 bs)) = 2 * length bs"
  by (induction bs) (auto simp: hex2_def)

lemma truncated_hash_length:
  assumes "\<And>s. length (sha s) = 32"
  shows "length (truncated_hash sha parts) = 12"
  by (simp add: truncated_hash_def EMPTY_HASH_def HASH_TRUNCATE_LEN_def concat_hex2_length assms)

section \<open>What the fingerprint depends on\<close>

lemma hex_digit_inj: "m < 16 \<Longrightarrow> n < 16 \<Longrightarrow> hex_digit m = hex_digit n \<Longrightarrow> m = n"
proof -
  assume *: "m < 16" "n < 16" "hex_digit m = hex_digit n"
  then have "byte (hex_digit m) = byte (hex_digit n)" by simp
  with * show "m = n" by (auto simp: hex_digit_def split: if_splits)
qed

lemma hex_digits_value:
  "(n::nat) = ((n div 4096 * 16 + n div 256 mod 16) * 16 + n div 16 mod 16) * 16 + n mod 16"
proof -
  have "n div 256 = n div 4096 * 16 + n div 256 mod 16"
    using div_mult_mod_eq [of "n div 256" 16] by (simp add: div_mult2_eq [symmetric])
  moreover have "n div 16 = n div 256 * 16 + n div 16 mod 16"
    using div_mult_mod_eq [of "n div 16" 16] by (simp add: div_mult2_eq [symmetric])
  moreover have "n = n div 16 * 16 + n mod 16" by simp
  ultimately show ?thesis by presburger
qed

lemma hex4_inj: "hex4 v = hex4 w \<Longrightarrow> v = w"
proof -
  assume eq: "hex4 v = hex4 w"
  let ?a = "unat v" and ?b = "unat w"
  have d: "?a div 4096 = ?b div 4096" "?a div 256 mod 16 = ?b div 256 mod 16"
    "?a div 16 mod 16 = ?b div 16 mod 16" "?a mod 16 = ?b mod 16"
    using eq unat_u16_less [of v] unat_u16_less [of w]
    by (auto simp: hex4_def Let_def intro!: hex_digit_inj)
  then have "?a = ?b" by (subst (1 2) hex_digits_value) simp
  then show "v = w" by (simp add: word_unat_eq_iff)
qed

lemma hex4_no_comma: "CHR '','' \<notin> set (hex4 v)"
proof -
  have "hex_digit n \<noteq> CHR '',''" if "n < 16" for n
  proof
    assume "hex_digit n = CHR '',''"
    then have "byte (hex_digit n) = byte (CHR '','')" by simp
    with that show False by (auto simp: hex_digit_def byte_def split: if_splits)
  qed
  from this [of "unat v div 4096"] this [of "unat v div 256 mod 16"]
    this [of "unat v div 16 mod 16"] this [of "unat v mod 16"] show ?thesis
    using unat_u16_less [of v] less_mult_imp_div_less [of "unat v" 16 4096]
    by (auto simp: hex4_def Let_def dest: sym)
qed

lemma join_hex4_inj:
  assumes "join '','' (map hex4 xs) = join '','' (map hex4 ys)" and "xs \<noteq> []" and "ys \<noteq> []"
  shows "xs = ys"
proof -
  have split: "split_char (CHR '','') (join '','' (map hex4 zs)) = map hex4 zs" if "zs \<noteq> []" for zs
    using that by (intro split_char_join) (auto simp: hex4_no_comma)
  have "map hex4 xs = map hex4 ys"
    by (metis assms split)
  then show "xs = ys" by (metis hex4_inj inj_map_eq_map injI)
qed

lemma fold_max_set:
  fixes v :: "'a::linorder"
  shows "fold max vs v = Max (set (v # vs))"
  by (simp add: Max.set_eq_fold del: set_simps)

lemma highest_version_set:
  assumes "set (filter (\<lambda>v. \<not> is_grease v) (ch_supported_versions h))
         = set (filter (\<lambda>v. \<not> is_grease v) (ch_supported_versions h'))"
    and "ch_legacy_version h = ch_legacy_version h'"
  shows "highest_version h = highest_version h'"
  using assms
  by (auto simp: highest_version_def fold_max_set simp del: set_filter split: list.splits)

text \<open>The parts of a hello the fingerprint may depend on, GREASE removed.\<close>

definition same_client :: "client_hello \<Rightarrow> client_hello \<Rightarrow> bool" where
  "same_client h h' \<longleftrightarrow>
     mset (filter (\<lambda>c. \<not> is_grease c) (ch_cipher_suites h))
       = mset (filter (\<lambda>c. \<not> is_grease c) (ch_cipher_suites h')) \<and>
     mset (filter (\<lambda>e. \<not> is_grease e) (ch_extensions h))
       = mset (filter (\<lambda>e. \<not> is_grease e) (ch_extensions h')) \<and>
     filter (\<lambda>s. \<not> is_grease s) (ch_signature_algorithms h)
       = filter (\<lambda>s. \<not> is_grease s) (ch_signature_algorithms h') \<and>
     set (filter (\<lambda>v. \<not> is_grease v) (ch_supported_versions h))
       = set (filter (\<lambda>v. \<not> is_grease v) (ch_supported_versions h')) \<and>
     ch_legacy_version h = ch_legacy_version h' \<and> ch_alpn h = ch_alpn h'"

lemma same_client_code [code]:
  "same_client h h' \<longleftrightarrow>
     sort (filter (\<lambda>c. \<not> is_grease c) (ch_cipher_suites h))
       = sort (filter (\<lambda>c. \<not> is_grease c) (ch_cipher_suites h')) \<and>
     sort (filter (\<lambda>e. \<not> is_grease e) (ch_extensions h))
       = sort (filter (\<lambda>e. \<not> is_grease e) (ch_extensions h')) \<and>
     filter (\<lambda>s. \<not> is_grease s) (ch_signature_algorithms h)
       = filter (\<lambda>s. \<not> is_grease s) (ch_signature_algorithms h') \<and>
     set (filter (\<lambda>v. \<not> is_grease v) (ch_supported_versions h))
       = set (filter (\<lambda>v. \<not> is_grease v) (ch_supported_versions h')) \<and>
     ch_legacy_version h = ch_legacy_version h' \<and> ch_alpn h = ch_alpn h'"
  unfolding same_client_def mset_eq_sort_iff ..

text \<open>C13. The JA4 fingerprint of a client depends only on the multiset of its cipher suites and of
  its extensions, on its signature algorithms in wire order, on the set of versions it supports, on
  its legacy version and on its ALPN list, GREASE values excluded everywhere: permuting ciphers or
  extensions, or adding and removing GREASE, leaves the fingerprint unchanged.\<close>

theorem ja4_stable:
  assumes "same_client h h'"
  shows "from_client_hello sha h t = from_client_hello sha h' t"
proof -
  let ?f = "filter (\<lambda>e. \<not> is_grease e)"
  have ms: "mset (?f (ch_cipher_suites h)) = mset (?f (ch_cipher_suites h'))"
      "mset (?f (ch_extensions h)) = mset (?f (ch_extensions h'))"
    using assms by (simp_all add: same_client_def)
  have "set (?f (ch_extensions h)) = set (?f (ch_extensions h'))"
    by (rule mset_eq_setD) (rule ms(2))
  then have "EXT_SERVER_NAME \<in> set (?f (ch_extensions h)) \<longleftrightarrow>
      EXT_SERVER_NAME \<in> set (?f (ch_extensions h'))" by simp
  then have sni: "EXT_SERVER_NAME \<in> set (ch_extensions h) \<longleftrightarrow> EXT_SERVER_NAME \<in> set (ch_extensions h')"
    by simp
  have "sort (filter p (?f (ch_extensions h))) = sort (filter p (?f (ch_extensions h')))" for p
    using ms(2) by (metis mset_filter sort_mset_eq)
  moreover have "sort (?f (ch_cipher_suites h)) = sort (?f (ch_cipher_suites h'))"
    by (rule sort_mset_eq) (rule ms(1))
  moreover have "version_code h = version_code h'"
    using assms highest_version_set [of h h'] unfolding same_client_def version_code_def by metis
  moreover have "alpn_code h = alpn_code h'"
    using assms by (simp add: same_client_def alpn_code_def)
  moreover have "?f (ch_signature_algorithms h) = ?f (ch_signature_algorithms h')"
    using assms unfolding same_client_def by blast
  moreover note mset_eq_length [OF ms(1)] mset_eq_length [OF ms(2)]
  ultimately show ?thesis
    unfolding from_client_hello_def Let_def sni by simp
qed

theorem ja4_stable_witness:
  "let h = hello_default\<lparr>ch_cipher_suites := [0x1301, 0x0a0a, 0x1302],
             ch_extensions := [0x1a1a, 0, 43]\<rparr>;
       h' = hello_default\<lparr>ch_cipher_suites := [0x1302, 0x1301], ch_extensions := [43, 0x2a2a, 0]\<rparr>
   in same_client h h' \<and>
      from_client_hello (\<lambda>s. []) h Tcp = from_client_hello (\<lambda>s. []) h' Tcp"
proof -
  let ?h = "hello_default\<lparr>ch_cipher_suites := [0x1301, 0x0a0a, 0x1302],
             ch_extensions := [0x1a1a, 0, 43]\<rparr>"
  let ?h' = "hello_default\<lparr>ch_cipher_suites := [0x1302, 0x1301], ch_extensions := [43, 0x2a2a, 0]\<rparr>"
  have "same_client ?h ?h'"
    by (simp add: same_client_def hello_default_def is_grease_nat)
  then show ?thesis using ja4_stable [of ?h ?h'] by simp
qed

lemma ja4_lengths:
  assumes "\<And>s. length (sha s) = 32"
  shows "length (ja4_a (from_client_hello sha h t)) = 10" "length (ja4_b (from_client_hello sha h t)) = 12"
    "length (ja4_c (from_client_hello sha h t)) = 12"
proof -
  have "length (two_digits (min n MAX_TWO_DIGIT_COUNT)) = 2" for n
    by (rule two_digits_length) (simp add: MAX_TWO_DIGIT_COUNT_def)
  then show "length (ja4_a (from_client_hello sha h t)) = 10" "length (ja4_b (from_client_hello sha h t)) = 12"
    "length (ja4_c (from_client_hello sha h t)) = 12"
    by (simp_all add: from_client_hello_def Let_def version_code_length alpn_code_length truncated_hash_length assms
        EMPTY_HASH_def)
qed

text \<open>The fingerprint has its documented shape for every hello: segment \<open>a\<close> has exactly ten
  characters, segments \<open>b\<close> and \<open>c\<close> have twelve each, and the printed fingerprint thirty-six, as
  long as the hash function returns 32-byte digests.\<close>

theorem ja4_shape:
  assumes "\<And>s. length (sha s) = 32"
  shows "length (ja4_a (from_client_hello sha h t)) = 10 \<and>
     length (ja4_b (from_client_hello sha h t)) = 12 \<and>
     length (ja4_c (from_client_hello sha h t)) = 12 \<and>
     length (ja4_display (from_client_hello sha h t)) = 36"
  using ja4_lengths[OF assms] by (simp add: ja4_display_def)

theorem ja4_shape_witness:
  "length (ja4_display (from_client_hello (\<lambda>s. replicate 32 7) hello_default Quic)) = 36"
  using ja4_shape [of "\<lambda>s. replicate 32 7" hello_default Quic] by simp

text \<open>What is hashed into segment \<open>b\<close> identifies the cipher list up to order: two hellos with
  non-empty cipher lists whose hashed texts agree offer the same multiset of ciphers. Only the hash
  itself can make two different clients collide.\<close>

theorem ja4_cipher_text_injective:
  assumes "join '','' (map hex4 (sort xs)) = join '','' (map hex4 (sort ys))"
    and "xs \<noteq> []" and "ys \<noteq> []"
  shows "mset xs = mset ys"
proof -
  have "sort xs = sort ys"
    using assms by (intro join_hex4_inj) (auto simp: set_empty [symmetric] simp del: set_empty)
  then show ?thesis by (metis mset_sort)
qed

theorem ja4_cipher_text_injective_witness:
  "mset [0x1301, 0x1302 :: u16] = mset [0x1302, 0x1301]"
  by (rule ja4_cipher_text_injective) (simp_all)

end
