(* ===== verification/TlsCapture.thy ===== *)
theory TlsCapture
  imports Ja4Fingerprint
begin

text \<open>
  Models \<open>src/src/tls_capture.rs\<close>: the accumulator \<open>Capture\<close>, the stream wrapper
  \<open>CapturingStream\<close> and the two observers. The wrapped stream is the environment: each poll of it
  is an argument, either pending, an error, or the bytes it produced. What the observer has been
  told is part of the state, so that one observation per tunnel is a statement about it.
\<close>

section \<open>The accumulator\<close>

definition RECORD_HEADER_LEN :: nat where "RECORD_HEADER_LEN = 5"
definition MAX_CAPTURE_BYTES :: nat where "MAX_CAPTURE_BYTES = 16 * 1024"

record capture =
  cap_buf :: "u8 list"
  cap_done :: bool

definition capture_default :: capture where
  "capture_default = \<lparr>cap_buf = [], cap_done = False\<rparr>"

definition record_total :: "u8 list \<Rightarrow> nat" where
  "record_total buf = unat (u16_from_be (buf ! 3) (buf ! 4)) + RECORD_HEADER_LEN"

definition capture_push :: "u8 list \<Rightarrow> capture \<Rightarrow> u8 list option \<times> capture" where
  "capture_push bytes c =
     (if cap_done c then (None, c)
      else
        (let buf = cap_buf c @ bytes; c' = c\<lparr>cap_buf := buf\<rparr> in
         if length buf < RECORD_HEADER_LEN then (None, c')
         else
           (let total = record_total buf in
            if total \<le> length buf \<or> MAX_CAPTURE_BYTES \<le> length buf
            then (Some (take (min total (length buf)) buf), c'\<lparr>cap_done := True\<rparr>)
            else (None, c'))))"

section \<open>The wrapped stream\<close>

datatype poll_read = Pending | ReadyErr | ReadyOk "u8 list"

record capturing =
  cs_host :: string
  cs_observer :: bool
  cs_capture :: capture
  cs_observed :: "(string \<times> u8 list) list"

definition capturing_new :: "string \<Rightarrow> bool \<Rightarrow> capturing" where
  "capturing_new host observer =
     \<lparr>cs_host = host, cs_observer = observer, cs_capture = capture_default, cs_observed = []\<rparr>"

definition capturing_poll_read :: "poll_read \<Rightarrow> capturing \<Rightarrow> poll_read \<times> capturing" where
  "capturing_poll_read inner s =
     (if \<not> cs_observer s then (inner, s)
      else (case inner of
              ReadyOk fresh \<Rightarrow>
                if fresh = [] then (inner, s)
                else (case capture_push fresh (cs_capture s) of
                        (None, c) \<Rightarrow> (inner, s\<lparr>cs_capture := c\<rparr>)
                      | (Some hello, c) \<Rightarrow>
                          (inner, s\<lparr>cs_capture := c,
                                    cs_observed := cs_observed s @ [(cs_host s, hello)]\<rparr>))
            | _ \<Rightarrow> (inner, s)))"

fun capturing_run :: "poll_read list \<Rightarrow> capturing \<Rightarrow> capturing" where
  "capturing_run [] s = s"
| "capturing_run (p # ps) s = capturing_run ps (snd (capturing_poll_read p s))"

section \<open>Observers\<close>

datatype log_line = LogInfo string ja4 | LogDebug string ja4_error

definition log_ja4_observe :: "(string \<Rightarrow> u8 list) \<Rightarrow> string \<Rightarrow> u8 list \<Rightarrow> log_line" where
  "log_ja4_observe sha host hello =
     (case parse_client_hello hello of
        Inr h \<Rightarrow> LogInfo host (from_client_hello sha h Tcp)
      | Inl e \<Rightarrow> LogDebug host e)"

definition recording_observe ::
    "string \<Rightarrow> u8 list \<Rightarrow> (string \<times> u8 list) list \<Rightarrow> (string \<times> u8 list) list" where
  "recording_observe host hello captured = captured @ [(host, hello)]"

definition latest_ja4 :: "(string \<Rightarrow> u8 list) \<Rightarrow> (string \<times> u8 list) list \<Rightarrow> ja4 option" where
  "latest_ja4 sha captured =
     (if captured = [] then None
      else (case parse_client_hello (snd (last captured)) of
              Inl _ \<Rightarrow> None
            | Inr h \<Rightarrow> Some (from_client_hello sha h Tcp)))"

section \<open>Behaviour of the accumulator\<close>

fun ready_bytes :: "poll_read \<Rightarrow> u8 list" where
  "ready_bytes (ReadyOk b) = b"
| "ready_bytes _ = []"

definition stream_of :: "poll_read list \<Rightarrow> u8 list" where
  "stream_of ps = concat (map ready_bytes ps)"

lemma stream_of_simps [simp]:
  "stream_of [] = []" "stream_of (p # ps) = ready_bytes p @ stream_of ps"
  by (simp_all add: stream_of_def)

lemma poll_read_passthrough: "fst (capturing_poll_read p s) = p"
  by (auto simp: capturing_poll_read_def split: poll_read.splits prod.splits option.splits)

lemma poll_read_frame [simp]:
  "cs_host (snd (capturing_poll_read p s)) = cs_host s"
  "cs_observer (snd (capturing_poll_read p s)) = cs_observer s"
  by (auto simp: capturing_poll_read_def split: poll_read.splits prod.splits option.splits)

lemma poll_read_done:
  "cap_done (cs_capture s) \<Longrightarrow> snd (capturing_poll_read p s) = s"
  by (auto simp: capturing_poll_read_def capture_push_def split: poll_read.splits)

lemma run_done: "cap_done (cs_capture s) \<Longrightarrow> capturing_run ps s = s"
  by (induction ps) (simp_all add: poll_read_done)

definition waiting :: "capturing \<Rightarrow> bool" where
  "waiting s \<longleftrightarrow> \<not> cap_done (cs_capture s) \<and> cs_observed s = [] \<and> cs_observer s"

lemma record_total_append:
  "5 \<le> length b \<Longrightarrow> record_total (b @ x) = record_total b"
  by (simp add: record_total_def nth_append)

text \<open>One poll: still waiting with the bytes appended, or done with the record reported.\<close>

lemma poll_read_step:
  fixes s :: capturing and p :: poll_read
  assumes "waiting s"
  defines "buf \<equiv> cap_buf (cs_capture s) @ ready_bytes p"
  shows "ready_bytes p = [] \<Longrightarrow> snd (capturing_poll_read p s) = s"
    and "ready_bytes p \<noteq> [] \<Longrightarrow> length buf < 5 \<or>
           length buf < record_total buf \<and> length buf < MAX_CAPTURE_BYTES \<Longrightarrow>
         waiting (snd (capturing_poll_read p s)) \<and>
         cap_buf (cs_capture (snd (capturing_poll_read p s))) = buf"
    and "ready_bytes p \<noteq> [] \<Longrightarrow> 5 \<le> length buf \<Longrightarrow>
         record_total buf \<le> length buf \<or> MAX_CAPTURE_BYTES \<le> length buf \<Longrightarrow>
         cap_done (cs_capture (snd (capturing_poll_read p s))) \<and>
         cs_observed (snd (capturing_poll_read p s))
           = [(cs_host s, take (min (record_total buf) (length buf)) buf)]"
  using assms
  by (cases p; auto simp: capturing_poll_read_def capture_push_def Let_def waiting_def
      RECORD_HEADER_LEN_def)+

lemma run_waiting:
  assumes "waiting s" and "cap_buf (cs_capture s) @ stream_of ps = rec @ behind"
    and "5 \<le> length rec" and "record_total rec = length rec"
    and "length rec \<le> MAX_CAPTURE_BYTES" and "length (cap_buf (cs_capture s)) < length rec"
  shows "cs_observed (capturing_run ps s) = [(cs_host s, rec)]"
  using assms
proof (induction ps arbitrary: s)
  case Nil
  then have "length (cap_buf (cs_capture s)) = length rec + length behind"
    by (metis append_Nil2 length_append stream_of_simps(1))
  with Nil show ?case by simp
next
  case (Cons p ps)
  let ?buf = "cap_buf (cs_capture s) @ ready_bytes p" and ?s' = "snd (capturing_poll_read p s)"
  show ?case
  proof (cases "ready_bytes p = []")
    case True
    then show ?thesis using poll_read_step(1) [OF Cons.prems(1) True] Cons by simp
  next
    case ne: False
    show ?thesis
    proof (cases "length ?buf < length rec")
      case True
      have "?buf @ stream_of ps = rec @ behind" using Cons.prems(2) by simp
      then obtain u where u: "rec = ?buf @ u"
        by (rule append_shorter) (use True in simp)
      have "5 \<le> length ?buf \<Longrightarrow> record_total ?buf = length rec"
        using record_total_append [of ?buf u] Cons.prems(4) u by simp
      with True Cons.prems(5) have "length ?buf < 5 \<or>
           length ?buf < record_total ?buf \<and> length ?buf < MAX_CAPTURE_BYTES" by linarith
      from poll_read_step(2) [OF Cons.prems(1) ne this]
      have "waiting ?s'" "cap_buf (cs_capture ?s') = ?buf" by auto
      then show ?thesis
        using Cons.IH [of ?s'] Cons.prems True by simp
    next
      case False
      have "rec @ behind = ?buf @ stream_of ps" using Cons.prems(2) by simp
      then obtain u where u: "?buf = rec @ u"
        by (rule append_shorter) (use False in simp)
      have tot: "record_total ?buf = length rec" unfolding u
        using record_total_append [OF Cons.prems(3)] Cons.prems(4) by simp
      have "cap_done (cs_capture ?s') \<and> cs_observed ?s'
          = [(cs_host s, take (min (record_total ?buf) (length ?buf)) ?buf)]"
        using False Cons.prems(3) tot
        by (intro poll_read_step(3) [OF Cons.prems(1) ne]) auto
      then show ?thesis using run_done tot u by simp
    qed
  qed
qed

text \<open>C29. Capture is passive and independent of how the bytes arrive: if what the peer sends starts
  with one complete TLS record of at most 16 KiB, then however the transport splits it into reads
  (pending polls and read errors in between included), the observer is told exactly once, with
  exactly that record and not the bytes pipelined behind it.\<close>

theorem capture_exact_record:
  assumes "stream_of ps = rec @ behind" and "5 \<le> length rec" and "record_total rec = length rec"
    and "length rec \<le> MAX_CAPTURE_BYTES"
  shows "cs_observed (capturing_run ps (capturing_new host True)) = [(host, rec)]"
proof -
  have "rec \<noteq> []" using assms(2) by auto
  then show ?thesis
    using run_waiting [of "capturing_new host True" ps rec behind] assms
    by (auto simp: waiting_def capturing_new_def capture_default_def)
qed

theorem capture_exact_record_witness:
  "cs_observed (capturing_run [ReadyOk [22, 3], Pending, ReadyOk [1, 0, 1, 9, 8, 8]]
     (capturing_new ''h'' True)) = [(''h'', [22, 3, 1, 0, 1, 9])]"
  by (rule capture_exact_record [where behind = "[8, 8]"])
    (simp_all add: record_total_def u16_from_be_def RECORD_HEADER_LEN_def MAX_CAPTURE_BYTES_def)

text \<open>Whatever the peer sends, the observer is told at most once per tunnel, never when no
  observer is attached, and every read is handed to the TLS acceptor unchanged.\<close>

theorem capture_at_most_once:
  "length (cs_observed (capturing_run ps (capturing_new host obs))) \<le> (if obs then 1 else 0) \<and>
   fst (capturing_poll_read p s) = p"
proof -
  have "cs_observed (capturing_run ps s) = cs_observed s" if "\<not> cs_observer s" for s
    using that by (induction ps arbitrary: s) (auto simp: capturing_poll_read_def)
  moreover have "length (cs_observed (capturing_run ps s)) \<le> 1" if "waiting s" for s
    using that
  proof (induction ps arbitrary: s)
    case (Cons p ps)
    let ?b = "cap_buf (cs_capture s) @ ready_bytes p"
    consider "ready_bytes p = []"
      | "ready_bytes p \<noteq> []" "length ?b < 5 \<or> length ?b < record_total ?b \<and> length ?b < MAX_CAPTURE_BYTES"
      | "ready_bytes p \<noteq> []" "5 \<le> length ?b" "record_total ?b \<le> length ?b \<or> MAX_CAPTURE_BYTES \<le> length ?b"
      by linarith
    then show ?case
    proof cases
      case 1
      then show ?thesis using Cons poll_read_step(1) by simp
    next
      case 2
      then show ?thesis using Cons.IH poll_read_step(2) [OF Cons.prems] by simp
    next
      case 3
      then show ?thesis using run_done poll_read_step(3) [OF Cons.prems] by simp
    qed
  qed (simp add: waiting_def)
  ultimately show ?thesis
    by (auto simp: poll_read_passthrough waiting_def capturing_new_def capture_default_def)
qed

lemma record_total_enc_record:
  assumes "wf_msg m"
  shows "record_total (enc_record m) = length (enc_record m)"
proof -
  have "length (enc_handshake m) < 65536" using assms by (simp add: wf_msg_def)
  then show ?thesis
    by (simp add: record_total_def enc_record_def block16_def u16_from_be_of_nat
        unat_u16_of_nat RECORD_HEADER_LEN_def del: length_enc_handshake)
qed

text \<open>The proxy as a fingerprint observatory: when a client sends a well-formed hello record of
  at most 16 KiB, in any number of reads and with anything behind it, the recording observer ends up
  with the JA4 fingerprint of exactly that hello.\<close>

theorem observatory_latest_ja4:
  assumes "wf_msg m" and "length (enc_record m) \<le> MAX_CAPTURE_BYTES"
    and "stream_of ps = enc_record m @ behind" and "hello_of_msg m = Inr h"
  shows "latest_ja4 sha (cs_observed (capturing_run ps (capturing_new host True)))
         = Some (from_client_hello sha h Tcp)"
proof -
  have "cs_observed (capturing_run ps (capturing_new host True)) = [(host, enc_record m)]"
    using run_waiting [of "capturing_new host True" ps "enc_record m" behind]
      record_total_enc_record assms
    by (simp add: waiting_def capturing_new_def capture_default_def enc_record_def)
  then show ?thesis
    using parse_after_slice [OF assms(1) slice_record [OF assms(1)]] assms(4)
    by (simp add: latest_ja4_def)
qed

theorem observatory_latest_ja4_witness:
  "\<exists>h. hello_of_msg sample_msg = Inr h \<and>
     latest_ja4 (\<lambda>s. replicate 32 0) (cs_observed (capturing_run
        [ReadyOk (take 30 (enc_record sample_msg)), ReadyOk (drop 30 (enc_record sample_msg) @ [1])]
        (capturing_new ''h'' True))) = Some (from_client_hello (\<lambda>s. replicate 32 0) h Tcp)"
proof -
  obtain h where h: "hello_of_msg sample_msg = Inr h"
    by (simp add: hello_of_msg_def sample_msg_def absorb_extension_def ext_ids)
  have "stream_of [ReadyOk (take 30 (enc_record sample_msg)),
      ReadyOk (drop 30 (enc_record sample_msg) @ [1])] = enc_record sample_msg @ [1]" by simp
  moreover have "length (enc_record sample_msg) \<le> MAX_CAPTURE_BYTES"
    by (simp add: enc_record_def enc_body_def enc_ext_def sample_msg_def MAX_CAPTURE_BYTES_def)
  ultimately show ?thesis
    using observatory_latest_ja4 [OF sample_wf _ _ h] h by blast
qed

end
