(* ===== verification/Challenge.thy ===== *)
theory Challenge
  imports Rust_Str
begin

text \<open>
  Models \<open>src/src/challenge/types.rs\<close> and \<open>src/src/challenge/detect.rs\<close>: the signal a detection
  yields, and the pure classifier over a status, three headers and a body. The marker tables are the
  source's, in its order.
\<close>

section \<open>Value types\<close>

datatype challenge_kind = NoChallenge | IuamV1 | JsChallenge | Turnstile | AccessDenied
  | RateLimited | UnknownChallenge

datatype confidence = Low | Medium | High

instantiation confidence :: linorder
begin

definition less_eq_confidence :: "confidence \<Rightarrow> confidence \<Rightarrow> bool" where
  "less_eq_confidence a b \<longleftrightarrow> a = Low \<or> a = Medium \<and> b \<noteq> Low \<or> b = High"

definition less_confidence :: "confidence \<Rightarrow> confidence \<Rightarrow> bool" where
  "less_confidence a b \<longleftrightarrow> a \<le> b \<and> a \<noteq> (b :: confidence)"

instance
proof
  fix x y z :: confidence
  show "x < y \<longleftrightarrow> x \<le> y \<and> \<not> y \<le> x"
    by (cases x; cases y) (simp_all add: less_eq_confidence_def less_confidence_def)
  show "x \<le> x" by (cases x) (simp_all add: less_eq_confidence_def)
  show "x \<le> y \<Longrightarrow> y \<le> z \<Longrightarrow> x \<le> z"
    by (cases x; cases y; cases z) (simp_all add: less_eq_confidence_def)
  show "x \<le> y \<Longrightarrow> y \<le> x \<Longrightarrow> x = y"
    by (cases x; cases y) (simp_all add: less_eq_confidence_def)
  show "x \<le> y \<or> y \<le> x" by (cases x; cases y) (simp_all add: less_eq_confidence_def)
qed

end

record challenge_signal =
  sig_kind :: challenge_kind
  sig_confidence :: confidence
  sig_evidence :: "string list"

definition signal_none :: challenge_signal where
  "signal_none = \<lparr>sig_kind = NoChallenge, sig_confidence = High, sig_evidence = []\<rparr>"

definition is_challenge :: "challenge_signal \<Rightarrow> bool" where
  "is_challenge s \<longleftrightarrow> sig_kind s \<noteq> NoChallenge"

record detection_input =
  di_status :: "u16 option"
  di_server :: "string option"
  di_cf_mitigated :: "string option"
  di_cf_ray :: "string option"
  di_body :: string

definition from_body :: "string \<Rightarrow> detection_input" where
  "from_body body = \<lparr>di_status = None, di_server = None, di_cf_mitigated = None,
                     di_cf_ray = None, di_body = body\<rparr>"

section \<open>Markers\<close>

definition STATUS_RATE_LIMITED :: u16 where "STATUS_RATE_LIMITED = 429"

definition INTERSTITIAL_MARKERS :: "string list" where
  "INTERSTITIAL_MARKERS =
     [''just a moment'', ''cf_chl_opt'', ''challenge-platform/h/b/orchestrate'',
      ''challenge-platform/h/g/orchestrate'', ''enable javascript and cookies to continue'',
      ''challenge-error-title'',
      ''id='' @ [char_of (34::nat)] @ ''challenge-form'' @ [char_of (34::nat)],
      ''id='' @ [char_of (34::nat)] @ ''challenge-stage'' @ [char_of (34::nat)],
      ''cf-challenge-running'']"

definition TURNSTILE_MARKERS :: "string list" where
  "TURNSTILE_MARKERS =
     [''cf-turnstile'', ''challenges.cloudflare.com/turnstile'', ''turnstile/v0/api.js'']"

definition IUAM_MARKERS :: "string list" where
  "IUAM_MARKERS =
     [''checking your browser before accessing'', ''cf-im-under-attack'', ''jschl-answer'',
      ''jschl_vc'']"

definition ACCESS_DENIED_MARKERS :: "string list" where
  "ACCESS_DENIED_MARKERS =
     [''error 1020'', ''access denied'', ''you have been blocked'', ''attention required'']"

definition RATE_LIMIT_MARKERS :: "string list" where
  "RATE_LIMIT_MARKERS = [''error 1015'', ''rate limited'', ''too many requests'']"

section \<open>Detection\<close>

definition turnstile_signal :: "string \<Rightarrow> challenge_signal" where
  "turnstile_signal evidence =
     \<lparr>sig_kind = Turnstile, sig_confidence = High, sig_evidence = [evidence]\<rparr>"

definition is_cloudflare :: "detection_input \<Rightarrow> string \<Rightarrow> bool" where
  "is_cloudflare i lower_body \<longleftrightarrow>
     (case di_server i of None \<Rightarrow> False | Some s \<Rightarrow> contains (lower s) ''cloudflare'') \<or>
     di_cf_ray i \<noteq> None \<or> di_cf_mitigated i \<noteq> None \<or>
     contains lower_body ''cloudflare'' \<or> contains lower_body ''/cdn-cgi/''"

definition detect :: "detection_input \<Rightarrow> challenge_signal" where
  "detect i =
     (let body = lower (di_body i); cf = is_cloudflare i body in
      if di_status i = Some STATUS_RATE_LIMITED \<or> cf \<and> contains_any body RATE_LIMIT_MARKERS
      then \<lparr>sig_kind = RateLimited, sig_confidence = High,
             sig_evidence = [''rate-limit (429 / error 1015)'']\<rparr>
      else if contains_any body ACCESS_DENIED_MARKERS \<and> cf
      then \<lparr>sig_kind = AccessDenied, sig_confidence = High,
             sig_evidence = [''access-denied marker (e.g. error 1020)'']\<rparr>
      else if (case di_cf_mitigated i of None \<Rightarrow> False | Some v \<Rightarrow> eq_ignore_case v ''challenge'')
      then (if contains_any body TURNSTILE_MARKERS
            then turnstile_signal ''cf-mitigated header + turnstile widget''
            else \<lparr>sig_kind = JsChallenge, sig_confidence = High,
                   sig_evidence = [''cf-mitigated: challenge'']\<rparr>)
      else if contains_any body INTERSTITIAL_MARKERS
      then (if contains_any body TURNSTILE_MARKERS
            then turnstile_signal ''turnstile widget on a challenge interstitial''
            else \<lparr>sig_kind = JsChallenge, sig_confidence = High,
                   sig_evidence = [''cloudflare challenge interstitial'']\<rparr>)
      else if contains_any body IUAM_MARKERS
      then \<lparr>sig_kind = IuamV1, sig_confidence = High, sig_evidence = [''legacy IUAM marker'']\<rparr>
      else if cf
      then \<lparr>sig_kind = NoChallenge, sig_confidence = High,
             sig_evidence = [''served by cloudflare, no challenge marker'']\<rparr>
      else signal_none)"

section \<open>What is and is not a challenge\<close>

definition flagged :: "detection_input \<Rightarrow> bool" where
  "flagged i \<longleftrightarrow>
     (case di_cf_mitigated i of None \<Rightarrow> False | Some v \<Rightarrow> eq_ignore_case v ''challenge'')"

lemma is_challenge_simps [simp]:
  "is_challenge \<lparr>sig_kind = k, sig_confidence = c, sig_evidence = e\<rparr> \<longleftrightarrow> k \<noteq> NoChallenge"
  "is_challenge (turnstile_signal ev)" "\<not> is_challenge signal_none"
  by (simp_all add: is_challenge_def turnstile_signal_def signal_none_def)

lemma detect_is_challenge:
  "is_challenge (detect i) \<longleftrightarrow>
     di_status i = Some 429 \<or>
     (\<exists>m \<in> set RATE_LIMIT_MARKERS \<union> set ACCESS_DENIED_MARKERS.
        is_cloudflare i (lower (di_body i)) \<and> contains (lower (di_body i)) m) \<or>
     flagged i \<or>
     (\<exists>m \<in> set INTERSTITIAL_MARKERS \<union> set IUAM_MARKERS. contains (lower (di_body i)) m)"
proof -
  let ?b = "lower (di_body i)"
  have union: "(\<exists>m \<in> set xs \<union> set ys. contains ?b m) \<longleftrightarrow> contains_any ?b xs \<or> contains_any ?b ys"
    for xs ys by (auto simp: contains_any_def)
  have union_cf: "(\<exists>m \<in> set xs \<union> set ys. is_cloudflare i ?b \<and> contains ?b m) \<longleftrightarrow>
      is_cloudflare i ?b \<and> (contains_any ?b xs \<or> contains_any ?b ys)"
    for xs ys using union by blast
  show ?thesis
    unfolding union union_cf flagged_def [symmetric]
    by (auto simp: detect_def Let_def flagged_def [symmetric] STATUS_RATE_LIMITED_def)
qed

text \<open>C33. A page is reported as challenged exactly when it is rate limited, denied by Cloudflare,
  flagged by the edge's own header, or carries the text of an interstitial: being served through
  Cloudflare, carrying its passive detection script, or embedding a Turnstile widget in a form never
  makes an ordinary page a challenge.\<close>

theorem detect_challenge_iff:
  "is_challenge (detect i) \<longleftrightarrow>
     di_status i = Some 429 \<or>
     (\<exists>m \<in> set RATE_LIMIT_MARKERS \<union> set ACCESS_DENIED_MARKERS.
        is_cloudflare i (lower (di_body i)) \<and> contains (lower (di_body i)) m) \<or>
     flagged i \<or>
     (\<exists>m \<in> set INTERSTITIAL_MARKERS \<union> set IUAM_MARKERS. contains (lower (di_body i)) m)"
  by (rule detect_is_challenge)

text \<open>The kinds the classifier can report, and how sure it is.\<close>

lemma detect_kinds:
  "sig_kind (detect i) \<noteq> UnknownChallenge" "sig_confidence (detect i) = High"
  by (auto simp: detect_def Let_def turnstile_signal_def signal_none_def)

text \<open>Detection ignores the case of the body and of the server header: rewriting either to lower
  case, as a proxy or a page may, never changes the signal.\<close>

theorem detect_case_insensitive:
  "detect (i\<lparr>di_body := lower (di_body i), di_server := map_option lower (di_server i)\<rparr>) = detect i"
proof -
  let ?j = "i\<lparr>di_body := lower (di_body i), di_server := map_option lower (di_server i)\<rparr>"
  have "is_cloudflare ?j (lower (di_body ?j)) = is_cloudflare i (lower (di_body i))"
    by (auto simp: is_cloudflare_def split: option.splits)
  then show ?thesis by (simp add: detect_def Let_def)
qed

lemma detect_turnstile:
  "sig_kind (detect i) = Turnstile \<Longrightarrow>
     contains_any (lower (di_body i)) TURNSTILE_MARKERS \<and>
     (flagged i \<or> contains_any (lower (di_body i)) INTERSTITIAL_MARKERS)"
  by (auto simp: detect_def Let_def turnstile_signal_def signal_none_def flagged_def
      split: if_splits)

lemma detect_access_denied:
  "sig_kind (detect i) = AccessDenied \<Longrightarrow>
     is_cloudflare i (lower (di_body i)) \<and> contains_any (lower (di_body i)) ACCESS_DENIED_MARKERS"
  by (auto simp: detect_def Let_def turnstile_signal_def signal_none_def split: if_splits)

text \<open>The page captured from a protected site that is not challenged, and an interstitial.\<close>

lemma detect_examples:
  "\<not> is_challenge (detect \<lparr>di_status = Some 200, di_server = Some ''cloudflare'',
      di_cf_mitigated = None, di_cf_ray = Some ''8f2a1b'',
      di_body = ''<div class=cf-turnstile></div>''\<rparr>)"
  "sig_kind (detect (from_body ''JUST A MOMENT...'')) = JsChallenge"
  by code_simp+

end
