(* ===== verification/Profile.thy ===== *)
theory Profile
  imports Rust_Str
begin

text \<open>
  Models \<open>src/src/profile.rs\<close>: the profile record, the browser read off its User-Agent, and the
  generated profiles. The random choices of \<open>BrowserProfile::random\<close> are an argument: one index into
  each table and one coin.
\<close>

section \<open>Profiles\<close>

datatype browser_kind = Chrome u32 | Safari u32

definition CHROME_MAJOR :: u32 where "CHROME_MAJOR = 153"
definition FALLBACK_CHROME_MAJOR :: u32 where "FALLBACK_CHROME_MAJOR = CHROME_MAJOR"

record browser_profile =
  user_agent :: string
  platform :: string
  hardware_concurrency :: u32
  device_memory :: u32
  webgl_vendor :: string
  webgl_renderer :: string
  viewport_width :: u32
  viewport_height :: u32
  accept_language :: string

definition major_after :: "string \<Rightarrow> string \<Rightarrow> u32 option" where
  "major_after ua token =
     (case split_once token ua of
        None \<Rightarrow> None
      | Some (_, rest) \<Rightarrow> parse_u32 (takeWhile is_digit rest))"

definition kind_of_ua :: "string \<Rightarrow> browser_kind" where
  "kind_of_ua ua =
     (case major_after ua ''Chrome/'' of
        Some major \<Rightarrow> Chrome major
      | None \<Rightarrow>
          (case (if contains ua ''Safari'' then major_after ua ''Version/'' else None) of
             Some major \<Rightarrow> Safari major
           | None \<Rightarrow> Chrome FALLBACK_CHROME_MAJOR))"

definition browser_kind :: "browser_profile \<Rightarrow> browser_kind" where
  "browser_kind p = kind_of_ua (user_agent p)"

section \<open>Generated profiles\<close>

definition user_agents :: "string list" where
  "user_agents =
    [''Mozilla/5.0 (Windows NT 10.0; Win64; x64) AppleWebKit/537.36 (KHTML, like Gecko) Chrome/153.0.0.0 Safari/537.36'',
     ''Mozilla/5.0 (Macintosh; Intel Mac OS X 10_15_7) AppleWebKit/537.36 (KHTML, like Gecko) Chrome/153.0.0.0 Safari/537.36'',
     ''Mozilla/5.0 (X11; Linux x86_64) AppleWebKit/537.36 (KHTML, like Gecko) Chrome/153.0.0.0 Safari/537.36'']"

definition webgl_vendors :: "string list" where
  "webgl_vendors = [''Google Inc. (NVIDIA)'', ''Google Inc. (Apple)'', ''Google Inc. (Intel)'']"

definition webgl_renderers :: "string list" where
  "webgl_renderers =
    [''ANGLE (NVIDIA, NVIDIA GeForce RTX 3070 Direct3D11 vs_5_0 ps_5_0, D3D11)'',
     ''ANGLE (NVIDIA, NVIDIA GeForce RTX 3080 Direct3D11 vs_5_0 ps_5_0, D3D11)'',
     ''ANGLE (Apple, Apple M2, OpenGL 4.1)'',
     ''ANGLE (Intel, Intel(R) Iris(R) Xe Graphics Direct3D11 vs_5_0 ps_5_0, D3D11)'']"

definition concurrency_choices :: "u32 list" where "concurrency_choices = [4, 8, 12, 16]"
definition memory_choices :: "u32 list" where "memory_choices = [8, 16, 32]"
definition dimension_choices :: "(u32 \<times> u32) list" where
  "dimension_choices = [(1920, 1080), (2560, 1440), (1366, 768), (1440, 900)]"

record profile_draws =
  d_ua :: nat
  d_coin :: bool
  d_dims :: nat
  d_cores :: nat
  d_memory :: nat

definition draws_ok :: "profile_draws \<Rightarrow> bool" where
  "draws_ok d \<longleftrightarrow> d_ua d < length user_agents \<and> d_dims d < length dimension_choices \<and>
     d_cores d < length concurrency_choices \<and> d_memory d < length memory_choices"

definition random_profile :: "profile_draws \<Rightarrow> browser_profile" where
  "random_profile d =
     (let ua = user_agents ! d_ua d;
          mac = contains ua ''Macintosh''; win = contains ua ''Windows'';
          dims = dimension_choices ! d_dims d
      in \<lparr>user_agent = ua,
          platform = (if win then ''Win32'' else if mac then ''MacIntel'' else ''Linux x86_64''),
          hardware_concurrency = concurrency_choices ! d_cores d,
          device_memory = memory_choices ! d_memory d,
          webgl_vendor = (if mac then webgl_vendors ! 1 else webgl_vendors ! 0),
          webgl_renderer = (if mac then webgl_renderers ! 2
                            else if win then (if d_coin d then webgl_renderers ! 0 else webgl_renderers ! 3)
                            else webgl_renderers ! 0),
          viewport_width = fst dims, viewport_height = snd dims,
          accept_language = ''en-US,en;q=0.9''\<rparr>)"

section \<open>What a User-Agent says\<close>

lemma major_after_digits:
  assumes "split_once tok ua = Some (a, dec n @ b)" and "n < 2 ^ 32"
    and "b \<noteq> [] \<Longrightarrow> \<not> is_digit (hd b)"
  shows "major_after ua tok = Some (of_nat n)"
proof -
  have "takeWhile is_digit (dec n @ b) = dec n"
    using dec_digits [of n] assms(3)
    by (cases b) (simp_all add: list_all_iff takeWhile_append)
  moreover have "\<not> prefix ''+'' (dec n)"
  proof
    assume "prefix ''+'' (dec n)"
    then have "CHR ''+'' \<in> set (dec n)" by (auto simp: prefix_def)
    then have "is_digit (CHR ''+'')" using dec_digits [of n] by (auto simp: list_all_iff)
    then show False by (simp add: is_digit_def byte_def)
  qed
  ultimately show ?thesis using assms(1,2) by (simp add: major_after_def parse_u32_def)
qed

text \<open>The Chrome token decides: a User-Agent that names a Chrome version is Chrome at exactly that
  version, whatever follows, even though every Chromium User-Agent also ends in a Safari token.\<close>

theorem chrome_token_wins:
  assumes "\<not> contains a ''Chrome/''"
    and "n < 2 ^ 32" and "b \<noteq> [] \<Longrightarrow> \<not> is_digit (hd b)"
    and "user_agent p = a @ ''Chrome/'' @ dec n @ b"
  shows "browser_kind p = Chrome (of_nat n)"
proof -
  have "\<not> prefix ''Chrome/'' (y @ ''Chrome/'' @ r)" if "a = x @ y" "y \<noteq> []" for x y r
  proof
    assume pre: "prefix ''Chrome/'' (y @ ''Chrome/'' @ r)"
    have "prefix ''Chrome/'' y"
      using pre that(2) by (cases y) (auto simp: prefix_def Cons_eq_append_conv append_eq_Cons_conv)
    then have "contains a ''Chrome/''"
      using that(1) by (auto simp: contains_iff_sublist prefix_def sublist_def)
    then show False using assms(1) by simp
  qed
  then have "split_once ''Chrome/'' (user_agent p) = Some (a, dec n @ b)"
    unfolding assms(4) by (intro split_once_first) blast
  from major_after_digits [OF this assms(2,3)] show ?thesis
    by (simp add: browser_kind_def kind_of_ua_def)
qed

theorem chrome_token_wins_witness:
  "browser_kind (random_profile \<lparr>d_ua = 0, d_coin = True, d_dims = 0, d_cores = 0, d_memory = 0\<rparr>
     \<lparr>user_agent := ''X11 '' @ ''Chrome/'' @ dec 124 @ '' Safari/537.36''\<rparr>) = Chrome 124"
proof -
  have "browser_kind (random_profile \<lparr>d_ua = 0, d_coin = True, d_dims = 0, d_cores = 0, d_memory = 0\<rparr>
     \<lparr>user_agent := ''X11 '' @ ''Chrome/'' @ dec 124 @ '' Safari/537.36''\<rparr>) = Chrome (of_nat 124)"
    by (rule chrome_token_wins [of "''X11 ''" 124 "'' Safari/537.36''"])
      (simp_all add: is_digit_def byte_def)
  then show ?thesis by simp
qed

text \<open>The three User-Agents of the table, decided by evaluation.\<close>

lemma table_split:
  "list_all (\<lambda>ua. map_option (\<lambda>(a, r). (take 3 r, is_digit (r ! 3), 3 < length r))
     (split_once ''Chrome/'' ua) = Some (''153'', False, True)) user_agents"
  by code_simp

lemma dec_153: "dec 153 = ''153''"
  by code_simp

lemma table_kinds: "list_all (\<lambda>ua. kind_of_ua ua = Chrome CHROME_MAJOR) user_agents"
proof -
  have "kind_of_ua ua = Chrome CHROME_MAJOR" if "ua \<in> set user_agents" for ua
  proof -
    have "\<exists>a r. split_once ''Chrome/'' ua = Some (a, r) \<and> take 3 r = ''153'' \<and>
        \<not> is_digit (r ! 3) \<and> 3 < length r"
      using table_split that by (auto simp: list_all_iff)
    then obtain a r where s: "split_once ''Chrome/'' ua = Some (a, r)" "take 3 r = ''153''"
        "\<not> is_digit (r ! 3)" "3 < length r" by blast
    then have "r = dec 153 @ drop 3 r" by (metis append_take_drop_id dec_153)
    with s have "major_after ua ''Chrome/'' = Some (of_nat 153)"
      by (intro major_after_digits [of _ _ a _ "drop 3 r"]) (simp_all add: hd_drop_conv_nth)
    then show ?thesis by (simp add: kind_of_ua_def CHROME_MAJOR_def)
  qed
  then show ?thesis by (simp add: list_all_iff)
qed

definition os_of :: "string \<Rightarrow> string \<times> string" where
  "os_of ua =
     (if contains ua ''Windows'' then (''Windows'', ''Win32'')
      else if contains ua ''Macintosh'' then (''macOS'', ''MacIntel'') else (''Linux'', ''Linux x86_64''))"

lemma random_user_agent: "draws_ok d \<Longrightarrow> user_agent (random_profile d) \<in> set user_agents"
  by (simp add: random_profile_def draws_ok_def Let_def)

text \<open>Every generated profile describes one browser: whatever the random choices, its User-Agent
  reads back as Chrome at the major version the emulation was measured for, its navigator platform is
  the one of the operating system it names, its header language is fixed and its screen is at least
  1366 by 768.\<close>

theorem random_profile_coherent:
  assumes "draws_ok d"
  shows "browser_kind (random_profile d) = Chrome CHROME_MAJOR \<and>
         platform (random_profile d) = snd (os_of (user_agent (random_profile d))) \<and>
         accept_language (random_profile d) = ''en-US,en;q=0.9'' \<and>
         1366 \<le> viewport_width (random_profile d) \<and> 768 \<le> viewport_height (random_profile d)"
proof -
  have "browser_kind (random_profile d) = Chrome CHROME_MAJOR"
    using table_kinds random_user_agent [OF assms] by (simp add: browser_kind_def list_all_iff)
  moreover have "platform (random_profile d) = snd (os_of (user_agent (random_profile d)))"
    by (simp add: random_profile_def os_of_def Let_def)
  moreover have "list_all (\<lambda>d. 1366 \<le> fst d \<and> 768 \<le> snd d) dimension_choices" by code_simp
  then have "1366 \<le> fst (dimension_choices ! d_dims d) \<and> 768 \<le> snd (dimension_choices ! d_dims d)"
    using assms by (simp add: list_all_length draws_ok_def)
  ultimately show ?thesis by (simp add: random_profile_def Let_def)
qed

theorem random_profile_coherent_witness:
  "draws_ok \<lparr>d_ua = 2, d_coin = False, d_dims = 3, d_cores = 0, d_memory = 2\<rparr> \<and>
   browser_kind (random_profile \<lparr>d_ua = 2, d_coin = False, d_dims = 3, d_cores = 0, d_memory = 2\<rparr>)
     = Chrome 153"
proof -
  have "draws_ok \<lparr>d_ua = 2, d_coin = False, d_dims = 3, d_cores = 0, d_memory = 2\<rparr>" by code_simp
  from this random_profile_coherent [OF this] show ?thesis by (simp add: CHROME_MAJOR_def)
qed

text \<open>The WebGL vendor is not drawn with the renderer: half the generated Windows profiles name NVIDIA
  as the vendor of an Intel renderer.\<close>

lemma windows_vendor_mismatch:
  "draws_ok \<lparr>d_ua = 0, d_coin = False, d_dims = 0, d_cores = 0, d_memory = 0\<rparr> \<and>
   webgl_vendor (random_profile \<lparr>d_ua = 0, d_coin = False, d_dims = 0, d_cores = 0, d_memory = 0\<rparr>)
     = ''Google Inc. (NVIDIA)'' \<and>
   contains (webgl_renderer (random_profile
     \<lparr>d_ua = 0, d_coin = False, d_dims = 0, d_cores = 0, d_memory = 0\<rparr>)) ''ANGLE (Intel, Intel''"
  by code_simp

end
