(* ===== verification/Json.thy ===== *)
theory Json
  imports Rust_Str Complex_Main
begin

text \<open>
  JSON values as \<open>serde_json::Value\<close> has them, with the accessors the sources call. An object is an
  association list in which the first entry of a key counts.
\<close>

datatype json = JNull | JBool bool | JInt int | JFloat rat | JStr string | JArr "json list"
  | JObj "(string \<times> json) list"

definition jget :: "string \<Rightarrow> json \<Rightarrow> json option" where
  "jget k v = (case v of JObj kvs \<Rightarrow> map_of kvs k | _ \<Rightarrow> None)"

text \<open>Indexing with \<open>value["key"]\<close> yields null where \<open>get\<close> yields nothing.\<close>

definition jidx :: "string \<Rightarrow> json \<Rightarrow> json" where
  "jidx k v = (case jget k v of None \<Rightarrow> JNull | Some x \<Rightarrow> x)"

fun as_str_json :: "json \<Rightarrow> string option" where
  "as_str_json (JStr s) = Some s" | "as_str_json _ = None"

fun as_bool_json :: "json \<Rightarrow> bool option" where
  "as_bool_json (JBool b) = Some b" | "as_bool_json _ = None"

fun as_u64_json :: "json \<Rightarrow> u64 option" where
  "as_u64_json (JInt n) = (if 0 \<le> n \<and> n < 2 ^ 64 then Some (of_int n) else None)"
| "as_u64_json _ = None"

fun as_i64_json :: "json \<Rightarrow> int option" where
  "as_i64_json (JInt n) = (if - (2 ^ 63) \<le> n \<and> n < 2 ^ 63 then Some n else None)"
| "as_i64_json _ = None"

text \<open>
  An integer read as a 64-bit float is rounded to 53 significant bits, ties to even; floats are
  finite in JSON and are carried as the rationals they are.
\<close>

definition round_53 :: "nat \<Rightarrow> nat" where
  "round_53 n =
     (let s = length (dropWhile (\<lambda>k. 2 ^ k > n) (rev [0..<64])) - 53;
          q = n div 2 ^ s; r = n mod 2 ^ s; h = 2 ^ s div 2 in
      if s = 0 then n
      else (if r < h \<or> r = h \<and> even q then q else q + 1) * 2 ^ s)"

definition f64_of_int :: "int \<Rightarrow> rat" where
  "f64_of_int n = of_int (if n < 0 then - int (round_53 (nat (- n))) else int (round_53 (nat n)))"

fun as_f64_json :: "json \<Rightarrow> rat option" where
  "as_f64_json (JInt n) = Some (f64_of_int n)"
| "as_f64_json (JFloat r) = Some r"
| "as_f64_json _ = None"

lemma round_53_exact: "n < 2 ^ 53 \<Longrightarrow> round_53 n = n"
proof -
  assume n: "n < 2 ^ 53"
  have "length (dropWhile (\<lambda>k. 2 ^ k > n) (rev [0..<64])) \<le> 53"
  proof -
    have split: "rev [0..<64] = [63, 62, 61, 60, 59, 58, 57, 56, 55, 54, 53] @ rev [0..<53]"
      by (simp add: upt_rec)
    have "\<And>k. k \<in> set [63, 62, 61, 60, 59, 58, 57, 56, 55, 54, 53] \<Longrightarrow> n < 2 ^ k"
    proof -
      fix k :: nat assume "k \<in> set [63, 62, 61, 60, 59, 58, 57, 56, 55, 54, 53]"
      then have "(2::nat) ^ 53 \<le> 2 ^ k" by (intro power_increasing) auto
      then show "n < 2 ^ k" using n by linarith
    qed
    then have "dropWhile (\<lambda>k. 2 ^ k > n) (rev [0..<64]) = dropWhile (\<lambda>k. 2 ^ k > n) (rev [0..<53])"
      unfolding split by (intro dropWhile_append2) auto
    then show ?thesis using length_dropWhile_le [of "\<lambda>k. 2 ^ k > n" "rev [0..<53]"] by simp
  qed
  then show ?thesis by (simp add: round_53_def)
qed

text \<open>A float cast to \<open>u64\<close> truncates and saturates.\<close>

definition f64_as_u64 :: "rat \<Rightarrow> u64" where
  "f64_as_u64 r = (if r \<le> 0 then 0 else if 2 ^ 64 \<le> r then - 1 else of_int \<lfloor>r\<rfloor>)"

fun as_array_json :: "json \<Rightarrow> json list option" where
  "as_array_json (JArr xs) = Some xs" | "as_array_json _ = None"

lemma jget_simps [simp]:
  "jget k (JObj kvs) = map_of kvs k" "jget k JNull = None" "jget k (JStr s) = None"
  "jget k (JArr xs) = None" "jget k (JBool b) = None" "jget k (JInt n) = None"
  "jget k (JFloat r) = None"
  by (simp_all add: jget_def)

lemma jidx_obj [simp]:
  "jidx k (JObj kvs) = (case map_of kvs k of None \<Rightarrow> JNull | Some x \<Rightarrow> x)"
  by (simp add: jidx_def)

end
