(* ===== verification/ClientHints.thy ===== *)
theory ClientHints
  imports Profile Json
begin

text \<open>
  Models \<open>src/src/client_hints.rs\<close>: the structured hints derived from a profile, the headers and the
  protocol metadata rendered from them.
\<close>

section \<open>Derivation\<close>

definition GREASE_BRAND :: "string \<times> string" where "GREASE_BRAND = (''Not_A Brand'', ''8'')"
definition CHROME_FULL_VERSION :: string where "CHROME_FULL_VERSION = ''153.0.8010.53''"
definition PLATFORM_VERSIONS :: "(string \<times> string) list" where
  "PLATFORM_VERSIONS = [(''Windows'', ''19.0.0''), (''macOS'', ''27.0.0''), (''Linux'', '''')]"
definition ARCHITECTURE :: string where "ARCHITECTURE = ''x86''"
definition BITNESS :: string where "BITNESS = ''64''"

record client_hints =
  ch_platform :: string
  ch_platform_version :: string
  ch_major_version :: string
  ch_full_version :: string
  ch_architecture :: string
  ch_bitness :: string
  ch_mobile :: bool
  ch_model :: string

definition platform_for :: "string \<Rightarrow> string" where
  "platform_for ua =
     (if contains ua ''Windows'' then ''Windows''
      else if contains ua ''Macintosh'' \<or> contains ua ''Mac OS X'' then ''macOS''
      else if contains ua ''CrOS'' then ''Chrome OS''
      else if contains ua ''Android'' then ''Android'' else ''Linux'')"

definition full_version_for :: "u32 \<Rightarrow> string" where
  "full_version_for major =
     (if major = CHROME_MAJOR then CHROME_FULL_VERSION else dec (unat major) @ ''.0.0.0'')"

definition platform_version_for :: "string \<Rightarrow> string" where
  "platform_version_for p = (case map_of PLATFORM_VERSIONS p of None \<Rightarrow> '''' | Some v \<Rightarrow> v)"

definition for_profile :: "browser_profile \<Rightarrow> client_hints option" where
  "for_profile p =
     (case browser_kind p of
        Safari _ \<Rightarrow> None
      | Chrome major \<Rightarrow>
          (let pl = platform_for (user_agent p) in
           Some \<lparr>ch_platform = pl, ch_platform_version = platform_version_for pl,
                 ch_major_version = dec (unat major), ch_full_version = full_version_for major,
                 ch_architecture = ARCHITECTURE, ch_bitness = BITNESS, ch_mobile = False,
                 ch_model = ''''\<rparr>))"

section \<open>Rendering\<close>

definition brands :: "client_hints \<Rightarrow> (string \<times> string) list" where
  "brands h = [(''Google Chrome'', ch_major_version h), GREASE_BRAND,
               (''Chromium'', ch_major_version h)]"

definition full_version_list :: "client_hints \<Rightarrow> (string \<times> string) list" where
  "full_version_list h =
     map (\<lambda>(brand, version).
            (brand, if brand = fst GREASE_BRAND then version @ ''.0.0.0'' else ch_full_version h))
         (brands h)"

definition brand_json :: "string \<times> string \<Rightarrow> json" where
  "brand_json bv = JObj [(''brand'', JStr (fst bv)), (''version'', JStr (snd bv))]"

definition to_cdp_metadata :: "client_hints \<Rightarrow> json" where
  "to_cdp_metadata h = JObj
     [(''brands'', JArr (map brand_json (brands h))),
      (''fullVersionList'', JArr (map brand_json (full_version_list h))),
      (''platform'', JStr (ch_platform h)),
      (''platformVersion'', JStr (ch_platform_version h)),
      (''architecture'', JStr (ch_architecture h)),
      (''bitness'', JStr (ch_bitness h)),
      (''model'', JStr (ch_model h)),
      (''mobile'', JBool (ch_mobile h)),
      (''wow64'', JBool False),
      (''fullVersion'', JStr (ch_full_version h))]"

definition dquote :: string where "dquote = [char_of (34::nat)]"

definition sec_ch_ua_platform :: "client_hints \<Rightarrow> string" where
  "sec_ch_ua_platform h = dquote @ ch_platform h @ dquote"

definition sec_ch_ua_mobile :: "client_hints \<Rightarrow> string" where
  "sec_ch_ua_mobile h = (if ch_mobile h then ''?1'' else ''?0'')"

definition sec_ch_ua :: "client_hints \<Rightarrow> string" where
  "sec_ch_ua h =
     join '', '' (map (\<lambda>(brand, version). dquote @ brand @ dquote @ '';v='' @ dquote @ version @ dquote)
                     (brands h))"

section \<open>Agreement with the User-Agent\<close>

text \<open>The major version a version string starts with.\<close>

definition leading_major :: "string \<Rightarrow> nat option" where
  "leading_major v = parse_digits (hd (split_char (CHR ''.'') v))"

lemma dec_no_dot: "CHR ''.'' \<notin> set (dec n)"
proof
  assume "CHR ''.'' \<in> set (dec n)"
  then have "is_digit (CHR ''.'')" using dec_digits [of n] by (auto simp: list_all_iff)
  then show False by (simp add: is_digit_def byte_def)
qed

lemma leading_major_dec: "leading_major (dec n @ CHR ''.'' # v) = Some n"
  using split_char_append [OF dec_no_dot, of n v] by (simp add: leading_major_def)

lemma leading_major_full: "leading_major (full_version_for m) = Some (unat m)"
proof (cases "m = CHROME_MAJOR")
  case True
  have "CHROME_FULL_VERSION = dec 153 @ CHR ''.'' # ''0.8010.53''"
    by (simp add: CHROME_FULL_VERSION_def dec_153)
  then have "leading_major CHROME_FULL_VERSION = Some 153" 
    using leading_major_dec [of 153 "''0.8010.53''"] by simp
  then show ?thesis using True by (simp add: full_version_for_def CHROME_MAJOR_def)
next
  case False
  then show ?thesis using leading_major_dec by (simp add: full_version_for_def)
qed

lemma for_profile_Some:
  "for_profile p = Some h \<longleftrightarrow>
     (\<exists>m. browser_kind p = Chrome m \<and>
        h = \<lparr>ch_platform = platform_for (user_agent p),
             ch_platform_version = platform_version_for (platform_for (user_agent p)),
             ch_major_version = dec (unat m), ch_full_version = full_version_for m,
             ch_architecture = ARCHITECTURE, ch_bitness = BITNESS, ch_mobile = False, ch_model = ''''\<rparr>)"
  by (auto simp: for_profile_def Let_def split: browser_kind.splits)

text \<open>The hints cannot contradict the User-Agent: a Safari profile has none, and for a Chrome
  profile every version they report, in the brand list, the full version list and the full version
  itself, has the major of the User-Agent, the two lists name the same brands in the same order, and
  the platform is the one the User-Agent names.\<close>

theorem hints_agree_with_user_agent:
  "(for_profile p = None \<longleftrightarrow> (\<exists>m. browser_kind p = Safari m)) \<and>
   (for_profile p = Some h \<longrightarrow>
     (\<exists>m. browser_kind p = Chrome m \<and>
        (\<forall>(b, v) \<in> set (brands h) - {GREASE_BRAND}. leading_major v = Some (unat m)) \<and>
        (\<forall>(b, v) \<in> set (full_version_list h). b \<noteq> fst GREASE_BRAND \<longrightarrow> leading_major v = Some (unat m)) \<and>
        leading_major (ch_full_version h) = Some (unat m)) \<and>
     map fst (full_version_list h) = map fst (brands h) \<and>
     ch_platform h = platform_for (user_agent p))"
proof -
  have d: "leading_major (dec n) = Some n" for n
    using split_char_absent [OF dec_no_dot, of n] by (simp add: leading_major_def)
  show ?thesis
    by (auto simp: for_profile_Some for_profile_def brands_def full_version_list_def d
        leading_major_full Let_def GREASE_BRAND_def split: browser_kind.splits)
qed

theorem hints_agree_with_user_agent_witness:
  "let p = random_profile \<lparr>d_ua = 0, d_coin = True, d_dims = 0, d_cores = 0, d_memory = 0\<rparr> in
   \<exists>h. for_profile p = Some h \<and> ch_platform h = ''Windows'' \<and>
       leading_major (ch_full_version h) = Some 153"
proof -
  let ?d = "\<lparr>d_ua = 0, d_coin = True, d_dims = 0, d_cores = 0, d_memory = 0\<rparr>"
  let ?p = "random_profile ?d"
  have "draws_ok ?d" by code_simp
  then have "user_agent ?p \<in> set user_agents" by (rule random_user_agent)
  then have k: "browser_kind ?p = Chrome 153"
    using table_kinds by (simp add: browser_kind_def list_all_iff CHROME_MAJOR_def)
  then obtain h where h: "for_profile ?p = Some h" by (simp add: for_profile_def Let_def)
  have "platform_for (user_agent ?p) = ''Windows''" by code_simp
  then show ?thesis using hints_agree_with_user_agent [of ?p h] h k by auto
qed

lemma brand_list_fixed:
  "draws_ok d \<Longrightarrow> for_profile (random_profile d) = Some h \<Longrightarrow>
     brands h = [(''Google Chrome'', ''153''), (''Not_A Brand'', ''8''), (''Chromium'', ''153'')]"
  using table_kinds random_user_agent [of d]
  by (auto simp: for_profile_Some brands_def GREASE_BRAND_def browser_kind_def list_all_iff
      CHROME_MAJOR_def dec_153)

end
