(* ===== verification/Emulation.thy ===== *)
theory Emulation
  imports Profile
begin

text \<open>
  Models \<open>src/src/emulation.rs\<close>: the two measured emulations as records of the options the sources
  set, and the choice between them. What the TLS and HTTP/2 library does with the options is not
  part of the repository.
\<close>

section \<open>Options\<close>

datatype compressor = Brotli | Zlib
datatype alpn = HTTP2 | HTTP1
datatype setting_id = HeaderTableSize | EnablePush | InitialWindowSize | MaxHeaderListSize
  | MaxConcurrentStreams | MaxFrameSize | EnableConnectProtocol | NoRfc7540Priorities
datatype pseudo_id = PMethod | PAuthority | PScheme | PPath

record tls_options =
  cipher_list :: string
  sigalgs_list :: string
  curves_list :: string
  alpn_protocols :: "alpn list"
  alps_protocols :: "alpn list option"
  alps_use_new_codepoint :: bool
  permute_extensions :: bool
  grease_enabled :: bool
  enable_ech_grease :: bool
  pre_shared_key :: bool
  enable_ocsp_stapling :: bool
  enable_sct :: bool
  certificate_compressors :: "compressor list"

record http2_options =
  header_table_size :: "u32 option"
  enable_push :: "bool option"
  max_concurrent_streams :: "u32 option"
  initial_window_size :: "u32 option"
  max_header_list_size :: "u32 option"
  no_rfc7540_priorities :: "bool option"
  initial_connection_window_size :: u32
  settings_order :: "setting_id list"
  headers_pseudo_order :: "pseudo_id list"
  headers_stream_dependency :: "(u32 \<times> u8 \<times> bool) option"

record emulation =
  emu_tls :: tls_options
  emu_http2 :: http2_options
  emu_headers :: "(string \<times> string) list"
  emu_order :: "string list"
  emu_group :: string

definition CHROME_CIPHERS :: string where
  "CHROME_CIPHERS =
     ''TLS_AES_128_GCM_SHA256:TLS_AES_256_GCM_SHA384:TLS_CHACHA20_POLY1305_SHA256:''
     @ ''ECDHE-ECDSA-AES128-GCM-SHA256:ECDHE-RSA-AES128-GCM-SHA256:''
     @ ''ECDHE-ECDSA-AES256-GCM-SHA384:ECDHE-RSA-AES256-GCM-SHA384:''
     @ ''ECDHE-ECDSA-CHACHA20-POLY1305:ECDHE-RSA-CHACHA20-POLY1305:''
     @ ''ECDHE-RSA-AES128-SHA:ECDHE-RSA-AES256-SHA:''
     @ ''AES128-GCM-SHA256:AES256-GCM-SHA384:AES128-SHA:AES256-SHA''"

definition CHROME_SIGALGS :: string where
  "CHROME_SIGALGS =
     ''ecdsa_secp256r1_sha256:rsa_pss_rsae_sha256:rsa_pkcs1_sha256:''
     @ ''ecdsa_secp384r1_sha384:rsa_pss_rsae_sha384:rsa_pkcs1_sha384:''
     @ ''rsa_pss_rsae_sha512:rsa_pkcs1_sha512''"

definition CHROME_CURVES :: string where
  "CHROME_CURVES = ''X25519MLKEM768:X25519:P-256:P-384''"

definition CHROME_JA4 :: string where "CHROME_JA4 = ''t13d1516h2_8daaf6152771_d8a2da3f94cd''"
definition CHROME_JA4_REAL :: string where
  "CHROME_JA4_REAL = ''t13d1517h2_8daaf6152771_cb7bf5808d99''"
definition SAFARI_27_JA4 :: string where "SAFARI_27_JA4 = ''t13d2014h2_a09f3c656075_d0a99439f9b1''"

definition CHROME_HEADER_TABLE_SIZE :: u32 where "CHROME_HEADER_TABLE_SIZE = 65536"
definition CHROME_INITIAL_STREAM_WINDOW :: u32 where "CHROME_INITIAL_STREAM_WINDOW = 6291456"
definition CHROME_MAX_HEADER_LIST_SIZE :: u32 where "CHROME_MAX_HEADER_LIST_SIZE = 262144"
definition CHROME_CONNECTION_WINDOW :: u32 where "CHROME_CONNECTION_WINDOW = 15728640"
definition CHROME_HEADERS_WEIGHT :: u8 where "CHROME_HEADERS_WEIGHT = 255"

definition CHROME_SETTINGS_IDS :: "setting_id list" where
  "CHROME_SETTINGS_IDS = [HeaderTableSize, EnablePush, InitialWindowSize, MaxHeaderListSize,
     MaxConcurrentStreams, MaxFrameSize, EnableConnectProtocol, NoRfc7540Priorities]"

definition CHROME_PSEUDO_IDS :: "pseudo_id list" where
  "CHROME_PSEUDO_IDS = [PMethod, PAuthority, PScheme, PPath]"

section \<open>Headers\<close>

definition CHROME_ACCEPT :: string where
  "CHROME_ACCEPT =
     ''text/html,application/xhtml+xml,application/xml;q=0.9,''
     @ ''image/avif,image/webp,image/apng,*/*;q=0.8,''
     @ ''application/signed-exchange;v=b3;q=0.7''"

definition CHROME_ACCEPT_ENCODING :: string where
  "CHROME_ACCEPT_ENCODING = ''gzip, deflate, br, zstd''"

definition NAVIGATION_METADATA :: "(string \<times> string) list" where
  "NAVIGATION_METADATA = [(''sec-fetch-site'', ''none''), (''sec-fetch-mode'', ''navigate''),
     (''sec-fetch-user'', ''?1''), (''sec-fetch-dest'', ''document'')]"

definition chrome_header_names :: "string list" where
  "chrome_header_names =
     [''sec-ch-ua'', ''sec-ch-ua-mobile'', ''sec-ch-ua-platform'', ''upgrade-insecure-requests'',
      ''user-agent'', ''accept'', ''sec-fetch-site'', ''sec-fetch-mode'', ''sec-fetch-user'',
      ''sec-fetch-dest'', ''accept-encoding'', ''accept-language'', ''priority'']"

text \<open>Inserting into a header map replaces the value of a name already present.\<close>

definition header_insert :: "string \<Rightarrow> string \<Rightarrow> (string \<times> string) list \<Rightarrow> (string \<times> string) list" where
  "header_insert k v hs =
     (if k \<in> fst ` set hs then map (\<lambda>(a, b). if a = k then (a, v) else (a, b)) hs
      else hs @ [(k, v)])"

definition order_map :: "string list \<Rightarrow> string list" where
  "order_map names = names"

definition chrome_default_headers :: "(string \<times> string) list" where
  "chrome_default_headers =
     fold (\<lambda>(k, v). header_insert k v) NAVIGATION_METADATA
       (header_insert ''upgrade-insecure-requests'' ''1''
         (header_insert ''accept-encoding'' CHROME_ACCEPT_ENCODING
           (header_insert ''accept'' CHROME_ACCEPT [])))"

definition chrome :: emulation where
  "chrome =
     \<lparr>emu_tls = \<lparr>cipher_list = CHROME_CIPHERS, sigalgs_list = CHROME_SIGALGS,
        curves_list = CHROME_CURVES, alpn_protocols = [HTTP2, HTTP1],
        alps_protocols = Some [HTTP2], alps_use_new_codepoint = True, permute_extensions = True,
        grease_enabled = True, enable_ech_grease = True, pre_shared_key = True,
        enable_ocsp_stapling = True, enable_sct = True, certificate_compressors = [Brotli]\<rparr>,
      emu_http2 = \<lparr>header_table_size = Some CHROME_HEADER_TABLE_SIZE, enable_push = Some False,
        max_concurrent_streams = None, initial_window_size = Some CHROME_INITIAL_STREAM_WINDOW,
        max_header_list_size = Some CHROME_MAX_HEADER_LIST_SIZE, no_rfc7540_priorities = None,
        initial_connection_window_size = CHROME_CONNECTION_WINDOW,
        settings_order = CHROME_SETTINGS_IDS, headers_pseudo_order = CHROME_PSEUDO_IDS,
        headers_stream_dependency = Some (0, CHROME_HEADERS_WEIGHT, True)\<rparr>,
      emu_headers = chrome_default_headers, emu_order = order_map chrome_header_names,
      emu_group = ''chrome''\<rparr>"

section \<open>Safari\<close>

definition SAFARI_27_CIPHERS :: string where
  "SAFARI_27_CIPHERS =
     ''TLS_AES_256_GCM_SHA384:TLS_CHACHA20_POLY1305_SHA256:TLS_AES_128_GCM_SHA256:''
     @ ''ECDHE-ECDSA-AES256-GCM-SHA384:ECDHE-ECDSA-AES128-GCM-SHA256:''
     @ ''ECDHE-ECDSA-CHACHA20-POLY1305:ECDHE-RSA-AES256-GCM-SHA384:''
     @ ''ECDHE-RSA-AES128-GCM-SHA256:ECDHE-RSA-CHACHA20-POLY1305:''
     @ ''ECDHE-ECDSA-AES256-SHA:ECDHE-ECDSA-AES128-SHA:''
     @ ''ECDHE-RSA-AES256-SHA:ECDHE-RSA-AES128-SHA:''
     @ ''AES256-GCM-SHA384:AES128-GCM-SHA256:AES256-SHA:AES128-SHA:''
     @ ''ECDHE-ECDSA-DES-CBC3-SHA:ECDHE-RSA-DES-CBC3-SHA:DES-CBC3-SHA''"

definition SAFARI_27_SIGALGS :: string where
  "SAFARI_27_SIGALGS =
     ''ecdsa_secp256r1_sha256:rsa_pss_rsae_sha256:rsa_pkcs1_sha256:''
     @ ''ecdsa_secp384r1_sha384:rsa_pss_rsae_sha384:rsa_pss_rsae_sha384:''
     @ ''rsa_pkcs1_sha384:rsa_pss_rsae_sha512:rsa_pkcs1_sha512:rsa_pkcs1_sha1''"

definition SAFARI_27_CURVES :: string where
  "SAFARI_27_CURVES = ''X25519MLKEM768:X25519:P-256:P-384:P-521''"

definition SAFARI_MAX_CONCURRENT_STREAMS :: u32 where "SAFARI_MAX_CONCURRENT_STREAMS = 100"
definition SAFARI_INITIAL_STREAM_WINDOW :: u32 where "SAFARI_INITIAL_STREAM_WINDOW = 2097152"
definition SAFARI_CONNECTION_WINDOW :: u32 where "SAFARI_CONNECTION_WINDOW = 10485760"

definition SAFARI_SETTINGS_IDS :: "setting_id list" where
  "SAFARI_SETTINGS_IDS = [EnablePush, MaxConcurrentStreams, InitialWindowSize, NoRfc7540Priorities,
     HeaderTableSize, MaxFrameSize, MaxHeaderListSize, EnableConnectProtocol]"

definition SAFARI_PSEUDO_IDS :: "pseudo_id list" where
  "SAFARI_PSEUDO_IDS = [PMethod, PScheme, PAuthority, PPath]"

definition SAFARI_ACCEPT :: string where
  "SAFARI_ACCEPT = ''text/html,application/xhtml+xml,application/xml;q=0.9,*/*;q=0.8''"
definition SAFARI_ACCEPT_ENCODING :: string where
  "SAFARI_ACCEPT_ENCODING = ''gzip, deflate, br, zstd''"
definition SAFARI_PRIORITY :: string where "SAFARI_PRIORITY = ''u=0, i''"

definition SAFARI_NAVIGATION_METADATA :: "(string \<times> string) list" where
  "SAFARI_NAVIGATION_METADATA = [(''sec-fetch-dest'', ''document''), (''sec-fetch-site'', ''none''),
     (''sec-fetch-mode'', ''navigate'')]"

definition safari_header_names :: "string list" where
  "safari_header_names =
     [''sec-fetch-dest'', ''user-agent'', ''accept'', ''sec-fetch-site'', ''sec-fetch-mode'',
      ''accept-language'', ''priority'', ''accept-encoding'']"

definition safari_default_headers :: "(string \<times> string) list" where
  "safari_default_headers =
     fold (\<lambda>(k, v). header_insert k v) SAFARI_NAVIGATION_METADATA
       (header_insert ''priority'' SAFARI_PRIORITY
         (header_insert ''accept-encoding'' SAFARI_ACCEPT_ENCODING
           (header_insert ''accept'' SAFARI_ACCEPT [])))"

definition safari_27 :: emulation where
  "safari_27 =
     \<lparr>emu_tls = \<lparr>cipher_list = SAFARI_27_CIPHERS, sigalgs_list = SAFARI_27_SIGALGS,
        curves_list = SAFARI_27_CURVES, alpn_protocols = [HTTP2, HTTP1],
        alps_protocols = None, alps_use_new_codepoint = False, permute_extensions = False,
        grease_enabled = True, enable_ech_grease = False, pre_shared_key = True,
        enable_ocsp_stapling = True, enable_sct = True, certificate_compressors = [Zlib]\<rparr>,
      emu_http2 = \<lparr>header_table_size = None, enable_push = Some False,
        max_concurrent_streams = Some SAFARI_MAX_CONCURRENT_STREAMS,
        initial_window_size = Some SAFARI_INITIAL_STREAM_WINDOW,
        max_header_list_size = None, no_rfc7540_priorities = Some True,
        initial_connection_window_size = SAFARI_CONNECTION_WINDOW,
        settings_order = SAFARI_SETTINGS_IDS, headers_pseudo_order = SAFARI_PSEUDO_IDS,
        headers_stream_dependency = None\<rparr>,
      emu_headers = safari_default_headers, emu_order = order_map safari_header_names,
      emu_group = ''safari''\<rparr>"

definition for_kind :: "browser_kind \<Rightarrow> emulation" where
  "for_kind k = (case k of Chrome _ \<Rightarrow> chrome | Safari _ \<Rightarrow> safari_27)"

section \<open>Coherence of the entries\<close>

definition profile_headers :: "string list" where
  "profile_headers = [''user-agent'', ''accept-language'', ''sec-ch-ua'', ''sec-ch-ua-mobile'',
     ''sec-ch-ua-platform'']"

definition entry_coherent :: "emulation \<Rightarrow> bool" where
  "entry_coherent e \<longleftrightarrow>
     list_all (\<lambda>n. n \<notin> set profile_headers) (map fst (emu_headers e)) \<and>
     list_all (\<lambda>n. n \<in> set (emu_order e)) (map fst (emu_headers e)) \<and>
     ''user-agent'' \<in> set (emu_order e) \<and> ''accept-language'' \<in> set (emu_order e) \<and>
     distinct (emu_order e) \<and> distinct (map fst (emu_headers e)) \<and>
     distinct (settings_order (emu_http2 e)) \<and> length (settings_order (emu_http2 e)) = 8 \<and>
     distinct (headers_pseudo_order (emu_http2 e)) \<and> length (headers_pseudo_order (emu_http2 e)) = 4"

lemma entries_coherent: "entry_coherent chrome" "entry_coherent safari_27"
  by code_simp+

text \<open>The cipher count the fingerprint states is the number of suites in the list.\<close>

lemma cipher_counts:
  "dec (length (split_char (CHR '':'') CHROME_CIPHERS)) = take 2 (drop 4 CHROME_JA4)"
  "dec (length (split_char (CHR '':'') SAFARI_27_CIPHERS)) = take 2 (drop 4 SAFARI_27_JA4)"
  "distinct (split_char (CHR '':'') CHROME_CIPHERS)"
  "distinct (split_char (CHR '':'') SAFARI_27_CIPHERS)"
  by code_simp+

lemma connection_windows:
  "CHROME_CONNECTION_WINDOW = 65535 + 15663105" "SAFARI_CONNECTION_WINDOW = 65535 + 10420225"
  by (simp_all add: CHROME_CONNECTION_WINDOW_def SAFARI_CONNECTION_WINDOW_def)

text \<open>An emulation never overrides the identity: whichever browser a profile claims, the entry
  chosen for it sets none of the headers that belong to the profile, places every header it sets and
  the caller's User-Agent and language at a fixed position of an order without repetition, and uses
  the cipher list whose length its recorded fingerprint states.\<close>

theorem emulation_leaves_identity:
  "set (map fst (emu_headers (for_kind k))) \<inter> set profile_headers = {} \<and>
   set (map fst (emu_headers (for_kind k))) \<subseteq> set (emu_order (for_kind k)) \<and>
   {''user-agent'', ''accept-language''} \<subseteq> set (emu_order (for_kind k)) \<and>
   distinct (emu_order (for_kind k)) \<and>
   dec (length (split_char (CHR '':'') (cipher_list (emu_tls (for_kind k)))))
     = take 2 (drop 4 (case k of Chrome _ \<Rightarrow> CHROME_JA4 | Safari _ \<Rightarrow> SAFARI_27_JA4))"
proof -
  have "entry_coherent (for_kind k)" using entries_coherent by (simp add: for_kind_def split: browser_kind.splits)
  moreover have "dec (length (split_char (CHR '':'') (cipher_list (emu_tls (for_kind k)))))
     = take 2 (drop 4 (case k of Chrome _ \<Rightarrow> CHROME_JA4 | Safari _ \<Rightarrow> SAFARI_27_JA4))"
    using cipher_counts by (simp add: for_kind_def chrome_def safari_27_def split: browser_kind.splits)
  ultimately show ?thesis unfolding entry_coherent_def list_all_iff by blast
qed

end
