(* ===== verification/Client.thy ===== *)
theory Client
  imports ClientHints Emulation
begin

text \<open>
  Models \<open>src/src/client.rs\<close>: the builder of an impersonating client. Which strings are valid header
  values is decided by the HTTP library: it is the argument \<open>hv_ok\<close>.
\<close>

record client_builder =
  cb_emulation :: emulation
  cb_headers :: "(string \<times> string) list"

definition insert_valid ::
    "(string \<Rightarrow> bool) \<Rightarrow> string \<times> string \<Rightarrow> (string \<times> string) list \<Rightarrow> (string \<times> string) list" where
  "insert_valid hv_ok kv hs = (if hv_ok (snd kv) then header_insert (fst kv) (snd kv) hs else hs)"

definition impersonation_client :: "(string \<Rightarrow> bool) \<Rightarrow> browser_profile \<Rightarrow> client_builder" where
  "impersonation_client hv_ok p =
     (let h0 = insert_valid hv_ok (''user-agent'', user_agent p) [];
          h1 = insert_valid hv_ok (''accept-language'', accept_language p) h0;
          h2 = (case for_profile p of
                  None \<Rightarrow> h1
                | Some h \<Rightarrow>
                    fold (insert_valid hv_ok)
                      [(''sec-ch-ua'', sec_ch_ua h), (''sec-ch-ua-mobile'', sec_ch_ua_mobile h),
                       (''sec-ch-ua-platform'', sec_ch_ua_platform h)] h1)
      in \<lparr>cb_emulation = for_kind (browser_kind p), cb_headers = h2\<rparr>)"

lemma map_of_header_insert: "map_of (header_insert k v hs) = (map_of hs)(k \<mapsto> v)"
proof (cases "k \<in> fst ` set hs")
  case True
  then show ?thesis
  proof (induction hs)
    case (Cons h hs)
    show ?case
    proof (cases "k \<in> fst ` set hs")
      case True
      then show ?thesis using Cons by (cases h) (auto simp: header_insert_def fun_eq_iff)
    next
      case False
      then have "map (\<lambda>(a, b). if a = k then (a, v) else (a, b)) hs = hs"
        by (intro map_idI) (auto simp: image_iff split: prod.splits)
      then show ?thesis using Cons False by (cases h) (auto simp: header_insert_def fun_eq_iff)
    qed
  qed simp
next
  case False
  then have "map_of hs k = None" by (simp add: map_of_eq_None_iff)
  with False show ?thesis by (auto simp: header_insert_def map_add_def fun_eq_iff split: option.splits)
qed

lemma map_of_insert_valid:
  "map_of (insert_valid hv_ok kv hs)
     = (if hv_ok (snd kv) then (map_of hs)(fst kv \<mapsto> snd kv) else map_of hs)"
  by (simp add: insert_valid_def map_of_header_insert)

lemma client_headers:
  "map_of (cb_headers (impersonation_client hv_ok p)) ''user-agent''
     = (if hv_ok (user_agent p) then Some (user_agent p) else None)"
  "map_of (cb_headers (impersonation_client hv_ok p)) ''accept-language''
     = (if hv_ok (accept_language p) then Some (accept_language p) else None)"
  "map_of (cb_headers (impersonation_client hv_ok p)) ''sec-ch-ua''
     = Option.bind (for_profile p) (\<lambda>h. if hv_ok (sec_ch_ua h) then Some (sec_ch_ua h) else None)"
  "map_of (cb_headers (impersonation_client hv_ok p)) ''sec-ch-ua-mobile''
     = Option.bind (for_profile p)
         (\<lambda>h. if hv_ok (sec_ch_ua_mobile h) then Some (sec_ch_ua_mobile h) else None)"
  "map_of (cb_headers (impersonation_client hv_ok p)) ''sec-ch-ua-platform''
     = Option.bind (for_profile p)
         (\<lambda>h. if hv_ok (sec_ch_ua_platform h) then Some (sec_ch_ua_platform h) else None)"
  by (simp_all add: impersonation_client_def Let_def map_of_insert_valid split: option.splits)

lemma client_emulation: "cb_emulation (impersonation_client hv_ok p) = for_kind (browser_kind p)"
  by (simp add: impersonation_client_def Let_def)

text \<open>The plain client presents one browser: the emulation, the User-Agent and the client hints
  are all taken from the same profile. With values the HTTP library accepts it sends the profile's
  User-Agent and language, the hint headers derived from them exactly when the wire fingerprint is
  Chrome's, and none when it is Safari's.\<close>

theorem client_presents_profile:
  assumes "\<And>v. list_all (\<lambda>c. 32 \<le> byte c \<and> byte c \<le> 126) v \<Longrightarrow> hv_ok v"
    and "list_all (\<lambda>c. 32 \<le> byte c \<and> byte c \<le> 126) (user_agent p)"
    and "list_all (\<lambda>c. 32 \<le> byte c \<and> byte c \<le> 126) (accept_language p)"
  shows "map_of (cb_headers (impersonation_client hv_ok p)) ''user-agent'' = Some (user_agent p) \<and>
    map_of (cb_headers (impersonation_client hv_ok p)) ''accept-language'' = Some (accept_language p) \<and>
    map_of (cb_headers (impersonation_client hv_ok p)) ''sec-ch-ua''
      = map_option sec_ch_ua (for_profile p) \<and>
    (map_of (cb_headers (impersonation_client hv_ok p)) ''sec-ch-ua'' \<noteq> None \<longleftrightarrow>
      cb_emulation (impersonation_client hv_ok p) = chrome)"
proof -
  have dec: "list_all (\<lambda>c. 32 \<le> byte c \<and> byte c \<le> 126) (dec n)" for n
    using dec_digits [of n] by (auto simp: list_all_iff is_digit_def)
  have "hv_ok (sec_ch_ua h)" if "for_profile p = Some h" for h
  proof -
    have "\<exists>m. ch_major_version h = dec m" using that by (auto simp: for_profile_Some)
    then obtain m where "ch_major_version h = dec m" ..
    then show ?thesis
      using dec [of m] by (intro assms(1))
        (simp add: sec_ch_ua_def brands_def GREASE_BRAND_def dquote_def byte_def list_all_append)
  qed
  then have "map_of (cb_headers (impersonation_client hv_ok p)) ''sec-ch-ua''
      = map_option sec_ch_ua (for_profile p)"
    by (cases "for_profile p") (simp_all add: client_headers)
  moreover have "chrome \<noteq> safari_27" by (simp add: chrome_def safari_27_def)
  then have "for_profile p \<noteq> None \<longleftrightarrow> for_kind (browser_kind p) = chrome"
    by (auto simp: for_profile_def for_kind_def Let_def split: browser_kind.splits)
  ultimately show ?thesis using assms by (simp add: client_headers client_emulation)
qed

theorem client_presents_profile_witness:
  "let p = random_profile \<lparr>d_ua = 1, d_coin = True, d_dims = 0, d_cores = 0, d_memory = 0\<rparr>;
       c = impersonation_client (list_all (\<lambda>c. 32 \<le> byte c \<and> byte c \<le> 126)) p in
   map_of (cb_headers c) ''user-agent'' = Some (user_agent p) \<and>
   map_of (cb_headers c) ''accept-language'' = Some ''en-US,en;q=0.9''"
proof -
  let ?p = "random_profile \<lparr>d_ua = 1, d_coin = True, d_dims = 0, d_cores = 0, d_memory = 0\<rparr>"
  have u: "list_all (\<lambda>c. 32 \<le> byte c \<and> byte c \<le> 126) (user_agent ?p)" by code_simp
  have a: "accept_language ?p = ''en-US,en;q=0.9''" by (simp add: random_profile_def Let_def)
  have al: "list_all (\<lambda>c. 32 \<le> byte c \<and> byte c \<le> 126) (accept_language ?p)"
    unfolding a by code_simp
  show ?thesis
    using client_presents_profile [of "list_all (\<lambda>c. 32 \<le> byte c \<and> byte c \<le> 126)", OF _ u al] a
    by (simp add: Let_def)
qed

end
