(* ===== verification/Mitigation.thy ===== *)
theory Mitigation
  imports Challenge
begin

text \<open>
  Models \<open>src/src/challenge/mitigation.rs\<close>: the policy that maps a signal and the number of attempts
  already made to an action, with its exponential back-off at 64 bits. The locale \<open>decision\<close> is the
  contract the challenge loop of the scraper relies on; the policy of the source interprets it.
\<close>

section \<open>Policy and decision\<close>

datatype action = Proceed | Wait duration u32 | RotateProxy u32 | Fail string

record mitigation_policy =
  max_attempts :: u32
  base_delay :: duration
  max_delay :: duration
  can_rotate_proxy :: bool

definition DEFAULT_MAX_ATTEMPTS :: u32 where "DEFAULT_MAX_ATTEMPTS = 3"
definition DEFAULT_BASE_DELAY :: duration where "DEFAULT_BASE_DELAY = from_secs 2"
definition DEFAULT_MAX_DELAY :: duration where "DEFAULT_MAX_DELAY = from_secs 15"

definition policy_default :: mitigation_policy where
  "policy_default = \<lparr>max_attempts = DEFAULT_MAX_ATTEMPTS, base_delay = DEFAULT_BASE_DELAY,
                     max_delay = DEFAULT_MAX_DELAY, can_rotate_proxy = False\<rparr>"

definition policy_new :: "u32 \<Rightarrow> mitigation_policy" where
  "policy_new n = policy_default\<lparr>max_attempts := n\<rparr>"

definition with_proxy_rotation :: "bool \<Rightarrow> mitigation_policy \<Rightarrow> mitigation_policy" where
  "with_proxy_rotation b p = p\<lparr>can_rotate_proxy := b\<rparr>"

definition backoff :: "mitigation_policy \<Rightarrow> u32 \<Rightarrow> duration" where
  "backoff p attempt =
     from_secs (min (sat_mul (as_secs (base_delay p)) (sat_pow 2 (unat attempt)))
                    (as_secs (max_delay p)))"

text \<open>The \<open>Debug\<close> rendering of a kind, as the failure message prints it.\<close>

fun kind_debug :: "challenge_kind \<Rightarrow> string" where
  "kind_debug NoChallenge = ''None''"
| "kind_debug IuamV1 = ''IuamV1''"
| "kind_debug JsChallenge = ''JsChallenge''"
| "kind_debug Turnstile = ''Turnstile''"
| "kind_debug AccessDenied = ''AccessDenied''"
| "kind_debug RateLimited = ''RateLimited''"
| "kind_debug UnknownChallenge = ''Unknown''"

definition decide :: "mitigation_policy \<Rightarrow> challenge_signal \<Rightarrow> u32 \<Rightarrow> action" where
  "decide p s attempt =
     (case sig_kind s of
        NoChallenge \<Rightarrow> Proceed
      | AccessDenied \<Rightarrow>
          if can_rotate_proxy p \<and> attempt < max_attempts p then RotateProxy (attempt + 1)
          else Fail (''access denied (e.g. Cloudflare error 1020); ''
                     @ ''no healthy proxy left to rotate to'')
      | kind \<Rightarrow>
          if max_attempts p \<le> attempt
          then Fail (''challenge '' @ kind_debug kind @ '' still present after ''
                     @ dec (unat (max_attempts p)) @ '' attempt(s)'')
          else Wait (backoff p attempt) (attempt + 1))"

section \<open>Back-off\<close>

lemma unat_2_64 [simp]: "unat (2 :: u64) = 2"
  by simp

lemma unat_min: "unat (min x y) = min (unat x) (unat y)"
  by (simp add: min_def word_le_nat_alt)

lemma backoff_secs:
  "unat (as_secs (backoff p a))
     = min (unat (as_secs (base_delay p)) * 2 ^ unat a) (unat (as_secs (max_delay p)))"
proof -
  let ?b = "unat (as_secs (base_delay p))" and ?m = "unat (as_secs (max_delay p))"
  let ?M = "2 ^ 64 - 1 :: nat"
  have "?m < 2 ^ LENGTH(64)" by (rule unsigned_less)
  then have m: "?m \<le> ?M" by simp
  have "unat (as_secs (backoff p a)) = min (min (?b * min (2 ^ unat a) ?M) ?M) ?m"
    by (simp add: backoff_def from_secs_def unat_min unat_simps)
  also have "\<dots> = min (?b * 2 ^ unat a) ?m"
  proof (cases "2 ^ unat a \<le> ?M")
    case True
    then show ?thesis using m by (simp add: min_def)
  next
    case big: False
    show ?thesis
    proof (cases "?b = 0")
      case False
      then have "?M \<le> ?b * ?M" "2 ^ unat a \<le> ?b * 2 ^ unat a" by simp_all
      then have "?m \<le> ?b * ?M" "?m \<le> ?b * 2 ^ unat a" using big m by linarith+
      with big m show ?thesis by (simp add: min_absorb2)
    qed simp
  qed
  finally show ?thesis .
qed

text \<open>The back-off before attempt \<open>a + 1\<close> is exactly \<open>base * 2 ^ a\<close> capped at the maximum, in
  whole seconds, for every attempt counter and every 64-bit delay: the saturating arithmetic never
  wraps to a short delay.\<close>

theorem backoff_exact:
  "unat (as_secs (backoff p a))
     = min (unat (as_secs (base_delay p)) * 2 ^ unat a) (unat (as_secs (max_delay p)))"
  by (rule backoff_secs)

lemma backoff_mono: "a \<le> b \<Longrightarrow> as_secs (backoff p a) \<le> as_secs (backoff p b)"
  by (auto simp: word_le_nat_alt backoff_secs min_le_iff_disj intro: power_increasing)

text \<open>Only whole seconds of the base delay count: a base below one second never waits.\<close>

lemma backoff_subsecond:
  "base_delay p = Duration 0 n \<Longrightarrow> backoff p a = Duration 0 0"
  by (simp add: backoff_def from_secs_def sat_mul_def)

section \<open>The contract of a decision\<close>

text \<open>
  What a caller that loops on the decision relies on: the counter it feeds back grows by one, below
  a budget, and the loop is left without error exactly on a clean signal.
\<close>

locale decision =
  fixes dcd :: "challenge_signal \<Rightarrow> u32 \<Rightarrow> action"
    and budget :: u32
  assumes wait_next: "dcd s a = Wait d a' \<Longrightarrow> a < budget \<and> a' = a + 1"
    and rotate_next: "dcd s a = RotateProxy a' \<Longrightarrow> a < budget \<and> a' = a + 1"
    and proceed_iff: "dcd s a = Proceed \<longleftrightarrow> \<not> is_challenge s"
begin

lemma next_attempt:
  assumes "dcd s a = Wait d a' \<or> dcd s a = RotateProxy a'"
  shows "unat a' = Suc (unat a)" and "unat a' \<le> unat budget"
proof -
  have "a < budget" "a' = a + 1" using assms wait_next rotate_next by blast+
  then show "unat a' = Suc (unat a)" by (simp add: unat_add_one)
  with \<open>a < budget\<close> show "unat a' \<le> unat budget" by (simp add: word_less_nat_alt)
qed

lemma remaining_decreases:
  assumes "dcd s a = Wait d a' \<or> dcd s a = RotateProxy a'"
  shows "unat budget - unat a' < unat budget - unat a"
  using next_attempt [OF assms] by linarith

lemma challenged_cases:
  assumes "is_challenge s"
  obtains (wait) d where "dcd s a = Wait d (a + 1)" "a < budget"
    | (rotate) "dcd s a = RotateProxy (a + 1)" "a < budget"
    | (fail) r where "dcd s a = Fail r"
  using assms wait_next rotate_next proceed_iff by (cases "dcd s a") blast+

lemma exhausted_fails: "is_challenge s \<Longrightarrow> budget \<le> a \<Longrightarrow> \<exists>r. dcd s a = Fail r"
  by (rule challenged_cases [of s a]) auto

end

interpretation policy: decision "decide p" "max_attempts p" for p
  by unfold_locales
    (auto simp: decide_def is_challenge_def split: challenge_kind.splits if_splits)

text \<open>The decision is total and spends a bounded budget: a clean signal always proceeds, a
  challenge never does, every wait and every rotation moves the counter from below the budget to the
  next value, and rotation is asked for only for a hard block and only when it is available.\<close>

theorem decide_contract:
  "(decide p s a = Proceed \<longleftrightarrow> \<not> is_challenge s) \<and>
   (decide p s a = Wait d a' \<longrightarrow>
      unat a' = Suc (unat a) \<and> unat a' \<le> unat (max_attempts p) \<and> sig_kind s \<noteq> AccessDenied \<and>
      as_secs d \<le> as_secs (max_delay p)) \<and>
   (decide p s a = RotateProxy a' \<longrightarrow>
      unat a' = Suc (unat a) \<and> unat a' \<le> unat (max_attempts p) \<and> sig_kind s = AccessDenied \<and>
      can_rotate_proxy p)"
proof (intro conjI impI)
  show "decide p s a = Proceed \<longleftrightarrow> \<not> is_challenge s" by (rule policy.proceed_iff)
next
  assume w: "decide p s a = Wait d a'"
  show "unat a' = Suc (unat a)" "unat a' \<le> unat (max_attempts p)"
    using policy.next_attempt w by blast+
  show "sig_kind s \<noteq> AccessDenied" "as_secs d \<le> as_secs (max_delay p)"
    using w by (auto simp: decide_def backoff_def from_secs_def
        split: challenge_kind.splits if_splits)
next
  assume r: "decide p s a = RotateProxy a'"
  show "unat a' = Suc (unat a)" "unat a' \<le> unat (max_attempts p)"
    using policy.next_attempt r by blast+
  show "sig_kind s = AccessDenied" "can_rotate_proxy p"
    using r by (auto simp: decide_def split: challenge_kind.splits if_splits)
qed

theorem decide_contract_witness:
  "decide policy_default (signal_none\<lparr>sig_kind := JsChallenge\<rparr>) 1 = Wait (Duration 4 0) 2 \<and>
   unat (2::u32) = Suc (unat (1::u32))"
proof -
  have w: "decide policy_default (signal_none\<lparr>sig_kind := JsChallenge\<rparr>) 1 = Wait (Duration 4 0) 2"
    by (simp add: decide_def policy_default_def signal_none_def DEFAULT_MAX_ATTEMPTS_def
        backoff_def DEFAULT_BASE_DELAY_def DEFAULT_MAX_DELAY_def from_secs_def sat_mul_def
        sat_pow.simps word_le_nat_alt)
  show ?thesis using decide_contract [of policy_default _ 1] w by blast
qed

end
