(* ===== verification/Events.thy ===== *)
theory Events
  imports Mitigation
begin

text \<open>
  Models \<open>src/src/error.rs\<close> and \<open>src/src/events.rs\<close>: the error type with its rendering, the
  observability events with theirs, and the level the logging sink picks. The errors of the HTTP
  library and of the operating system are carried as their rendered text.
\<close>

section \<open>Errors\<close>

datatype error =
    BrowserError string
  | Cdp int string "string option"
  | InteractionError string
  | ProxyBindFailed string
  | HttpClientError string
  | Challenge string
  | StateStore string
  | ConfigError string
  | JoinError string
  | TlsError string
  | Internal string

definition dec_int :: "int \<Rightarrow> string" where
  "dec_int n = (if n < 0 then CHR ''-'' # dec (nat (- n)) else dec (nat n))"

fun error_display :: "error \<Rightarrow> string" where
  "error_display (BrowserError m) = ''Browser automation error: '' @ m"
| "error_display (Cdp code m data) =
     ''CDP error '' @ dec_int code @ '': '' @ m
     @ (case data of None \<Rightarrow> '''' | Some d \<Rightarrow> '' ('' @ d @ '')'')"
| "error_display (InteractionError m) = ''Interaction emulation error: '' @ m"
| "error_display (ProxyBindFailed m) = ''Proxy initialization failed: '' @ m"
| "error_display (HttpClientError m) = ''HTTP client error: '' @ m"
| "error_display (Challenge m) = ''Unsolved challenge: '' @ m"
| "error_display (StateStore m) = ''State store error: '' @ m"
| "error_display (ConfigError m) = ''Configuration error: '' @ m"
| "error_display (JoinError m) = ''Internal join error: '' @ m"
| "error_display (TlsError m) = ''TLS error: '' @ m"
| "error_display (Internal m) = ''Internal error: '' @ m"

section \<open>Rendering a duration\<close>

text \<open>
  The \<open>Debug\<close> rendering of a duration: the largest unit that fits, the fraction below it without
  trailing zeros. \<open>pad n m\<close> is \<open>m\<close> in at least \<open>n\<close> digits.
\<close>

definition pad :: "nat \<Rightarrow> nat \<Rightarrow> string" where
  "pad n m = replicate (n - length (dec m)) (CHR ''0'') @ dec m"

definition fraction :: "nat \<Rightarrow> nat \<Rightarrow> string" where
  "fraction digits m = (if m = 0 then '''' else CHR ''.'' # trim_end_char (CHR ''0'') (pad digits m))"

definition duration_debug :: "duration \<Rightarrow> string" where
  "duration_debug d =
     (let s = unat (as_secs d); n = unat (subsec_nanos d) in
      if 0 < s then dec s @ fraction 9 n @ ''s''
      else if 1000000 \<le> n then dec (n div 1000000) @ fraction 6 (n mod 1000000) @ ''ms''
      else if 1000 \<le> n
      then dec (n div 1000) @ fraction 3 (n mod 1000) @ map (char_of :: nat \<Rightarrow> char) [194, 181] @ ''s''
      else dec n @ ''ns'')"

lemma duration_debug_secs: "0 < unat s \<Longrightarrow> duration_debug (from_secs s) = dec (unat s) @ ''s''"
  by (simp add: duration_debug_def fraction_def)

section \<open>Events\<close>

datatype scraper_event =
    ChallengeDetected "string option" challenge_kind
  | Waiting "string option" challenge_kind duration
  | ProxyRotated "string option" "string option"
  | ProfileRotated string
  | SessionEscalated string
  | SessionDemoted string
  | SolveSucceeded "string option" u32 bool
  | SolveFailed "string option" challenge_kind string

definition or_unknown :: "string \<Rightarrow> string option \<Rightarrow> string" where
  "or_unknown d h = (case h of None \<Rightarrow> d | Some x \<Rightarrow> x)"

definition bool_text :: "bool \<Rightarrow> string" where
  "bool_text b = (if b then ''true'' else ''false'')"

fun event_display :: "scraper_event \<Rightarrow> string" where
  "event_display (ChallengeDetected h k) =
     ''challenge detected on '' @ or_unknown ''<unknown>'' h @ '': '' @ kind_debug k"
| "event_display (Waiting h k d) =
     ''waiting '' @ duration_debug d @ '' for '' @ kind_debug k @ '' on '' @ or_unknown ''<unknown>'' h"
| "event_display (ProxyRotated h u) =
     ''rotated egress proxy to '' @ or_unknown ''<none>'' u @ '' for '' @ or_unknown ''<unknown>'' h"
| "event_display (ProfileRotated ua) = ''rotated browser profile (user-agent: '' @ ua @ '')''"
| "event_display (SessionEscalated r) = ''escalated to the browser ('' @ r @ '')''"
| "event_display (SessionDemoted r) = ''demoted to HTTP, browser shut down ('' @ r @ '')''"
| "event_display (SolveSucceeded h n c) =
     ''solve succeeded on '' @ or_unknown ''<unknown>'' h @ '' (attempts='' @ dec (unat n)
     @ '', challenged='' @ bool_text c @ '')''"
| "event_display (SolveFailed h k r) =
     ''solve failed on '' @ or_unknown ''<unknown>'' h @ '' ('' @ kind_debug k @ ''): '' @ r"

datatype log_level = Warn | Info | Debug

fun log_event_level :: "scraper_event \<Rightarrow> log_level" where
  "log_event_level (SolveFailed _ _ _) = Warn"
| "log_event_level (Waiting _ _ _) = Debug"
| "log_event_level _ = Info"

definition noop_emit :: "scraper_event \<Rightarrow> string list \<Rightarrow> string list" where
  "noop_emit ev out = out"

definition log_emit :: "scraper_event \<Rightarrow> (log_level \<times> string) list \<Rightarrow> (log_level \<times> string) list" where
  "log_emit ev out = out @ [(log_event_level ev, event_display ev)]"

text \<open>Distinct errors of one text render differently: the prefix names the layer.\<close>

lemma error_display_examples:
  "error_display (Cdp (- 32601) ''no such method'' None) = ''CDP error -32601: no such method''"
  "duration_debug (Duration 1 500000000) = ''1.5s''"
  "event_display (SolveSucceeded (Some ''example.com'') 2 True)
     = ''solve succeeded on example.com (attempts=2, challenged=true)''"
proof -
  show "error_display (Cdp (- 32601) ''no such method'' None) = ''CDP error -32601: no such method''"
    by (simp add: dec_int_def dec_eval)
  show "duration_debug (Duration 1 500000000) = ''1.5s''"
    by (simp add: duration_debug_def fraction_def pad_def dec.simps trim_end_char_def digit_chars digit_chars(2) [unfolded One_nat_def])
  show "event_display (SolveSucceeded (Some ''example.com'') 2 True)
     = ''solve succeeded on example.com (attempts=2, challenged=true)''" by code_simp
qed

end
