(* ===== verification/StateModel.thy ===== *)
theory StateModel
  imports Events
begin

text \<open>
  Models \<open>src/src/state/model.rs\<close>: what is remembered of a host, and how one outcome changes it.
\<close>

datatype outcome = Success | Challenged | Blocked | RateLimitedOutcome

record domain_state =
  ds_host :: string
  ds_last_outcome :: "outcome option"
  ds_last_proxy :: "string option"
  ds_successes :: u32
  ds_failures :: u32
  ds_cooldown_until :: "u64 option"
  ds_updated_at :: u64

definition domain_new :: "string \<Rightarrow> domain_state" where
  "domain_new host = \<lparr>ds_host = host, ds_last_outcome = None, ds_last_proxy = None,
     ds_successes = 0, ds_failures = 0, ds_cooldown_until = None, ds_updated_at = 0\<rparr>"

definition record_state ::
    "outcome \<Rightarrow> string option \<Rightarrow> u64 \<Rightarrow> duration \<Rightarrow> domain_state \<Rightarrow> domain_state" where
  "record_state out proxy now cooldown s =
     (let s1 = s\<lparr>ds_last_outcome := Some out,
                 ds_last_proxy := (if proxy \<noteq> None then proxy else ds_last_proxy s),
                 ds_updated_at := now\<rparr>
      in case out of
           Success \<Rightarrow> s1\<lparr>ds_successes := sat_add (ds_successes s1) 1, ds_cooldown_until := None\<rparr>
         | Challenged \<Rightarrow> s1\<lparr>ds_successes := sat_add (ds_successes s1) 1, ds_cooldown_until := None\<rparr>
         | RateLimitedOutcome \<Rightarrow>
             s1\<lparr>ds_failures := sat_add (ds_failures s1) 1,
                ds_cooldown_until := Some (sat_add now (as_secs cooldown))\<rparr>
         | Blocked \<Rightarrow> s1\<lparr>ds_failures := sat_add (ds_failures s1) 1, ds_cooldown_until := None\<rparr>)"

definition in_cooldown :: "domain_state \<Rightarrow> u64 \<Rightarrow> bool" where
  "in_cooldown s now \<longleftrightarrow> (case ds_cooldown_until s of None \<Rightarrow> False | Some u \<Rightarrow> now < u)"

definition state_cooldown_remaining :: "domain_state \<Rightarrow> u64 \<Rightarrow> duration option" where
  "state_cooldown_remaining s now =
     Option.bind (ds_cooldown_until s) (\<lambda>u.
       Option.bind (checked_sub u now) (\<lambda>secs. if 0 < secs then Some (from_secs secs) else None))"

section \<open>Tallies and cooldowns\<close>

lemma record_state_simps [simp]:
  "ds_host (record_state out px now cd s) = ds_host s"
  "ds_last_outcome (record_state out px now cd s) = Some out"
  "ds_updated_at (record_state out px now cd s) = now"
  "ds_last_proxy (record_state out px now cd s) = (if px \<noteq> None then px else ds_last_proxy s)"
  by (simp_all add: record_state_def Let_def split: outcome.splits)

definition obtained :: "outcome \<Rightarrow> bool" where
  "obtained out \<longleftrightarrow> out = Success \<or> out = Challenged"

lemma record_counts:
  "ds_successes (record_state out px now cd s)
     = (if obtained out then sat_add (ds_successes s) 1 else ds_successes s)"
  "ds_failures (record_state out px now cd s)
     = (if obtained out then ds_failures s else sat_add (ds_failures s) 1)"
  by (simp_all add: record_state_def obtained_def Let_def split: outcome.splits)

lemma remaining_iff_cooldown: "state_cooldown_remaining s t \<noteq> None \<longleftrightarrow> in_cooldown s t"
proof (cases "ds_cooldown_until s")
  case (Some u)
  have "checked_sub u t = (if t \<le> u then Some (u - t) else None)" by (simp add: checked_sub_def)
  moreover have "t \<le> u \<Longrightarrow> 0 < u - t \<longleftrightarrow> t < u"
    by (simp add: word_less_nat_alt word_le_nat_alt unat_sub)
  ultimately show ?thesis
    using Some by (auto simp: state_cooldown_remaining_def in_cooldown_def)
qed (simp add: state_cooldown_remaining_def in_cooldown_def)

type_synonym visit = "outcome \<times> string option \<times> u64 \<times> duration"

definition record_visit :: "visit \<Rightarrow> domain_state \<Rightarrow> domain_state" where
  "record_visit v s = (case v of (out, px, now, cd) \<Rightarrow> record_state out px now cd s)"

lemma record_visit_host [simp]: "ds_host (record_visit v s) = ds_host s"
  by (simp add: record_visit_def split: prod.splits)

lemma fold_visits_host [simp]: "ds_host (fold record_visit vs s) = ds_host s"
  by (induction vs arbitrary: s) simp_all

lemma fold_visits_counts:
  "unat (ds_successes (fold record_visit vs s))
     = min (unat (ds_successes s) + length (filter (obtained \<circ> fst) vs)) (2 ^ 32 - 1) \<and>
   unat (ds_failures (fold record_visit vs s))
     = min (unat (ds_failures s) + length (filter (Not \<circ> obtained \<circ> fst) vs)) (2 ^ 32 - 1)"
proof (induction vs arbitrary: s)
  case Nil
  have "unat (x :: u32) \<le> 2 ^ 32 - 1" for x
  proof -
    have "unat x < 2 ^ LENGTH(32)" by (rule unsigned_less)
    then show ?thesis by simp
  qed
  then show ?case by (simp add: min_absorb1)
next
  case (Cons v vs)
  obtain out px now cd where v: "v = (out, px, now, cd)" by (cases v) auto
  have "unat (sat_add x (1 :: u32)) = min (unat x + 1) (2 ^ 32 - 1)" for x
    by (simp add: unat_sat_add)
  then show ?case
    using Cons.IH [of "record_visit v s"] by (auto simp: v record_visit_def record_counts)
qed

text \<open>The tallies are exact until they saturate: after any sequence of visits to a host the success
  and failure counts are the numbers of obtained and failed pages, capped at the largest 32-bit
  value and never wrapped, and the host is in cooldown at a time exactly when the last visit was
  rate limited and its window, cut off at the end of time, has not passed.\<close>

theorem tallies_exact:
  "unat (ds_successes (fold record_visit vs (domain_new h)))
     = min (length (filter (obtained \<circ> fst) vs)) (2 ^ 32 - 1) \<and>
   unat (ds_failures (fold record_visit vs (domain_new h)))
     = min (length (filter (Not \<circ> obtained \<circ> fst) vs)) (2 ^ 32 - 1) \<and>
   (state_cooldown_remaining (record_state out px now cd s) t \<noteq> None \<longleftrightarrow>
      out = RateLimitedOutcome \<and> unat t < min (unat now + unat (as_secs cd)) (2 ^ 64 - 1))"
proof -
  have "state_cooldown_remaining (record_state out px now cd s) t \<noteq> None \<longleftrightarrow>
      out = RateLimitedOutcome \<and> unat t < min (unat now + unat (as_secs cd)) (2 ^ 64 - 1)"
    unfolding remaining_iff_cooldown
    by (auto simp: in_cooldown_def record_state_def Let_def word_less_nat_alt unat_sat_add
        split: outcome.splits)
  then show ?thesis using fold_visits_counts [of vs "domain_new h"] by (simp add: domain_new_def)
qed

end
