(* ===== verification/StateStore.thy ===== *)
theory StateStore
  imports StateModel "HOL-Library.AList" "HOL-Library.List_Lexorder" "HOL-Library.Char_ord"
begin

text \<open>
  Models \<open>src/src/state/store.rs\<close>, \<open>json_store.rs\<close> and \<open>redb_store.rs\<close>. A host map is an association
  list. The locales are the port \<open>StateStore\<close>: its required operations with the laws a caller relies
  on, and its \<open>update\<close>, whose default is derived from the others; the in-memory and the JSON store
  interpret them. The JSON store's file system is modelled step by step, with the point where an
  input/output error strikes as an argument; the encoder and the \<open>redb\<close> database are arguments.
\<close>

section \<open>The port\<close>

text \<open>The trait's default method, over the store's two required operations: a read, the closure, a write.\<close>

definition default_update ::
    "('s \<Rightarrow> string \<Rightarrow> error + domain_state option) \<Rightarrow> (domain_state \<Rightarrow> 's \<Rightarrow> (error + unit) \<times> 's) \<Rightarrow>
     string \<Rightarrow> (domain_state \<Rightarrow> domain_state) \<Rightarrow> 's \<Rightarrow> (error + domain_state) \<times> 's" where
  "default_update get put h f s =
     (case get s h of
        Inl e \<Rightarrow> (Inl e, s)
      | Inr cur \<Rightarrow>
          (let nxt = f (case cur of None \<Rightarrow> domain_new h | Some st \<Rightarrow> st) in
           case put nxt s of (Inl e, s') \<Rightarrow> (Inl e, s') | (Inr _, s') \<Rightarrow> (Inr nxt, s')))"

locale basic_store =
  fixes get :: "'s \<Rightarrow> string \<Rightarrow> error + domain_state option"
    and put :: "domain_state \<Rightarrow> 's \<Rightarrow> (error + unit) \<times> 's"
    and remv :: "string \<Rightarrow> 's \<Rightarrow> (error + unit) \<times> 's"
    and contents :: "'s \<Rightarrow> string \<rightharpoonup> domain_state" and inv :: "'s \<Rightarrow> bool"
  assumes get_contents: "inv s \<Longrightarrow> get s h = Inr c \<Longrightarrow> c = contents s h"
    and put_inv: "inv s \<Longrightarrow> put st s = (r, s') \<Longrightarrow> inv s'"
    and put_contents: "inv s \<Longrightarrow> put st s = (Inr u, s') \<Longrightarrow> contents s' = (contents s)(ds_host st \<mapsto> st)"
    and remv_inv: "inv s \<Longrightarrow> remv h s = (r, s') \<Longrightarrow> inv s'"
    and remv_contents: "inv s \<Longrightarrow> remv h s = (Inr u, s') \<Longrightarrow> contents s' = (contents s)(h := None)"
    and keyed: "inv s \<Longrightarrow> contents s h = Some st \<Longrightarrow> ds_host st = h"

locale state_store = basic_store get put remv contents inv
  for get :: "'s \<Rightarrow> string \<Rightarrow> error + domain_state option" and put remv contents inv +
  fixes upd :: "string \<Rightarrow> (domain_state \<Rightarrow> domain_state) \<Rightarrow> 's \<Rightarrow> (error + domain_state) \<times> 's"
  assumes upd_inv: "inv s \<Longrightarrow> upd h f s = (r, s') \<Longrightarrow> inv s'"
    and upd_contents: "inv s \<Longrightarrow> upd h f s = (Inr st, s') \<Longrightarrow>
      st = f (case contents s h of None \<Rightarrow> domain_new h | Some x \<Rightarrow> x) \<and>
      contents s' = (contents s)(ds_host st \<mapsto> st)"
begin

fun record_visits :: "string \<Rightarrow> visit list \<Rightarrow> 's \<Rightarrow> (error + unit) \<times> 's" where
  "record_visits h [] s = (Inr (), s)"
| "record_visits h (v # vs) s =
     (case upd h (record_visit v) s of
        (Inl e, s') \<Rightarrow> (Inl e, s')
      | (Inr _, s') \<Rightarrow> record_visits h vs s')"

definition known :: "'s \<Rightarrow> string \<Rightarrow> domain_state" where
  "known s h = (case contents s h of None \<Rightarrow> domain_new h | Some x \<Rightarrow> x)"

lemma known_host: "inv s \<Longrightarrow> ds_host (known s h) = h"
  using keyed by (auto simp: known_def domain_new_def split: option.splits)

lemma record_visits_contents:
  assumes "inv s" and "record_visits h vs s = (Inr (), s')" and "vs \<noteq> []"
  shows "inv s' \<and> contents s' = (contents s)(h \<mapsto> fold record_visit vs (known s h))"
  using assms
proof (induction vs arbitrary: s)
  case (Cons v vs)
  obtain st s1 where u: "upd h (record_visit v) s = (Inr st, s1)"
      and rest: "record_visits h vs s1 = (Inr (), s')"
    using Cons.prems(2) by (auto split: prod.splits sum.splits)
  have inv: "inv s1" using upd_inv [OF Cons.prems(1) u] .
  have st: "st = record_visit v (known s h)"
      and c1: "contents s1 = (contents s)(ds_host st \<mapsto> st)"
    using upd_contents [OF Cons.prems(1) u] by (auto simp: known_def)
  then have host: "ds_host st = h" using known_host [OF Cons.prems(1)] by simp
  then have k1: "known s1 h = st" using c1 by (simp add: known_def)
  show ?case
  proof (cases vs)
    case Nil
    then show ?thesis using rest inv c1 st host by simp
  next
    case (Cons w ws)
    then have "vs \<noteq> []" by simp
    have c1': "contents s1 = (contents s)(h \<mapsto> st)" using c1 host by simp
    from Cons.IH [OF inv rest \<open>vs \<noteq> []\<close>] show ?thesis unfolding c1' k1 by (auto simp: st fun_eq_iff)
  qed
qed simp

end

text \<open>The default \<open>update\<close> meets the contract whenever the required operations do.\<close>

sublocale basic_store < dflt: state_store get put remv contents inv "default_update get put"
proof unfold_locales
  fix s s' h f r st
  assume s: "inv s"
  let ?cur = "case contents s h of None \<Rightarrow> domain_new h | Some x \<Rightarrow> x"
  have d: "default_update get put h f s = (case get s h of Inl e \<Rightarrow> (Inl e, s) | Inr c \<Rightarrow>
      (case put (f ?cur) s of (Inl e, s') \<Rightarrow> (Inl e, s') | (Inr _, s') \<Rightarrow> (Inr (f ?cur), s')))"
    using get_contents [OF s, of h] by (auto simp: default_update_def Let_def split: sum.split)
  show "default_update get put h f s = (r, s') \<Longrightarrow> inv s'"
    using put_inv [OF s] s unfolding d by (auto split: prod.splits sum.splits)
  show "default_update get put h f s = (Inr st, s') \<Longrightarrow> st = f ?cur \<and> contents s' = (contents s)(ds_host st \<mapsto> st)"
    using put_contents [OF s] unfolding d by (auto split: prod.splits sum.splits)
qed

section \<open>Host maps\<close>

type_synonym host_map = "(string \<times> domain_state) list"

definition hm_inv :: "host_map \<Rightarrow> bool" where
  "hm_inv m \<longleftrightarrow> distinct (map fst m) \<and> list_all (\<lambda>(h, st). ds_host st = h) m"

definition hm_insert :: "domain_state \<Rightarrow> host_map \<Rightarrow> host_map" where
  "hm_insert st m = AList.update (ds_host st) st m"

definition hm_remove :: "string \<Rightarrow> host_map \<Rightarrow> host_map" where
  "hm_remove h m = AList.delete h m"

definition hm_current :: "string \<Rightarrow> host_map \<Rightarrow> domain_state" where
  "hm_current h m = (case map_of m h of None \<Rightarrow> domain_new h | Some st \<Rightarrow> st)"

lemma map_of_hm_insert [simp]: "map_of (hm_insert st m) = (map_of m)(ds_host st \<mapsto> st)"
  by (simp add: hm_insert_def update_conv')

lemma map_of_hm_remove [simp]: "map_of (hm_remove h m) = (map_of m)(h := None)"
  by (simp add: hm_remove_def delete_conv')

lemma hm_inv_insert [simp]:
  assumes "hm_inv m"
  shows "hm_inv (hm_insert st m)"
proof -
  have "list_all (\<lambda>(h, x). ds_host x = h) m \<Longrightarrow>
      list_all (\<lambda>(h, x). ds_host x = h) (AList.update (ds_host st) st m)"
    by (induction m) auto
  then show ?thesis using assms by (simp add: hm_inv_def hm_insert_def distinct_update)
qed

lemma hm_inv_remove [simp]:
  assumes "hm_inv m"
  shows "hm_inv (hm_remove h m)"
  using assms by (simp add: hm_inv_def hm_remove_def distinct_delete)
    (auto simp: list_all_iff AList.delete_eq)

lemma hm_keyed: "hm_inv m \<Longrightarrow> map_of m h = Some st \<Longrightarrow> ds_host st = h"
  by (auto simp: hm_inv_def list_all_iff dest!: map_of_SomeD)

section \<open>The in-memory store\<close>

definition mem_get :: "host_map \<Rightarrow> string \<Rightarrow> error + domain_state option" where
  "mem_get m h = Inr (map_of m h)"

definition mem_put :: "domain_state \<Rightarrow> host_map \<Rightarrow> (error + unit) \<times> host_map" where
  "mem_put st m = (Inr (), hm_insert st m)"

definition mem_remove :: "string \<Rightarrow> host_map \<Rightarrow> (error + unit) \<times> host_map" where
  "mem_remove h m = (Inr (), hm_remove h m)"

definition mem_update ::
    "string \<Rightarrow> (domain_state \<Rightarrow> domain_state) \<Rightarrow> host_map \<Rightarrow> (error + domain_state) \<times> host_map" where
  "mem_update h f m = (let nxt = f (hm_current h m) in (Inr nxt, hm_insert nxt m))"

interpretation mem: state_store mem_get mem_put mem_remove map_of hm_inv mem_update
  by unfold_locales
    (auto simp: mem_get_def mem_put_def mem_remove_def mem_update_def hm_current_def Let_def hm_keyed)

section \<open>The JSON store\<close>

text \<open>Where an input/output error strikes one flush; \<open>FailWrite n\<close> after \<open>n\<close> bytes.\<close>

datatype io_outcome = IoOk | FailCreate string | FailWrite nat string | FailSync string
  | FailRename string

record json_fs =
  fs_target :: "u8 list option"
  fs_temp :: "u8 list option"

definition store_err :: "string \<Rightarrow> string \<Rightarrow> error" where
  "store_err op e = StateStore (''json state '' @ op @ '': '' @ e)"

text \<open>
  The states the file system goes through while \<open>bytes\<close> are written over the target: create, write,
  flush, rename, and the clean-up after an error.
\<close>

definition write_then_rename :: "io_outcome \<Rightarrow> u8 list \<Rightarrow> json_fs \<Rightarrow> (string + unit) \<times> json_fs list" where
  "write_then_rename io bytes fs =
     (let created = fs\<lparr>fs_temp := Some []\<rparr>; written = fs\<lparr>fs_temp := Some bytes\<rparr>;
          renamed = \<lparr>fs_target = Some bytes, fs_temp = None\<rparr>; cleaned = fs\<lparr>fs_temp := None\<rparr> in
      case io of
        IoOk \<Rightarrow> (Inr (), [created, written, renamed])
      | FailCreate e \<Rightarrow> (Inl e, [cleaned])
      | FailWrite n e \<Rightarrow> (Inl e, [created, fs\<lparr>fs_temp := Some (take n bytes)\<rparr>, cleaned])
      | FailSync e \<Rightarrow> (Inl e, [created, written, cleaned])
      | FailRename e \<Rightarrow> (Inl e, [created, written, cleaned]))"

definition sorted_records :: "host_map \<Rightarrow> domain_state list" where
  "sorted_records m = sort_key ds_host (map snd m)"

record json_store =
  js_map :: host_map
  js_fs :: json_fs

definition flush ::
    "(domain_state list \<Rightarrow> u8 list) \<Rightarrow> io_outcome \<Rightarrow> json_store \<Rightarrow> (error + unit) \<times> json_store" where
  "flush enc io s =
     (case write_then_rename io (enc (sorted_records (js_map s))) (js_fs s) of
        (r, states) \<Rightarrow>
          (case r of Inl e \<Rightarrow> Inl (store_err ''write state file'' e) | Inr u \<Rightarrow> Inr u,
           s\<lparr>js_fs := last states\<rparr>))"

definition json_get :: "json_store \<Rightarrow> string \<Rightarrow> error + domain_state option" where
  "json_get s h = Inr (map_of (js_map s) h)"

definition json_put ::
    "(domain_state list \<Rightarrow> u8 list) \<Rightarrow> io_outcome \<Rightarrow> domain_state \<Rightarrow> json_store \<Rightarrow> (error + unit) \<times> json_store"
where
  "json_put enc io st s = flush enc io (s\<lparr>js_map := hm_insert st (js_map s)\<rparr>)"

definition json_remove ::
    "(domain_state list \<Rightarrow> u8 list) \<Rightarrow> io_outcome \<Rightarrow> string \<Rightarrow> json_store \<Rightarrow> (error + unit) \<times> json_store"
where
  "json_remove enc io h s =
     (if map_of (js_map s) h = None then (Inr (), s)
      else flush enc io (s\<lparr>js_map := hm_remove h (js_map s)\<rparr>))"

definition json_update ::
    "(domain_state list \<Rightarrow> u8 list) \<Rightarrow> io_outcome \<Rightarrow> string \<Rightarrow> (domain_state \<Rightarrow> domain_state) \<Rightarrow>
     json_store \<Rightarrow> (error + domain_state) \<times> json_store"
where
  "json_update enc io h f s =
     (let nxt = f (hm_current h (js_map s)) in
      case flush enc io (s\<lparr>js_map := hm_insert nxt (js_map s)\<rparr>) of
        (Inl e, s') \<Rightarrow> (Inl e, s')
      | (Inr _, s') \<Rightarrow> (Inr nxt, s'))"

definition is_ascii_whitespace :: "u8 \<Rightarrow> bool" where
  "is_ascii_whitespace b \<longleftrightarrow> b = 9 \<or> b = 10 \<or> b = 12 \<or> b = 13 \<or> b = 32"

text \<open>What \<open>fs::read\<close> finds: nothing, an error, or the bytes.\<close>

datatype read_outcome = NotFound | ReadFailed string | ReadBytes "u8 list"

definition load ::
    "(u8 list \<Rightarrow> string + domain_state list) \<Rightarrow> read_outcome \<Rightarrow> error + host_map" where
  "load dcode r =
     (case r of
        NotFound \<Rightarrow> Inr []
      | ReadFailed e \<Rightarrow> Inl (store_err ''read state file'' e)
      | ReadBytes bytes \<Rightarrow>
          if list_all is_ascii_whitespace bytes then Inr []
          else (case dcode bytes of
                  Inl e \<Rightarrow> Inl (store_err ''decode'' e)
                | Inr records \<Rightarrow> Inr (fold hm_insert records [])))"

definition json_open ::
    "(u8 list \<Rightarrow> string + domain_state list) \<Rightarrow> read_outcome \<Rightarrow> json_fs \<Rightarrow> error + json_store" where
  "json_open dcode r fs = andthen (load dcode r) (\<lambda>m. Inr \<lparr>js_map = m, js_fs = fs\<rparr>)"

definition json_inv :: "json_store \<Rightarrow> bool" where
  "json_inv s \<longleftrightarrow> hm_inv (js_map s)"

definition json_contents :: "json_store \<Rightarrow> string \<rightharpoonup> domain_state" where
  "json_contents s = map_of (js_map s)"

lemma flush_map [simp]: "js_map (snd (flush enc io s)) = js_map s"
  by (simp add: flush_def split: prod.splits)

lemma flush_map_eq: "flush enc io s = (r, s') \<Longrightarrow> js_map s' = js_map s"
  using flush_map [of enc io s] by simp

interpretation json: state_store json_get "json_put enc io1" "json_remove enc io2" json_contents
  json_inv "json_update enc io3" for enc io1 io2 io3
proof unfold_locales
  fix s s' st h r u f c
  assume s: "json_inv s"
  show "json_get s h = Inr c \<Longrightarrow> c = json_contents s h" by (simp add: json_get_def json_contents_def)
  show "json_put enc io1 st s = (r, s') \<Longrightarrow> json_inv s'"
    using s by (auto simp: json_put_def json_inv_def dest!: flush_map_eq)
  show "json_put enc io1 st s = (Inr u, s') \<Longrightarrow> json_contents s' = (json_contents s)(ds_host st \<mapsto> st)"
    by (auto simp: json_put_def json_contents_def dest!: flush_map_eq)
  show "json_remove enc io2 h s = (r, s') \<Longrightarrow> json_inv s'"
    using s by (auto simp: json_remove_def json_inv_def dest!: flush_map_eq split: if_splits)
  show "json_remove enc io2 h s = (Inr u, s') \<Longrightarrow> json_contents s' = (json_contents s)(h := None)"
    by (auto simp: json_remove_def json_contents_def fun_upd_idem dest!: flush_map_eq split: if_splits)
  show "json_contents s h = Some st \<Longrightarrow> ds_host st = h"
    using s by (simp add: json_contents_def json_inv_def hm_keyed)
  show "json_update enc io3 h f s = (q, s') \<Longrightarrow> json_inv s'" for q
    using s by (auto simp: json_update_def json_inv_def Let_def dest!: flush_map_eq
        split: prod.splits sum.splits)
  show "json_update enc io3 h f s = (Inr st, s') \<Longrightarrow>
      st = f (case json_contents s h of None \<Rightarrow> domain_new h | Some x \<Rightarrow> x) \<and>
      json_contents s' = (json_contents s)(ds_host st \<mapsto> st)"
    by (auto simp: json_update_def json_contents_def hm_current_def Let_def dest!: flush_map_eq
        split: prod.splits sum.splits)
qed

section \<open>Durability of the JSON store\<close>

definition json_fs_ok :: "json_fs \<Rightarrow> json_fs \<Rightarrow> u8 list \<Rightarrow> bool" where
  "json_fs_ok old fs bytes \<longleftrightarrow> fs_target fs = fs_target old \<or> fs_target fs = Some bytes"

lemma write_then_rename_states:
  assumes "write_then_rename io bytes fs = (r, states)"
  shows "states \<noteq> []" and "\<forall>x \<in> set states. json_fs_ok fs x bytes"
    and "fs_temp (last states) = None"
    and "r = Inr u \<Longrightarrow> fs_target (last states) = Some bytes"
    and "r = Inl e \<Longrightarrow> fs_target (last states) = fs_target fs"
  using assms by (auto simp: write_then_rename_def Let_def json_fs_ok_def split: io_outcome.splits)

text \<open>A crash never tears the state file: at every moment while a change is written, wherever an
  error strikes, the file holds either the previous bytes or the complete new ones; when the write
  ends no temporary file is left, and it reports success exactly when the new bytes are in place.\<close>

theorem flush_crash_atomic:
  assumes "write_then_rename io bytes fs = (r, states)"
  shows "(\<forall>x \<in> set states. fs_target x = fs_target fs \<or> fs_target x = Some bytes) \<and>
    fs_temp (last states) = None \<and>
    (is_ok r \<longrightarrow> fs_target (last states) = Some bytes) \<and>
    (\<not> is_ok r \<longrightarrow> fs_target (last states) = fs_target fs)"
  using write_then_rename_states [OF assms] by (cases r) (auto simp: json_fs_ok_def)

theorem flush_crash_atomic_witness:
  "\<exists>states. write_then_rename (FailWrite 1 ''disk full'') [91, 93] \<lparr>fs_target = Some [91, 10, 93], fs_temp = None\<rparr>
     = (Inl ''disk full'', states) \<and> (\<forall>x \<in> set states. fs_target x = Some [91, 10, 93] \<or> fs_target x = Some [91, 93]) \<and>
     fs_target (last states) = Some [91, 10, 93]"
proof -
  let ?fs = "\<lparr>fs_target = Some [91, 10, 93 :: u8], fs_temp = None\<rparr>"
  obtain states where w: "write_then_rename (FailWrite 1 ''disk full'') [91, 93] ?fs = (Inl ''disk full'', states)"
    by (simp add: write_then_rename_def Let_def)
  from flush_crash_atomic [OF w] show ?thesis using w by auto
qed

lemma map_of_fold_insert:
  "map_of (fold hm_insert rs acc) h
     = (case find (\<lambda>st. ds_host st = h) (rev rs) of Some st \<Rightarrow> Some st | None \<Rightarrow> map_of acc h)"
proof (induction rs arbitrary: acc)
  case (Cons r rs)
  have fa: "find p (xs @ [x]) = (case find p xs of Some y \<Rightarrow> Some y | None \<Rightarrow> if p x then Some x else None)"
    for p and xs :: "domain_state list" and x
    by (induction xs) auto
  show ?case unfolding fold.simps comp_def Cons.IH
    by (auto simp: fa split: option.splits)
qed simp

lemma reload_records:
  assumes "hm_inv m"
  shows "map_of (fold hm_insert (sorted_records m) []) = map_of m"
proof
  fix h
  let ?rs = "sorted_records m"
  have set: "set ?rs = snd ` set m" by (simp add: sorted_records_def)
  have key: "st \<in> snd ` set m \<longleftrightarrow> map_of m (ds_host st) = Some st" for st
    using assms by (force simp: hm_inv_def list_all_iff dest: map_of_SomeD)
  show "map_of (fold hm_insert ?rs []) h = map_of m h"
  proof (cases "find (\<lambda>st. ds_host st = h) (rev ?rs)")
    case None
    then have "\<forall>st \<in> snd ` set m. ds_host st \<noteq> h" using set by (auto simp: find_None_iff)
    then have "map_of m h = None"
      using hm_keyed [OF assms] by (metis image_eqI map_of_SomeD not_None_eq snd_conv)
    then show ?thesis using None by (simp add: map_of_fold_insert)
  next
    case (Some st)
    then have "st \<in> snd ` set m" "ds_host st = h" using find_Some_set [OF Some] set by auto
    then show ?thesis using key Some by (auto simp: map_of_fold_insert)
  qed
qed

lemma flush_Inr:
  assumes "flush enc io s = (Inr u, s')"
  shows "fs_target (js_fs s') = Some (enc (sorted_records (js_map s)))" and "js_map s' = js_map s"
proof -
  obtain r states where w: "write_then_rename io (enc (sorted_records (js_map s))) (js_fs s) = (r, states)"
    by (cases "write_then_rename io (enc (sorted_records (js_map s))) (js_fs s)")
  then have "r = Inr ()" "s' = s\<lparr>js_fs := last states\<rparr>"
    using assms by (auto simp: flush_def split: sum.splits)
  then show "fs_target (js_fs s') = Some (enc (sorted_records (js_map s)))" "js_map s' = js_map s"
    using write_then_rename_states(4) [OF w] by auto
qed

lemma reopen_contents:
  assumes "dcode (enc (sorted_records (js_map s))) = Inr (sorted_records (js_map s))"
    and "\<not> list_all is_ascii_whitespace (enc (sorted_records (js_map s)))"
    and "hm_inv (js_map s)" and "fs_target (js_fs s) = Some (enc (sorted_records (js_map s)))"
  shows "\<exists>t. json_open dcode (ReadBytes (the (fs_target (js_fs s)))) (js_fs s) = Inr t \<and>
    json_contents t = json_contents s"
  using assms reload_records [OF assms(3)]
  by (simp add: json_open_def load_def json_contents_def)


definition empty_json :: json_store where
  "empty_json = \<lparr>js_map = [], js_fs = \<lparr>fs_target = None, fs_temp = None\<rparr>\<rparr>"


text \<open>
  A failed write leaves the new value in memory and the old one in the file; retrying the removal
  then finds nothing to remove and reports success, and the file keeps the record.
\<close>

lemma json_remove_retry_loses:
  assumes "map_of (js_map s) h \<noteq> None" and "json_remove enc (FailSync e) h s = (r, s1)"
  shows "r = Inl (store_err ''write state file'' e)" and "json_remove enc io h s1 = (Inr (), s1)"
    and "fs_target (js_fs s1) = fs_target (js_fs s)"
  using assms by (auto simp: json_remove_def flush_def write_then_rename_def Let_def)

section \<open>Any store keeps exact tallies\<close>

text \<open>A store remembers every visit: after a run of recorded visits to one host that all succeed, the
  state stored for it is the one it had, or the empty one, with the visits applied in order, its
  tallies counting exactly those visits, and nothing stored for another host changes; in memory and
  in the JSON store alike.\<close>

theorem visits_recorded:
  assumes "json_inv s" and "json.record_visits enc io h vs s = (Inr (), s')" and "vs \<noteq> []"
    and "hm_inv m" and "mem.record_visits h vs m = (Inr (), m')"
  shows "json_contents s' = (json_contents s)(h \<mapsto> fold record_visit vs
           (case json_contents s h of None \<Rightarrow> domain_new h | Some x \<Rightarrow> x)) \<and>
    map_of m' = (map_of m)(h \<mapsto> fold record_visit vs
           (case map_of m h of None \<Rightarrow> domain_new h | Some x \<Rightarrow> x)) \<and>
    (json_contents s h = None \<longrightarrow>
      unat (ds_successes (the (json_contents s' h)))
        = min (length (filter (obtained \<circ> fst) vs)) (2 ^ 32 - 1))"
proof -
  have j: "json_contents s' = (json_contents s)(h \<mapsto> fold record_visit vs (json.known s h))"
    using json.record_visits_contents [OF assms(1-3)] by blast
  moreover have "map_of m' = (map_of m)(h \<mapsto> fold record_visit vs (mem.known m h))"
    using mem.record_visits_contents [OF assms(4,5,3)] by blast
  moreover have "unat (ds_successes (fold record_visit vs (domain_new h)))
      = min (length (filter (obtained \<circ> fst) vs)) (2 ^ 32 - 1)"
    using fold_visits_counts [of vs "domain_new h"] by (simp add: domain_new_def)
  ultimately show ?thesis by (simp add: json.known_def mem.known_def)
qed

theorem visits_recorded_witness:
  "\<exists>s' m'. json.record_visits (\<lambda>rs. [91, 93]) IoOk ''a'' [(Success, None, 1, from_secs 0), (Blocked, None, 2, from_secs 0)]
       empty_json = (Inr (), s') \<and>
     mem.record_visits ''a'' [(Success, None, 1, from_secs 0), (Blocked, None, 2, from_secs 0)] [] = (Inr (), m') \<and>
     unat (ds_successes (the (json_contents s' ''a''))) = 1"
proof -
  let ?vs = "[(Success, None, 1, from_secs 0), (Blocked, None, 2, from_secs 0)] :: visit list"
  obtain s' where s': "json.record_visits (\<lambda>rs. [91, 93]) IoOk ''a'' ?vs empty_json = (Inr (), s')"
    by (simp add: json_update_def flush_def write_then_rename_def empty_json_def Let_def)
  obtain m' where m': "mem.record_visits ''a'' ?vs [] = (Inr (), m')"
    by (simp add: mem_update_def Let_def)
  have "json_inv empty_json" "hm_inv []" by (simp_all add: json_inv_def empty_json_def hm_inv_def)
  moreover have "?vs \<noteq> []" by simp
  ultimately have
    "json_contents empty_json ''a'' = None \<longrightarrow> unat (ds_successes (the (json_contents s' ''a'')))
        = min (length (filter (obtained \<circ> fst) ?vs)) (2 ^ 32 - 1)"
    using visits_recorded [OF _ s' _ _ m'] by blast
  then have "unat (ds_successes (the (json_contents s' ''a''))) = 1"
    by (simp add: json_contents_def empty_json_def obtained_def)
  then show ?thesis using s' m' by blast
qed

section \<open>The redb store\<close>

text \<open>
  The database is another package: its transactions are the fields of \<open>redb\<close>, each failing with a
  text or yielding the next handle. \<open>enc\<close> and \<open>dcode\<close> are the JSON encoder and decoder.
\<close>

record ('db, 't) redb =
  rd_begin_read :: "'db \<Rightarrow> string + 't"
  rd_begin_write :: "'db \<Rightarrow> string + 't"
  rd_open_table :: "'t \<Rightarrow> string + 't"
  rd_get :: "'t \<Rightarrow> string \<Rightarrow> string + u8 list option"
  rd_insert :: "string \<Rightarrow> u8 list \<Rightarrow> 't \<Rightarrow> string + 't"
  rd_remove :: "string \<Rightarrow> 't \<Rightarrow> string + 't"
  rd_commit :: "'t \<Rightarrow> 'db \<Rightarrow> (string + unit) \<times> 'db"

definition redb_err :: "string \<Rightarrow> string + 'a \<Rightarrow> error + 'a" where
  "redb_err op r = (case r of Inl e \<Rightarrow> Inl (StateStore (''redb '' @ op @ '': '' @ e)) | Inr a \<Rightarrow> Inr a)"

definition redb_commit :: "('db, 't) redb \<Rightarrow> 'a \<Rightarrow> error + 't \<Rightarrow> 'db \<Rightarrow> (error + 'a) \<times> 'db" where
  "redb_commit R a w db =
     (case w of
        Inl e \<Rightarrow> (Inl e, db)
      | Inr t \<Rightarrow> (case rd_commit R t db of
                    (r, db') \<Rightarrow> (andthen (redb_err ''commit'' r) (\<lambda>_. Inr a), db')))"

definition redb_write_table :: "('db, 't) redb \<Rightarrow> 'db \<Rightarrow> error + 't" where
  "redb_write_table R db =
     andthen (redb_err ''begin write'' (rd_begin_write R db)) (\<lambda>w.
       redb_err ''open table'' (rd_open_table R w))"

definition redb_get ::
    "('db, 't) redb \<Rightarrow> (u8 list \<Rightarrow> string + domain_state) \<Rightarrow> 'db \<Rightarrow> string \<Rightarrow> error + domain_state option"
where
  "redb_get R dcode db h =
     andthen (redb_err ''begin read'' (rd_begin_read R db)) (\<lambda>r.
     andthen (redb_err ''open table'' (rd_open_table R r)) (\<lambda>t.
     andthen (redb_err ''get'' (rd_get R t h)) (\<lambda>m.
       case m of
         None \<Rightarrow> Inr None
       | Some bytes \<Rightarrow> andthen (redb_err ''decode'' (dcode bytes)) (\<lambda>st. Inr (Some st)))))"

definition redb_put ::
    "('db, 't) redb \<Rightarrow> (domain_state \<Rightarrow> string + u8 list) \<Rightarrow> domain_state \<Rightarrow> 'db \<Rightarrow> (error + unit) \<times> 'db"
where
  "redb_put R enc st db =
     redb_commit R ()
       (andthen (redb_err ''encode'' (enc st)) (\<lambda>bytes.
        andthen (redb_write_table R db) (\<lambda>t.
          redb_err ''insert'' (rd_insert R (ds_host st) bytes t)))) db"

definition redb_remove :: "('db, 't) redb \<Rightarrow> string \<Rightarrow> 'db \<Rightarrow> (error + unit) \<times> 'db" where
  "redb_remove R h db =
     redb_commit R () (andthen (redb_write_table R db) (\<lambda>t. redb_err ''remove'' (rd_remove R h t))) db"

definition redb_read_modify ::
    "('db, 't) redb \<Rightarrow> (domain_state \<Rightarrow> string + u8 list) \<Rightarrow> (u8 list \<Rightarrow> string + domain_state) \<Rightarrow>
     string \<Rightarrow> (domain_state \<Rightarrow> domain_state) \<Rightarrow> 'db \<Rightarrow> error + domain_state \<times> 't"
where
  "redb_read_modify R enc dcode h f db =
     andthen (redb_write_table R db) (\<lambda>t.
     andthen (redb_err ''get'' (rd_get R t h)) (\<lambda>m.
     andthen (case m of None \<Rightarrow> Inr (domain_new h)
                      | Some bytes \<Rightarrow> redb_err ''decode'' (dcode bytes)) (\<lambda>current.
     let nxt = f current in
     andthen (redb_err ''encode'' (enc nxt)) (\<lambda>bytes.
     andthen (redb_err ''insert'' (rd_insert R (ds_host nxt) bytes t)) (\<lambda>t'. Inr (nxt, t'))))))"

definition redb_update ::
    "('db, 't) redb \<Rightarrow> (domain_state \<Rightarrow> string + u8 list) \<Rightarrow> (u8 list \<Rightarrow> string + domain_state) \<Rightarrow>
     string \<Rightarrow> (domain_state \<Rightarrow> domain_state) \<Rightarrow> 'db \<Rightarrow> (error + domain_state) \<times> 'db"
where
  "redb_update R enc dcode h f db =
     (case redb_read_modify R enc dcode h f db of
        Inl e \<Rightarrow> (Inl e, db)
      | Inr (nxt, t') \<Rightarrow> redb_commit R nxt (Inr t') db)"

text \<open>
  What the store relies on, as the database documents it: a transaction sees a snapshot and its own
  writes, a commit that succeeds publishes them, and one that fails publishes nothing.
\<close>

definition redb_documented ::
    "('db, 't) redb \<Rightarrow> ('db \<Rightarrow> string \<rightharpoonup> u8 list) \<Rightarrow> ('t \<Rightarrow> string \<rightharpoonup> u8 list) \<Rightarrow> bool"
where
  "redb_documented R view tview \<longleftrightarrow>
     (\<forall>db t. rd_begin_read R db = Inr t \<longrightarrow> tview t = view db) \<and>
     (\<forall>db t. rd_begin_write R db = Inr t \<longrightarrow> tview t = view db) \<and>
     (\<forall>t t'. rd_open_table R t = Inr t' \<longrightarrow> tview t' = tview t) \<and>
     (\<forall>t h m. rd_get R t h = Inr m \<longrightarrow> m = tview t h) \<and>
     (\<forall>k b t t'. rd_insert R k b t = Inr t' \<longrightarrow> tview t' = (tview t)(k \<mapsto> b)) \<and>
     (\<forall>k t t'. rd_remove R k t = Inr t' \<longrightarrow> tview t' = (tview t)(k := None)) \<and>
     (\<forall>t db db' u. rd_commit R t db = (Inr u, db') \<longrightarrow> view db' = tview t) \<and>
     (\<forall>t db db' e. rd_commit R t db = (Inl e, db') \<longrightarrow> view db' = view db)"

definition codec_ok ::
    "(domain_state \<Rightarrow> string + u8 list) \<Rightarrow> (u8 list \<Rightarrow> string + domain_state) \<Rightarrow> bool" where
  "codec_ok enc dcode \<longleftrightarrow> (\<forall>st b. enc st = Inr b \<longrightarrow> dcode b = Inr st)"

definition redb_contents ::
    "('db \<Rightarrow> string \<rightharpoonup> u8 list) \<Rightarrow> (u8 list \<Rightarrow> string + domain_state) \<Rightarrow> 'db \<Rightarrow> string \<rightharpoonup> domain_state" where
  "redb_contents view dcode db h =
     (case view db h of None \<Rightarrow> None | Some b \<Rightarrow> (case dcode b of Inl _ \<Rightarrow> None | Inr st \<Rightarrow> Some st))"

definition redb_inv ::
    "('db \<Rightarrow> string \<rightharpoonup> u8 list) \<Rightarrow> (u8 list \<Rightarrow> string + domain_state) \<Rightarrow> 'db \<Rightarrow> bool" where
  "redb_inv view dcode db \<longleftrightarrow>
     (\<forall>h b. view db h = Some b \<longrightarrow> (\<exists>st. dcode b = Inr st \<and> ds_host st = h))"

lemma redb_err_Inr [result_simps]: "redb_err op r = Inr a \<longleftrightarrow> r = Inr a"
  by (cases r) (simp_all add: redb_err_def)

lemma redb_commit_cases:
  assumes "redb_documented R view tview" and "redb_commit R a w db = (r, db')"
  shows "view db' = view db \<or> (\<exists>t. w = Inr t \<and> view db' = tview t)"
    and "r = Inr x \<Longrightarrow> x = a \<and> (\<exists>t. w = Inr t \<and> view db' = tview t)"
proof -
  show "view db' = view db \<or> (\<exists>t. w = Inr t \<and> view db' = tview t)"
  proof (cases w)
    case (Inr t)
    obtain q d where c: "rd_commit R t db = (q, d)" by (cases "rd_commit R t db")
    then have "db' = d" using assms(2) Inr by (simp add: redb_commit_def)
    have pub: "rd_commit R t db = (Inr u, db') \<Longrightarrow> view db' = tview t"
        "rd_commit R t db = (Inl e, db') \<Longrightarrow> view db' = view db" for u e
      using assms(1) unfolding redb_documented_def by blast+
    show ?thesis using pub c Inr \<open>db' = d\<close> by (cases q) auto
  qed (use assms(2) in \<open>simp add: redb_commit_def\<close>)
  assume "r = Inr x"
  then obtain t u where "w = Inr t" "rd_commit R t db = (Inr u, db')" "x = a"
    using assms(2) by (auto simp: redb_commit_def result_simps split: sum.splits prod.splits)
  then show "x = a \<and> (\<exists>t. w = Inr t \<and> view db' = tview t)"
    using assms(1) by (auto simp: redb_documented_def)
qed

lemma redb_table_view:
  assumes "redb_documented R view tview" and "redb_write_table R db = Inr t"
  shows "tview t = view db"
  using assms by (auto simp: redb_write_table_def redb_documented_def result_simps)

lemma redb_read_modify_Inr:
  assumes "redb_documented R view tview" and "redb_inv view dcode db"
    and "redb_read_modify R enc dcode h f db = Inr (nxt, t')"
  shows "nxt = f (case redb_contents view dcode db h of None \<Rightarrow> domain_new h | Some x \<Rightarrow> x)"
    and "\<exists>b. enc nxt = Inr b \<and> tview t' = (view db)(ds_host nxt \<mapsto> b)"
proof -
  obtain t m cur b where st:
      "redb_write_table R db = Inr t" "rd_get R t h = Inr m"
      "(case m of None \<Rightarrow> Inr (domain_new h) | Some bytes \<Rightarrow> redb_err ''decode'' (dcode bytes)) = Inr cur"
      "enc (f cur) = Inr b" "rd_insert R (ds_host (f cur)) b t = Inr t'" "nxt = f cur"
    using assms(3) by (auto simp: redb_read_modify_def result_simps Let_def)
  have tv: "tview t = view db" by (rule redb_table_view [OF assms(1) st(1)])
  moreover have "m = tview t h" "tview t' = (tview t)(ds_host (f cur) \<mapsto> b)"
    using assms(1) st(2,5) unfolding redb_documented_def by blast+
  ultimately have m: "m = view db h" and t': "tview t' = (view db)(ds_host (f cur) \<mapsto> b)" by simp_all
  have "cur = (case redb_contents view dcode db h of None \<Rightarrow> domain_new h | Some x \<Rightarrow> x)"
    using st(3) unfolding m
    by (auto simp: redb_contents_def result_simps split: option.splits)
  then show "nxt = f (case redb_contents view dcode db h of None \<Rightarrow> domain_new h | Some x \<Rightarrow> x)"
    using st(6) by simp
  show "\<exists>b. enc nxt = Inr b \<and> tview t' = (view db)(ds_host nxt \<mapsto> b)" using st(4,6) t' by blast
qed

lemma redb_contents_insert:
  assumes "codec_ok enc dcode" and "enc st = Inr b" and "view db' = (view db)(ds_host st \<mapsto> b)"
  shows "redb_contents view dcode db' = (redb_contents view dcode db)(ds_host st \<mapsto> st)"
  using assms by (auto simp: redb_contents_def codec_ok_def fun_eq_iff)

lemma redb_inv_insert:
  assumes "codec_ok enc dcode" and "enc st = Inr b" and "view db' = (view db)(ds_host st \<mapsto> b)"
    and "redb_inv view dcode db"
  shows "redb_inv view dcode db'"
  using assms by (auto simp: redb_inv_def codec_ok_def)

lemma redb_keyed:
  assumes "redb_inv view dcode db" and "redb_contents view dcode db h = Some st"
  shows "ds_host st = h"
proof -
  obtain b where b: "view db h = Some b" "dcode b = Inr st"
    using assms(2) by (auto simp: redb_contents_def split: option.splits sum.splits)
  then show ?thesis using assms(1) unfolding redb_inv_def by fastforce
qed


text \<open>A database that behaves as documented, for the witness: its transactions are snapshots.\<close>

definition map_redb :: "(string \<rightharpoonup> u8 list, string \<rightharpoonup> u8 list) redb" where
  "map_redb = \<lparr>rd_begin_read = Inr, rd_begin_write = Inr, rd_open_table = Inr,
     rd_get = (\<lambda>t h. Inr (t h)), rd_insert = (\<lambda>k b t. Inr (t(k \<mapsto> b))),
     rd_remove = (\<lambda>k t. Inr (t(k := None))), rd_commit = (\<lambda>t db. (Inr (), t))\<rparr>"


end
