(* ===== verification/CdpTransport.thy ===== *)
theory CdpTransport
  imports Events Json
begin

text \<open>
  Models \<open>src/src/cdp/transport.rs\<close>: the table of calls awaiting a reply, the routing of every message
  that arrives, the framing of the pipe, and a call as the steps it takes. Tasks interleave, so a
  connection is a step relation over the shared state; the reply slot of a call is its one-shot
  channel. What the browser sends, when a call times out and when the pipe fails are the
  environment's choice of step.
\<close>

section \<open>Shared state\<close>

record cdp_event =
  ev_method :: string
  ev_params :: json
  ev_session :: "string option"

type_synonym reply = "error + json"

record transport =
  tp_next_id :: u64
  tp_waiting :: "u64 set"
  tp_closed :: "string option"
  tp_slots :: "u64 \<rightharpoonup> reply"
  tp_events :: "cdp_event list"

definition transport_init :: transport where
  "transport_init = \<lparr>tp_next_id = 1, tp_waiting = {}, tp_closed = None, tp_slots = Map.empty, tp_events = []\<rparr>"

definition parse_reply :: "json \<Rightarrow> reply" where
  "parse_reply m =
     (case jget ''error'' m of
        Some e \<Rightarrow> Inl (Cdp (case Option.bind (jget ''code'' e) as_i64_json of None \<Rightarrow> 0 | Some c \<Rightarrow> c)
                         (case Option.bind (jget ''message'' e) as_str_json of
                            None \<Rightarrow> ''unspecified protocol error'' | Some t \<Rightarrow> t)
                         (Option.bind (jget ''data'' e) as_str_json))
      | None \<Rightarrow> Inr (case jget ''result'' m of None \<Rightarrow> JNull | Some r \<Rightarrow> r))"

definition message_id :: "json \<Rightarrow> u64 option" where
  "message_id m = Option.bind (jget ''id'' m) as_u64_json"

definition take_waiter :: "u64 \<Rightarrow> transport \<Rightarrow> bool \<times> transport" where
  "take_waiter i t = (i \<in> tp_waiting t, t\<lparr>tp_waiting := tp_waiting t - {i}\<rparr>)"

definition dispatch :: "json \<Rightarrow> transport \<Rightarrow> transport" where
  "dispatch m t =
     (case message_id m of
        Some i \<Rightarrow>
          (case take_waiter i t of
             (False, t') \<Rightarrow> t'
           | (True, t') \<Rightarrow> t'\<lparr>tp_slots := (tp_slots t')(i \<mapsto> parse_reply m)\<rparr>)
      | None \<Rightarrow>
          (case Option.bind (jget ''method'' m) as_str_json of
             None \<Rightarrow> t
           | Some method \<Rightarrow>
               t\<lparr>tp_events := tp_events t @
                  [\<lparr>ev_method = method, ev_params = (case jget ''params'' m of None \<Rightarrow> JNull | Some p \<Rightarrow> p),
                    ev_session = Option.bind (jget ''sessionId'' m) as_str_json\<rparr>]\<rparr>))"

definition close :: "string \<Rightarrow> transport \<Rightarrow> transport" where
  "close reason t =
     t\<lparr>tp_closed := (case tp_closed t of None \<Rightarrow> Some reason | Some r \<Rightarrow> Some r),
       tp_slots := (\<lambda>i. if i \<in> tp_waiting t then Some (Inl (BrowserError reason)) else tp_slots t i),
       tp_waiting := {}\<rparr>"

definition register :: "u64 \<Rightarrow> string \<Rightarrow> transport \<Rightarrow> (error + unit) \<times> transport" where
  "register i method t =
     (case tp_closed t of
        Some reason \<Rightarrow> (Inl (BrowserError (''cannot call '' @ method @ '': '' @ reason)), t)
      | None \<Rightarrow> (Inr (), t\<lparr>tp_waiting := insert i (tp_waiting t)\<rparr>))"

definition fresh_id :: "transport \<Rightarrow> u64 \<times> transport" where
  "fresh_id t = (tp_next_id t, t\<lparr>tp_next_id := tp_next_id t + 1\<rparr>)"

definition request :: "u64 \<Rightarrow> string option \<Rightarrow> string \<Rightarrow> json option \<Rightarrow> json" where
  "request i session_id method params =
     JObj ([(''id'', JInt (int (unat i))), (''method'', JStr method)]
           @ (case params of None \<Rightarrow> [] | Some p \<Rightarrow> [(''params'', p)])
           @ (case session_id of None \<Rightarrow> [] | Some s \<Rightarrow> [(''sessionId'', JStr s)]))"

section \<open>Framing\<close>

definition MESSAGE_DELIMITER :: u8 where "MESSAGE_DELIMITER = 0"

definition frame_of :: "(json \<Rightarrow> u8 list) \<Rightarrow> json \<Rightarrow> u8 list" where
  "frame_of enc m = enc m @ [MESSAGE_DELIMITER]"

fun read_until :: "u8 list \<Rightarrow> u8 list \<times> u8 list" where
  "read_until [] = ([], [])"
| "read_until (b # bs) =
     (if b = MESSAGE_DELIMITER then ([b], bs) else (case read_until bs of (f, r) \<Rightarrow> (b # f, r)))"

lemma read_until_append: "read_until bs = (f, r) \<Longrightarrow> bs = f @ r"
  by (induction bs arbitrary: f r) (auto split: prod.splits if_splits)

lemma read_until_ne: "read_until bs = (f, r) \<Longrightarrow> bs \<noteq> [] \<Longrightarrow> f \<noteq> []"
  by (cases bs) (auto split: prod.splits if_splits)

lemma read_until_rest:
  "read_until bs = (f, r) \<Longrightarrow> length r < length bs \<or> f = []"
  using read_until_append by fastforce

text \<open>
  The bytes the pipe delivers before it ends; \<open>err\<close> says whether it ends with an error. An error
  loses the frame that was being read.
\<close>

function read_loop ::
    "(u8 list \<Rightarrow> string + json) \<Rightarrow> string option \<Rightarrow> u8 list \<Rightarrow> transport \<Rightarrow> transport" where
  "read_loop dcode err bs t =
     (case read_until bs of (frame, rest) \<Rightarrow>
        if frame = [] \<or> last frame \<noteq> MESSAGE_DELIMITER then
          close (case err of
                   Some e \<Rightarrow> ''the CDP connection failed: '' @ e
                 | None \<Rightarrow> if frame = [] then ''the browser closed the CDP connection''
                           else ''the CDP connection ended mid-message'') t
        else (case dcode (butlast frame) of
                Inr m \<Rightarrow> read_loop dcode err rest (dispatch m t)
              | Inl _ \<Rightarrow> read_loop dcode err rest t))"
  by pat_completeness auto
termination
  by (relation "measure (\<lambda>(d, e, bs, t). length bs)") (auto dest!: read_until_rest [OF sym])

declare read_loop.simps [simp del]

lemma read_until_frame: "0 \<notin> set f \<Longrightarrow> read_until (f @ 0 # r) = (f @ [0], r)"
  by (induction f) (auto simp: MESSAGE_DELIMITER_def)

lemma read_until_tail: "0 \<notin> set f \<Longrightarrow> read_until f = (f, [])"
  by (induction f) (auto simp: MESSAGE_DELIMITER_def)

lemma read_loop_frame:
  assumes "0 \<notin> set f"
  shows "read_loop dcode err (f @ 0 # r) t
    = read_loop dcode err r (case dcode f of Inr m \<Rightarrow> dispatch m t | Inl _ \<Rightarrow> t)"
  by (subst read_loop.simps) (simp add: read_until_frame [OF assms] MESSAGE_DELIMITER_def split: sum.split)

lemma read_loop_frames:
  assumes "\<forall>m \<in> set ms. dcode (enc m) = Inr m \<and> 0 \<notin> set (enc m)" and "0 \<notin> set part"
  shows "read_loop dcode err (concat (map (frame_of enc) ms) @ part) t
    = read_loop dcode err part (fold dispatch ms t)"
  using assms(1)
proof (induction ms arbitrary: t)
  case (Cons m ms)
  have "concat (map (frame_of enc) (m # ms)) @ part = enc m @ 0 # (concat (map (frame_of enc) ms) @ part)"
    by (simp add: frame_of_def MESSAGE_DELIMITER_def)
  then show ?case using read_loop_frame [of "enc m"] Cons by simp
qed simp

text \<open>C26. The wire loses and reorders nothing: from the bytes of any sequence of messages the reader
  dispatches exactly those messages, in order, for any encoding without the delimiter byte; then it
  closes the connection once, naming whether the browser closed it or stopped in the middle of a
  message.\<close>

theorem read_loop_exact:
  assumes "\<forall>m \<in> set ms. dcode (enc m) = Inr m \<and> 0 \<notin> set (enc m)" and "0 \<notin> set part"
  shows "read_loop dcode None (concat (map (frame_of enc) ms) @ part) t
    = close (if part = [] then ''the browser closed the CDP connection''
             else ''the CDP connection ended mid-message'') (fold dispatch ms t)"
proof -
  have "part \<noteq> [] \<Longrightarrow> last part \<noteq> MESSAGE_DELIMITER"
    using assms(2) last_in_set [of part] by (metis MESSAGE_DELIMITER_def)
  then have "read_loop dcode None part t = close (if part = [] then ''the browser closed the CDP connection''
             else ''the CDP connection ended mid-message'') t" for t
    by (subst read_loop.simps) (auto simp: read_until_tail [OF assms(2)])
  then show ?thesis using read_loop_frames [of ms dcode enc, OF assms] by simp
qed

theorem read_loop_exact_witness:
  "read_loop (\<lambda>b. if b = [1] then Inr (JObj [(''method'', JStr ''M'')]) else Inl ''bad'') None
     ([1, 0, 1, 0, 7]) transport_init
   = close ''the CDP connection ended mid-message''
       (dispatch (JObj [(''method'', JStr ''M'')]) (dispatch (JObj [(''method'', JStr ''M'')]) transport_init))"
  using read_loop_exact [of "[JObj [(''method'', JStr ''M'')], JObj [(''method'', JStr ''M'')]]"
      "\<lambda>b. if b = [1] then Inr (JObj [(''method'', JStr ''M'')]) else Inl ''bad''" "\<lambda>m. [1]" "[7]" transport_init]
  by (simp add: frame_of_def MESSAGE_DELIMITER_def)

section \<open>Calls as steps\<close>

text \<open>
  The connection and the calls on it: \<open>cn_issued\<close> the identifiers taken so far, \<open>cn_open\<close> the calls
  that have not returned, with their method, \<open>cn_done\<close> what each call returned, and \<open>cn_inbox\<close> the
  messages that arrived.
\<close>

record conn =
  cn_tp :: transport
  cn_issued :: "u64 list"
  cn_open :: "u64 \<rightharpoonup> string"
  cn_done :: "(u64 \<times> reply) list"
  cn_inbox :: "json list"

definition conn_init :: conn where
  "conn_init = \<lparr>cn_tp = transport_init, cn_issued = [], cn_open = Map.empty, cn_done = [], cn_inbox = []\<rparr>"

definition DEFAULT_CALL_TIMEOUT :: duration where "DEFAULT_CALL_TIMEOUT = from_secs 30"

definition finish_call :: "u64 \<Rightarrow> reply \<Rightarrow> conn \<Rightarrow> conn" where
  "finish_call i r c = c\<lparr>cn_open := (cn_open c)(i := None), cn_done := cn_done c @ [(i, r)]\<rparr>"

text \<open>The first part of a call: take an identifier and register for its reply.\<close>

definition begin_call :: "string \<Rightarrow> conn \<Rightarrow> conn" where
  "begin_call method c =
     (case fresh_id (cn_tp c) of
        (i, t) \<Rightarrow>
          (case register i method t of
             (r, t') \<Rightarrow>
               (let c' = c\<lparr>cn_tp := t', cn_issued := cn_issued c @ [i], cn_open := (cn_open c)(i \<mapsto> method)\<rparr> in
                case r of Inl e \<Rightarrow> finish_call i (Inl e) c' | Inr _ \<Rightarrow> c')))"

definition abandon_call :: "u64 \<Rightarrow> reply \<Rightarrow> conn \<Rightarrow> conn" where
  "abandon_call i r c = finish_call i r (c\<lparr>cn_tp := snd (take_waiter i (cn_tp c))\<rparr>)"

inductive conn_step :: "conn \<Rightarrow> conn \<Rightarrow> bool" where
  start: "conn_step c (begin_call method c)"
| write_fails: "cn_open c i = Some method \<Longrightarrow>
    conn_step c (abandon_call i (Inl (BrowserError (''could not send '' @ method @ '': '' @ e))) c)"
| receives: "cn_open c i = Some method \<Longrightarrow> tp_slots (cn_tp c) i = Some r \<Longrightarrow>
    conn_step c (finish_call i r c)"
| times_out: "cn_open c i = Some method \<Longrightarrow> tp_slots (cn_tp c) i = None \<Longrightarrow>
    conn_step c (abandon_call i
      (Inl (BrowserError (method @ '' timed out after '' @ duration_debug DEFAULT_CALL_TIMEOUT))) c)"
| arrives: "conn_step c (c\<lparr>cn_tp := dispatch m (cn_tp c), cn_inbox := cn_inbox c @ [m]\<rparr>)"
| closes: "conn_step c (c\<lparr>cn_tp := close reason (cn_tp c)\<rparr>)"

inductive_cases conn_stepE: "conn_step c c'"

inductive conn_reach :: "conn \<Rightarrow> bool" where
  reach_init: "conn_reach conn_init"
| reach_step: "conn_reach c \<Longrightarrow> conn_step c c' \<Longrightarrow> conn_reach c'"

definition genuine :: "conn \<Rightarrow> u64 \<Rightarrow> reply \<Rightarrow> bool" where
  "genuine c i r \<longleftrightarrow>
     (\<exists>m \<in> set (cn_inbox c). message_id m = Some i \<and> r = parse_reply m) \<or>
     (\<exists>e. r = Inl (BrowserError e))"

text \<open>
  The invariant, in three parts: identifiers are handed out in order; a reply is only ever in the slot
  or the result of the call it names; and every open call has a live registration or a filled slot,
  the former only while the connection is open, while every other issued call has returned once.
\<close>

definition ids_inv :: "conn \<Rightarrow> bool" where
  "ids_inv c \<longleftrightarrow>
     cn_issued c = map (\<lambda>k. of_nat (Suc k)) [0..<length (cn_issued c)] \<and>
     tp_next_id (cn_tp c) = of_nat (Suc (length (cn_issued c)))"

definition genuine_inv :: "conn \<Rightarrow> bool" where
  "genuine_inv c \<longleftrightarrow>
     (\<forall>i r. tp_slots (cn_tp c) i = Some r \<longrightarrow> genuine c i r) \<and>
     (\<forall>i r. (i, r) \<in> set (cn_done c) \<longrightarrow> genuine c i r)"

definition books_inv :: "conn \<Rightarrow> bool" where
  "books_inv c \<longleftrightarrow>
     tp_waiting (cn_tp c) \<subseteq> dom (cn_open c) \<and>
     tp_waiting (cn_tp c) \<inter> dom (tp_slots (cn_tp c)) = {} \<and>
     dom (tp_slots (cn_tp c)) \<subseteq> set (cn_issued c) \<and>
     dom (cn_open c) \<subseteq> tp_waiting (cn_tp c) \<union> dom (tp_slots (cn_tp c)) \<and>
     (tp_closed (cn_tp c) \<noteq> None \<longrightarrow> tp_waiting (cn_tp c) = {}) \<and>
     distinct (map fst (cn_done c)) \<and> fst ` set (cn_done c) \<inter> dom (cn_open c) = {} \<and>
     fst ` set (cn_done c) \<union> dom (cn_open c) = set (cn_issued c)"

lemma dispatch_frame [simp]:
  "tp_next_id (dispatch m t) = tp_next_id t" "tp_closed (dispatch m t) = tp_closed t"
  by (simp_all add: dispatch_def take_waiter_def split: option.splits bool.splits)

lemma dispatch_waiting:
  "tp_waiting (dispatch m t) = tp_waiting t - set_option (message_id m)"
  "tp_slots (dispatch m t) = (case message_id m of
     Some i \<Rightarrow> if i \<in> tp_waiting t then (tp_slots t)(i \<mapsto> parse_reply m) else tp_slots t
   | None \<Rightarrow> tp_slots t)"
  by (auto simp: dispatch_def take_waiter_def split: option.splits bool.splits)

lemma genuine_mono: "set (cn_inbox c) \<subseteq> set (cn_inbox c') \<Longrightarrow> genuine c i r \<Longrightarrow> genuine c' i r"
  by (auto simp: genuine_def)

lemma begin_call_cases:
  obtains (dead) reason where "tp_closed (cn_tp c) = Some reason"
      "begin_call method c = c\<lparr>cn_tp := (cn_tp c)\<lparr>tp_next_id := tp_next_id (cn_tp c) + 1\<rparr>,
         cn_issued := cn_issued c @ [tp_next_id (cn_tp c)],
         cn_open := (cn_open c)(tp_next_id (cn_tp c) := None),
         cn_done := cn_done c @ [(tp_next_id (cn_tp c),
           Inl (BrowserError (''cannot call '' @ method @ '': '' @ reason)))]\<rparr>"
    | (live) "tp_closed (cn_tp c) = None"
      "begin_call method c = c\<lparr>cn_tp := (cn_tp c)\<lparr>tp_next_id := tp_next_id (cn_tp c) + 1,
           tp_waiting := insert (tp_next_id (cn_tp c)) (tp_waiting (cn_tp c))\<rparr>,
         cn_issued := cn_issued c @ [tp_next_id (cn_tp c)],
         cn_open := (cn_open c)(tp_next_id (cn_tp c) \<mapsto> method)\<rparr>"
  by (cases "tp_closed (cn_tp c)")
    (auto simp: begin_call_def fresh_id_def register_def finish_call_def Let_def)

lemma ids_step:
  assumes "conn_step c c'" and "ids_inv c"
  shows "ids_inv c'"
  using assms(1)
proof (cases rule: conn_step.cases)
  case (start m)
  show ?thesis
    by (rule begin_call_cases [of c m]) (use assms(2) start in \<open>auto simp: ids_inv_def\<close>)
qed (use assms(2) in \<open>auto simp: ids_inv_def abandon_call_def finish_call_def take_waiter_def close_def\<close>)

lemma genuine_step:
  assumes "conn_step c c'" and "genuine_inv c"
  shows "genuine_inv c'"
  using assms(1)
proof (cases rule: conn_step.cases)
  case (start m)
  show ?thesis
    by (rule begin_call_cases [of c m]) (use assms(2) start in \<open>auto simp: genuine_inv_def genuine_def\<close>)
next
  case (arrives m)
  then show ?thesis
    using assms(2) by (auto simp: genuine_inv_def genuine_def dispatch_waiting split: option.splits if_splits)
qed (use assms(2) in \<open>auto simp: genuine_inv_def genuine_def abandon_call_def finish_call_def
       take_waiter_def close_def split: if_splits\<close>)

lemma books_step:
  assumes "conn_step c c'" and "books_inv c" and "distinct (cn_issued c')"
  shows "books_inv c'"
  using assms(1)
proof (cases rule: conn_step.cases)
  case (start m)
  show ?thesis
  proof (rule begin_call_cases [of c m])
    fix reason
    assume "tp_closed (cn_tp c) = Some reason"
      and b: "begin_call m c = c\<lparr>cn_tp := (cn_tp c)\<lparr>tp_next_id := tp_next_id (cn_tp c) + 1\<rparr>,
         cn_issued := cn_issued c @ [tp_next_id (cn_tp c)],
         cn_open := (cn_open c)(tp_next_id (cn_tp c) := None),
         cn_done := cn_done c @ [(tp_next_id (cn_tp c),
           Inl (BrowserError (''cannot call '' @ m @ '': '' @ reason)))]\<rparr>"
    have "tp_next_id (cn_tp c) \<notin> set (cn_issued c)" using assms(3) start b by simp
    then show ?thesis using assms(2) start b \<open>tp_closed (cn_tp c) = Some reason\<close>
      by (auto simp: books_inv_def)
  next
    assume "tp_closed (cn_tp c) = None"
      and b: "begin_call m c = c\<lparr>cn_tp := (cn_tp c)\<lparr>tp_next_id := tp_next_id (cn_tp c) + 1,
           tp_waiting := insert (tp_next_id (cn_tp c)) (tp_waiting (cn_tp c))\<rparr>,
         cn_issued := cn_issued c @ [tp_next_id (cn_tp c)],
         cn_open := (cn_open c)(tp_next_id (cn_tp c) \<mapsto> m)\<rparr>"
    have "tp_next_id (cn_tp c) \<notin> set (cn_issued c)" using assms(3) start b by simp
    then show ?thesis using assms(2) start b \<open>tp_closed (cn_tp c) = None\<close>
      by (auto simp: books_inv_def)
  qed
next
  case (arrives m)
  then show ?thesis
    using assms(2) by (auto simp: books_inv_def dispatch_waiting split: option.splits if_splits)
next
  case (closes reason)
  have d: "dom (tp_slots (cn_tp c')) = tp_waiting (cn_tp c) \<union> dom (tp_slots (cn_tp c))"
    using closes by (auto simp: close_def split: if_splits)
  have f: "tp_waiting (cn_tp c') = {}" "cn_open c' = cn_open c" "cn_done c' = cn_done c"
      "cn_issued c' = cn_issued c" using closes by (simp_all add: close_def)
  note b = assms(2) [unfolded books_inv_def]
  have "tp_waiting (cn_tp c) \<subseteq> set (cn_issued c)" using b by (metis Un_upper2 order_trans)
  then show ?thesis using b unfolding books_inv_def d f by simp
next
  case (receives i mt r)
  then show ?thesis using assms(2) by (auto simp: books_inv_def finish_call_def)
next
  case (times_out i mt)
  then show ?thesis using assms(2) by (auto simp: books_inv_def abandon_call_def finish_call_def take_waiter_def)
next
  case (write_fails i mt e)
  then show ?thesis using assms(2) by (auto simp: books_inv_def abandon_call_def finish_call_def take_waiter_def)
qed

lemma issued_grows:
  assumes "conn_step c c'"
  shows "prefix (cn_issued c) (cn_issued c')"
  using assms
proof (cases rule: conn_step.cases)
  case (start m)
  show ?thesis by (rule begin_call_cases [of c m]) (use start in auto)
qed (auto simp: abandon_call_def finish_call_def)

lemma reach_inv:
  "conn_reach c \<Longrightarrow> ids_inv c \<and> genuine_inv c \<and> (distinct (cn_issued c) \<longrightarrow> books_inv c)"
proof (induction rule: conn_reach.induct)
  case reach_init
  then show ?case
    by (simp add: conn_init_def transport_init_def ids_inv_def genuine_inv_def books_inv_def)
next
  case (reach_step c c')
  have "distinct (cn_issued c') \<Longrightarrow> distinct (cn_issued c)"
    using issued_grows [OF reach_step.hyps(2)] by (auto simp: prefix_def)
  then show ?case
    using reach_step.IH ids_step genuine_step books_step reach_step.hyps(2) by blast
qed

lemma ids_distinct:
  assumes "ids_inv c" and "length (cn_issued c) < 2 ^ 64"
  shows "distinct (cn_issued c)"
proof -
  have "inj_on (\<lambda>k. of_nat (Suc k) :: u64) {..<length (cn_issued c)}"
  proof (rule inj_onI)
    fix j k
    assume "j \<in> {..<length (cn_issued c)}" "k \<in> {..<length (cn_issued c)}"
      and e: "(of_nat (Suc j) :: u64) = of_nat (Suc k)"
    then have "j < 2 ^ 64" "k < 2 ^ 64" using assms(2) by auto
    moreover have "(of_nat j :: u64) = of_nat k" using e by simp
    then have "unat (of_nat j :: u64) = unat (of_nat k :: u64)" by simp
    ultimately show "j = k" by (simp add: unat_of_nat)
  qed
  then have "distinct (map (\<lambda>k. of_nat (Suc k) :: u64) [0..<length (cn_issued c)])"
    by (simp add: distinct_map atLeast0LessThan)
  then show ?thesis using assms(1) by (metis ids_inv_def)
qed

text \<open>C4. No reply reaches the wrong caller and none is delivered twice: however calls, replies, events,
  failed writes, timeouts and the end of the connection interleave, with fewer than \<open>2 ^ 64\<close> calls
  each call returns at most once, and what it returns is the content of a message that arrived with
  its own identifier, or an error of the transport.\<close>

theorem replies_to_own_calls:
  assumes "conn_reach c" and "length (cn_issued c) < 2 ^ 64"
  shows "distinct (map fst (cn_done c)) \<and>
    (\<forall>(i, r) \<in> set (cn_done c).
       (\<exists>m \<in> set (cn_inbox c). message_id m = Some i \<and> r = parse_reply m) \<or>
       (\<exists>e. r = Inl (BrowserError e)))"
proof -
  have "books_inv c" "genuine_inv c" using reach_inv [OF assms(1)] ids_distinct assms(2) by blast+
  then show ?thesis by (auto simp: books_inv_def genuine_inv_def genuine_def)
qed

text \<open>Nobody waits on a dead connection: once it has closed, every call made so far has returned or
  has its answer ready to be picked up, and every later call fails at once.\<close>

theorem closed_answers_everyone:
  assumes "conn_reach c" and "length (cn_issued c) < 2 ^ 64" and "tp_closed (cn_tp c) = Some reason"
  shows "(\<forall>i \<in> set (cn_issued c). i \<in> fst ` set (cn_done c) \<or> tp_slots (cn_tp c) i \<noteq> None) \<and>
    tp_waiting (cn_tp c) = {} \<and>
    (\<exists>i. cn_done (begin_call mt c)
       = cn_done c @ [(i, Inl (BrowserError (''cannot call '' @ mt @ '': '' @ reason)))])"
proof -
  have "books_inv c" using reach_inv [OF assms(1)] ids_distinct assms(2) by blast
  then have w: "tp_waiting (cn_tp c) = {}" and
      i: "fst ` set (cn_done c) \<union> dom (cn_open c) = set (cn_issued c)" and
      o: "dom (cn_open c) \<subseteq> dom (tp_slots (cn_tp c))"
    using assms(3) by (auto simp: books_inv_def)
  have "\<exists>i. cn_done (begin_call mt c)
       = cn_done c @ [(i, Inl (BrowserError (''cannot call '' @ mt @ '': '' @ reason)))]"
    by (rule begin_call_cases [of c mt]) (use assms(3) in auto)
  then show ?thesis using w i o by blast
qed

text \<open>
  For the witnesses: two calls, of which the second is answered first, an event, and the end of the
  connection before the first is answered.
\<close>

definition answer2 :: json where
  "answer2 = JObj [(''id'', JInt 2), (''result'', JStr ''ok'')]"

definition demo_conn :: conn where
  "demo_conn =
     (let c2 = begin_call ''B'' (begin_call ''A'' conn_init);
          c3 = c2\<lparr>cn_tp := dispatch answer2 (cn_tp c2), cn_inbox := cn_inbox c2 @ [answer2]\<rparr>;
          c4 = finish_call 2 (Inr (JStr ''ok'')) c3
      in c4\<lparr>cn_tp := close ''gone'' (cn_tp c4)\<rparr>)"

lemma demo_facts:
  "conn_reach demo_conn" "cn_issued demo_conn = [1, 2]" "cn_done demo_conn = [(2, Inr (JStr ''ok''))]"
  "tp_closed (cn_tp demo_conn) = Some ''gone''" "cn_inbox demo_conn = [answer2]"
proof -
  let ?c2 = "begin_call ''B'' (begin_call ''A'' conn_init)"
  let ?c3 = "?c2\<lparr>cn_tp := dispatch answer2 (cn_tp ?c2), cn_inbox := cn_inbox ?c2 @ [answer2]\<rparr>"
  let ?c4 = "finish_call 2 (Inr (JStr ''ok'')) ?c3"
  note eval = conn_init_def transport_init_def begin_call_def fresh_id_def register_def
  have c2: "?c2 = \<lparr>cn_tp = \<lparr>tp_next_id = 3, tp_waiting = {1, 2}, tp_closed = None,
        tp_slots = Map.empty, tp_events = []\<rparr>, cn_issued = [1, 2], cn_open = [1 \<mapsto> ''A'', 2 \<mapsto> ''B''],
        cn_done = [], cn_inbox = []\<rparr>"
    by (simp add: eval insert_commute)
  have m: "message_id answer2 = Some 2" "parse_reply answer2 = Inr (JStr ''ok'')"
    by (simp_all add: message_id_def answer2_def parse_reply_def)
  have c3: "cn_open ?c3 2 = Some ''B''" "tp_slots (cn_tp ?c3) 2 = Some (Inr (JStr ''ok''))"
    unfolding c2 by (simp_all add: dispatch_def m take_waiter_def)
  have "conn_reach ?c2" by (intro reach_step [OF reach_step [OF reach_init start] start])
  then have "conn_reach ?c3" by (rule reach_step [OF _ arrives])
  then have "conn_reach ?c4" by (rule reach_step [OF _ receives [OF c3]])
  then show "conn_reach demo_conn" unfolding demo_conn_def Let_def by (rule reach_step [OF _ closes])
  show "cn_issued demo_conn = [1, 2]" "cn_done demo_conn = [(2, Inr (JStr ''ok''))]"
      "tp_closed (cn_tp demo_conn) = Some ''gone''" "cn_inbox demo_conn = [answer2]"
    unfolding demo_conn_def Let_def c2 by (simp_all add: finish_call_def close_def)
qed

theorem replies_to_own_calls_witness:
  "cn_done demo_conn = [(2, Inr (JStr ''ok''))] \<and>
   ((\<exists>m \<in> {answer2}. message_id m = Some 2 \<and> Inr (JStr ''ok'') = parse_reply m) \<or>
    (\<exists>e. (Inr (JStr ''ok'') :: reply) = Inl (BrowserError e)))"
  using replies_to_own_calls [OF demo_facts(1)] demo_facts by simp

theorem closed_answers_everyone_witness:
  "tp_slots (cn_tp demo_conn) 1 \<noteq> None \<and> tp_closed (cn_tp demo_conn) = Some ''gone''"
  using closed_answers_everyone [OF demo_facts(1) _ demo_facts(4), of "''C''"] demo_facts by simp

end
