(* ===== verification/CdpLaunch.thy ===== *)
theory CdpLaunch
  imports Events Profile
begin

text \<open>
  Models \<open>src/src/cdp/launch.rs\<close>: finding the browser, its command line, and the launch with everything
  it creates. Paths and arguments are strings. What the operating system answers is the record
  \<open>os\<close>: the environment variables, which paths exist, and the outcome of each call that can fail, an
  error as its text. \<open>launch\<close> also returns the profile directories that are left on disk.
\<close>

section \<open>Configuration\<close>

definition PIPE_READ_FD :: int where "PIPE_READ_FD = 3"
definition PIPE_WRITE_FD :: int where "PIPE_WRITE_FD = 4"

definition CHROME_EXECUTABLES :: "string list" where
  "CHROME_EXECUTABLES =
     [''google-chrome-stable'', ''google-chrome'', ''chromium'', ''chromium-browser'', ''chrome'']"

definition DELIBERATELY_OMITTED :: "string list" where
  "DELIBERATELY_OMITTED =
     [''--enable-automation'', ''--remote-debugging-port'', ''--disable-extensions'',
      ''--disable-default-apps'', ''--disable-infobars'']"

record launch_config =
  lc_chrome_path :: "string option"
  lc_headless :: bool
  lc_user_agent :: "string option"
  lc_accept_language :: "string option"
  lc_window_size :: "(u32 \<times> u32) option"
  lc_proxy_server :: "string option"
  lc_accept_insecure_certs :: bool
  lc_trusted_spki :: "string option"
  lc_no_sandbox :: bool
  lc_extra_args :: "string list"

definition launch_config_default :: launch_config where
  "launch_config_default =
     \<lparr>lc_chrome_path = None, lc_headless = True, lc_user_agent = None, lc_accept_language = None,
      lc_window_size = None, lc_proxy_server = None, lc_accept_insecure_certs = False,
      lc_trusted_spki = None, lc_no_sandbox = True, lc_extra_args = []\<rparr>"

definition launch_for_profile :: "browser_profile \<Rightarrow> launch_config" where
  "launch_for_profile p =
     launch_config_default
       \<lparr>lc_user_agent := Some (user_agent p), lc_accept_language := Some (accept_language p),
        lc_window_size := Some (viewport_width p, viewport_height p)\<rparr>"

section \<open>Finding the browser\<close>

record os =
  os_exists :: "string \<Rightarrow> bool"
  os_is_file :: "string \<Rightarrow> bool"
  os_chrome_bin :: "string option"
  os_path :: "string option"
  os_temp_dir :: string
  os_suffix :: u64
  os_mkdir :: "string option"
  os_pipe_in :: "string option"
  os_pipe_out :: "string option"
  os_map_fds :: "string option"
  os_spawn :: "string \<Rightarrow> string list \<Rightarrow> string + u32"

text \<open>\<open>Path::join\<close> with a relative name.\<close>

definition path_join :: "string \<Rightarrow> string \<Rightarrow> string" where
  "path_join dir name =
     (if dir = [] \<or> last dir = CHR ''/'' then dir @ name else dir @ ''/'' @ name)"

fun first_file :: "(string \<Rightarrow> bool) \<Rightarrow> string list \<Rightarrow> string option" where
  "first_file is_file [] = None"
| "first_file is_file (c # cs) = (if is_file c then Some c else first_file is_file cs)"

definition path_candidates :: "os \<Rightarrow> string list" where
  "path_candidates sys =
     concat (map (\<lambda>dir. map (path_join dir) CHROME_EXECUTABLES)
       (split_char (CHR '':'') (case os_path sys of None \<Rightarrow> '''' | Some p \<Rightarrow> p)))"

definition find_chrome :: "os \<Rightarrow> launch_config \<Rightarrow> error + string" where
  "find_chrome sys config =
     (case lc_chrome_path config of
        Some path \<Rightarrow>
          if os_exists sys path then Inr path
          else Inl (ConfigError (''configured chrome_path does not exist: '' @ path))
      | None \<Rightarrow>
          (let search = (case first_file (os_is_file sys) (path_candidates sys) of
                 Some c \<Rightarrow> Inr c
               | None \<Rightarrow> Inl (ConfigError (''no browser found on PATH (looked for ''
                             @ join '', '' CHROME_EXECUTABLES @ ''); set CHROME_BIN or chrome_path'')))
           in (case os_chrome_bin sys of
                 Some path \<Rightarrow> if os_exists sys path then Inr path else search
               | None \<Rightarrow> search)))"

section \<open>The command line\<close>

definition opt_arg :: "('a \<Rightarrow> string) \<Rightarrow> 'a option \<Rightarrow> string list" where
  "opt_arg f x = (case x of None \<Rightarrow> [] | Some a \<Rightarrow> [f a])"

definition build_args :: "launch_config \<Rightarrow> string \<Rightarrow> string list" where
  "build_args config user_data_dir =
     [''--remote-debugging-pipe'', ''--user-data-dir='' @ user_data_dir]
     @ (if lc_headless config then [''--headless=new''] else [])
     @ [''--disable-blink-features=AutomationControlled'', ''--no-first-run'',
        ''--no-default-browser-check'']
     @ (if lc_no_sandbox config then [''--no-sandbox''] else [])
     @ [''--disable-dev-shm-usage'']
     @ opt_arg (\<lambda>ua. ''--user-agent='' @ ua) (lc_user_agent config)
     @ opt_arg (\<lambda>l. ''--accept-lang='' @ l) (lc_accept_language config)
     @ opt_arg (\<lambda>(width, height). ''--window-size='' @ dec (unat width) @ '','' @ dec (unat height))
         (lc_window_size config)
     @ (case lc_proxy_server config of
          None \<Rightarrow> []
        | Some proxy \<Rightarrow> [''--proxy-server='' @ proxy, ''--proxy-bypass-list=<-loopback>''])
     @ (case lc_trusted_spki config of
          Some pin \<Rightarrow> [''--ignore-certificate-errors-spki-list='' @ pin]
        | None \<Rightarrow> if lc_accept_insecure_certs config then [''--ignore-certificate-errors''] else [])
     @ lc_extra_args config"

section \<open>Launching\<close>

text \<open>A 64-bit number in sixteen hexadecimal digits.\<close>

definition hex16 :: "u64 \<Rightarrow> string" where
  "hex16 x = map (\<lambda>k. hex_digit (unat x div 16 ^ k mod 16)) (rev [0..<16])"

definition profile_dir_path :: "os \<Rightarrow> string" where
  "profile_dir_path sys = path_join (os_temp_dir sys) (''stealthscraper-'' @ hex16 (os_suffix sys))"

text \<open>Creating the directory; what exists on disk afterwards is the second component.\<close>

definition profile_dir_new :: "os \<Rightarrow> (error + string) \<times> string list" where
  "profile_dir_new sys =
     (let path = profile_dir_path sys in
      case os_mkdir sys of
        Some e \<Rightarrow>
          (Inl (ConfigError (''could not create profile directory '' @ path @ '': '' @ e)), [])
      | None \<Rightarrow> (Inr path, [path]))"

record launched_browser =
  lb_pid :: u32
  lb_pipes :: bool
  lb_profile :: string
  lb_binary :: string
  lb_args :: "string list"
  lb_fds :: "(string \<times> int) list"

definition take_pipes :: "launched_browser \<Rightarrow> (error + unit) \<times> launched_browser" where
  "take_pipes b =
     (if lb_pipes b then (Inr (), b\<lparr>lb_pipes := False\<rparr>)
      else (Inl (BrowserError ''the CDP pipes have already been taken''), b))"

text \<open>
  Every step after the directory is created may fail; the directory's owner is then dropped and
  removes it. The far ends of the two pipes are mapped onto the descriptors the browser uses.
\<close>

definition launch :: "os \<Rightarrow> launch_config \<Rightarrow> (error + launched_browser) \<times> string list" where
  "launch sys config =
     (case find_chrome sys config of
        Inl e \<Rightarrow> (Inl e, [])
      | Inr binary \<Rightarrow>
          (case profile_dir_new sys of
             (Inl e, left) \<Rightarrow> (Inl e, left)
           | (Inr profile, left) \<Rightarrow>
               (let dropped = filter (\<lambda>d. d \<noteq> profile) left;
                    args = build_args config profile in
                case os_pipe_in sys of
                  Some e \<Rightarrow> (Inl (BrowserError (''could not create CDP input pipe: '' @ e)), dropped)
                | None \<Rightarrow>
                (case os_pipe_out sys of
                  Some e \<Rightarrow> (Inl (BrowserError (''could not create CDP output pipe: '' @ e)), dropped)
                | None \<Rightarrow>
                (case os_map_fds sys of
                  Some e \<Rightarrow> (Inl (BrowserError (''could not map CDP descriptors: '' @ e)), dropped)
                | None \<Rightarrow>
                (case os_spawn sys binary args of
                  Inl e \<Rightarrow> (Inl (BrowserError (''could not launch '' @ binary @ '': '' @ e)), dropped)
                | Inr pid \<Rightarrow>
                    (Inr \<lparr>lb_pid = pid, lb_pipes = True, lb_profile = profile, lb_binary = binary,
                          lb_args = args,
                          lb_fds = [(''browser_input'', PIPE_READ_FD), (''browser_output'', PIPE_WRITE_FD)]\<rparr>,
                     left)))))))"

text \<open>Dropping a launched browser kills it and removes its directory.\<close>

definition drop_browser :: "launched_browser \<Rightarrow> string list \<Rightarrow> string list" where
  "drop_browser b dirs = filter (\<lambda>d. d \<noteq> lb_profile b) dirs"

section \<open>What a launch guarantees\<close>

definition flag_absent :: "string \<Rightarrow> string list \<Rightarrow> bool" where
  "flag_absent f args = list_all (\<lambda>a. \<not> prefix f a) args"

lemma flag_absent_simps:
  "flag_absent f [] \<longleftrightarrow> True"
  "flag_absent f (a # as) \<longleftrightarrow> \<not> prefix f a \<and> flag_absent f as"
  "flag_absent f (as @ bs) \<longleftrightarrow> flag_absent f as \<and> flag_absent f bs"
  "flag_absent f (if q then as else bs) \<longleftrightarrow> (q \<longrightarrow> flag_absent f as) \<and> (\<not> q \<longrightarrow> flag_absent f bs)"
  "flag_absent f (case v of None \<Rightarrow> as | Some x \<Rightarrow> g x)
     \<longleftrightarrow> (v = None \<longrightarrow> flag_absent f as) \<and> (\<forall>x. v = Some x \<longrightarrow> flag_absent f (g x))"
  "flag_absent f (opt_arg h v) \<longleftrightarrow> (\<forall>x. v = Some x \<longrightarrow> \<not> prefix f (h x))"
  by (auto simp: flag_absent_def opt_arg_def split: option.split)

lemma omitted_absent:
  "list_all (\<lambda>f. flag_absent f (lc_extra_args c)) DELIBERATELY_OMITTED \<Longrightarrow>
     list_all (\<lambda>f. flag_absent f (build_args c d)) DELIBERATELY_OMITTED"
  unfolding DELIBERATELY_OMITTED_def list.pred_inject build_args_def flag_absent_simps by simp

definition insecure_flag :: string where "insecure_flag = ''--ignore-certificate-errors''"

lemma insecure_literals:
  "insecure_flag \<noteq> ''--remote-debugging-pipe''" "insecure_flag \<noteq> ''--user-data-dir='' @ d"
  "insecure_flag \<noteq> ''--headless=new''" "insecure_flag \<noteq> ''--disable-blink-features=AutomationControlled''"
  "insecure_flag \<noteq> ''--no-first-run''" "insecure_flag \<noteq> ''--no-default-browser-check''"
  "insecure_flag \<noteq> ''--no-sandbox''" "insecure_flag \<noteq> ''--disable-dev-shm-usage''"
  "insecure_flag \<noteq> ''--user-agent='' @ d" "insecure_flag \<noteq> ''--accept-lang='' @ d"
  "insecure_flag \<noteq> ''--window-size='' @ d" "insecure_flag \<noteq> ''--proxy-server='' @ d"
  "insecure_flag \<noteq> ''--proxy-bypass-list=<-loopback>''"
  "insecure_flag \<noteq> ''--ignore-certificate-errors-spki-list='' @ d"
  by (simp_all add: insecure_flag_def)

lemmas insecure_tails = insecure_literals(2,9,10,11,12,14) [simplified]

lemma set_opt_arg: "set (opt_arg h v) = (case v of None \<Rightarrow> {} | Some x \<Rightarrow> {h x})"
  by (simp add: opt_arg_def split: option.split)

lemma insecure_flag_mem:
  "insecure_flag \<in> set (build_args c d) \<longleftrightarrow>
     lc_accept_insecure_certs c \<and> lc_trusted_spki c = None \<or> insecure_flag \<in> set (lc_extra_args c)"
proof -
  have o: "insecure_flag \<notin> set (opt_arg (\<lambda>ua. ''--user-agent='' @ ua) (lc_user_agent c))"
    "insecure_flag \<notin> set (opt_arg (\<lambda>l. ''--accept-lang='' @ l) (lc_accept_language c))"
    "insecure_flag \<notin> set (opt_arg (\<lambda>(w, h). ''--window-size='' @ dec (unat w) @ '','' @ dec (unat h))
         (lc_window_size c))"
    "insecure_flag \<notin> set (case lc_proxy_server c of None \<Rightarrow> []
        | Some proxy \<Rightarrow> [''--proxy-server='' @ proxy, ''--proxy-bypass-list=<-loopback>''])"
    "insecure_flag \<notin> set (if lc_headless c then [''--headless=new''] else [])"
    "insecure_flag \<notin> set (if lc_no_sandbox c then [''--no-sandbox''] else [])"
    unfolding set_opt_arg
    by (simp_all add: insecure_literals insecure_tails split: option.split prod.split)
  have t: "insecure_flag \<in> set (case lc_trusted_spki c of
          Some pin \<Rightarrow> [''--ignore-certificate-errors-spki-list='' @ pin]
        | None \<Rightarrow> if lc_accept_insecure_certs c then [''--ignore-certificate-errors''] else [])
      \<longleftrightarrow> lc_accept_insecure_certs c \<and> lc_trusted_spki c = None"
    by (simp add: insecure_tails insecure_flag_def [symmetric] split: option.split)
  show ?thesis
    unfolding build_args_def set_append Un_iff t list.set insert_iff empty_iff
    using o insecure_literals(1,4,5,6,8) insecure_literals(2) [of d] by blast
qed

text \<open>The command line stays that of an ordinary browser: none of the flags that give automation
away appears unless the caller adds it by hand, the debugging channel is the pipe, the profile
directory is the launch's own, and certificate checking is never switched off wholesale when one key
has been pinned.\<close>

theorem launch_args_stealthy:
  assumes "list_all (\<lambda>f. flag_absent f (lc_extra_args c)) DELIBERATELY_OMITTED"
    and "insecure_flag \<notin> set (lc_extra_args c)"
  shows "list_all (\<lambda>f. flag_absent f (build_args c d)) DELIBERATELY_OMITTED
    \<and> ''--remote-debugging-pipe'' \<in> set (build_args c d)
    \<and> ''--user-data-dir='' @ d \<in> set (build_args c d)
    \<and> (insecure_flag \<in> set (build_args c d) \<longleftrightarrow>
         lc_accept_insecure_certs c \<and> lc_trusted_spki c = None)"
proof -
  have "list_all (\<lambda>f. flag_absent f (build_args c d)) DELIBERATELY_OMITTED"
    by (rule omitted_absent [OF assms(1)])
  moreover have "''--remote-debugging-pipe'' \<in> set (build_args c d)"
    "''--user-data-dir='' @ d \<in> set (build_args c d)"
    unfolding build_args_def by simp_all
  ultimately show ?thesis using assms(2) insecure_flag_mem by blast
qed

definition sample_launch :: launch_config where
  "sample_launch =
     launch_config_default\<lparr>lc_trusted_spki := Some ''pin'', lc_accept_insecure_certs := True\<rparr>"

theorem launch_args_stealthy_witness:
  "list_all (\<lambda>f. flag_absent f (build_args sample_launch ''/tmp/p'')) DELIBERATELY_OMITTED
   \<and> insecure_flag \<notin> set (build_args sample_launch ''/tmp/p'')"
proof -
  have "lc_extra_args sample_launch = []" "lc_trusted_spki sample_launch = Some ''pin''"
    by (simp_all add: sample_launch_def launch_config_default_def)
  then show ?thesis
    using launch_args_stealthy [of sample_launch "''/tmp/p''"]
    by (simp add: flag_absent_simps(1) list_all_iff)
qed

lemma first_file_Some: "first_file f cs = Some c \<Longrightarrow> f c \<and> c \<in> set cs"
  by (induction cs) (auto split: if_splits)

lemma first_file_None: "first_file f cs = None \<longleftrightarrow> (\<forall>c \<in> set cs. \<not> f c)"
  by (induction cs) auto

text \<open>The browser that is found is there: an explicit path is used or refused and never replaced,
and otherwise the answer exists, as the configured binary or as one of the known names in a directory
of the search path; it is refused only when no such file is there.\<close>

theorem find_chrome_exact:
  "case find_chrome sys c of
     Inr path \<Rightarrow> (if lc_chrome_path c \<noteq> None then lc_chrome_path c = Some path \<and> os_exists sys path
                  else os_chrome_bin sys = Some path \<and> os_exists sys path
                       \<or> path \<in> set (path_candidates sys) \<and> os_is_file sys path)
   | Inl e \<Rightarrow> (if lc_chrome_path c \<noteq> None then \<not> os_exists sys (the (lc_chrome_path c))
               else list_all (\<lambda>p. \<not> os_is_file sys p) (path_candidates sys))"
proof (cases "lc_chrome_path c")
  case (Some path)
  then show ?thesis by (simp add: find_chrome_def)
next
  case None
  then show ?thesis
    using first_file_Some [of "os_is_file sys" "path_candidates sys"]
      first_file_None [of "os_is_file sys" "path_candidates sys"]
    by (auto simp: find_chrome_def Let_def list_all_iff split: option.split if_splits)
qed

lemma find_chrome_explicit_missing:
  "find_chrome sys (launch_config_default\<lparr>lc_chrome_path := Some p\<rparr>) \<noteq> Inr q \<or> q = p"
  by (simp add: find_chrome_def launch_config_default_def)


end
