(* ===== verification/Geo.thy ===== *)
theory Geo
  imports Rust_Str
begin

text \<open>
  Models \<open>src/src/geo.rs\<close>: country codes with their parsing constructor (the type's only one, also
  behind its deserializer), the curated table of locales, and the reading of an \<open>Accept-Language\<close>
  header. The resolver port \<open>GeoResolver\<close> is an argument of the code that asks it.
\<close>

section \<open>Country codes\<close>

datatype country_code = CountryCode (cc_first: char) (cc_second: char)

definition country_new :: "string \<Rightarrow> country_code option" where
  "country_new code =
     (case code of
        [a, b] \<Rightarrow> if is_alpha a \<and> is_alpha b then Some (CountryCode (upper_char a) (upper_char b))
                  else None
      | _ \<Rightarrow> None)"

definition as_str :: "country_code \<Rightarrow> string" where
  "as_str c = [cc_first c, cc_second c]"

definition country_serialize :: "country_code \<Rightarrow> string" where
  "country_serialize c = as_str c"

definition country_deserialize :: "string \<Rightarrow> string + country_code" where
  "country_deserialize raw = ok_or ''a two-letter ISO 3166-1 country code'' (country_new raw)"

definition valid_country :: "country_code \<Rightarrow> bool" where
  "valid_country c \<longleftrightarrow> is_upper (cc_first c) \<and> is_upper (cc_second c)"

lemma upper_is_alpha: "is_upper c \<Longrightarrow> is_alpha c \<and> upper_char c = c"
  by (auto simp: is_alpha_def upper_char_def is_lower_def is_upper_def)

lemma country_new_valid: "country_new s = Some c \<Longrightarrow> valid_country c"
  by (auto simp: country_new_def valid_country_def is_upper_upper_char
      split: list.splits if_splits)

lemma country_new_as_str: "valid_country c \<Longrightarrow> country_new (as_str c) = Some c"
  by (cases c) (simp add: country_new_def as_str_def valid_country_def upper_is_alpha)

text \<open>A country code survives persistence: what the constructor accepts is stored as two upper
  case letters, and reading the stored text back gives the same code; a stored text that is not two
  letters is refused.\<close>

theorem country_roundtrip:
  "(country_new s = Some c \<longrightarrow> country_deserialize (country_serialize c) = Inr c) \<and>
   (is_ok (country_deserialize s) \<longleftrightarrow> length s = 2 \<and> list_all is_alpha s)"
proof
  show "country_new s = Some c \<longrightarrow> country_deserialize (country_serialize c) = Inr c"
    using country_new_valid country_new_as_str
    by (auto simp: country_deserialize_def country_serialize_def)
  have "country_new s \<noteq> None \<longleftrightarrow> length s = 2 \<and> list_all is_alpha s"
    by (auto simp: country_new_def split: list.splits)
  then show "is_ok (country_deserialize s) \<longleftrightarrow> length s = 2 \<and> list_all is_alpha s"
    by (cases "country_new s") (auto simp: country_deserialize_def)
qed

theorem country_roundtrip_witness:
  "country_new ''de'' = Some (CountryCode (CHR ''D'') (CHR ''E'')) \<and>
   country_deserialize (country_serialize (CountryCode (CHR ''D'') (CHR ''E'')))
     = Inr (CountryCode (CHR ''D'') (CHR ''E''))"
proof -
  have "country_new ''de'' = Some (CountryCode (CHR ''D'') (CHR ''E''))" by code_simp
  then show ?thesis using country_roundtrip by blast
qed

section \<open>Locales\<close>

record locale_bundle =
  loc_country :: country_code
  loc_accept_language :: string
  loc_languages :: "string list"
  loc_timezone :: string

definition locale_table :: "(string \<times> string \<times> string list \<times> string) list" where
  "locale_table =
    [(''US'', ''en-US,en;q=0.9'', [''en-US'', ''en''], ''America/New_York''),
     (''GB'', ''en-GB,en;q=0.9'', [''en-GB'', ''en''], ''Europe/London''),
     (''CA'', ''en-CA,en;q=0.9,fr-CA;q=0.8'', [''en-CA'', ''en'', ''fr-CA''], ''America/Toronto''),
     (''AU'', ''en-AU,en;q=0.9'', [''en-AU'', ''en''], ''Australia/Sydney''),
     (''DE'', ''de-DE,de;q=0.9,en;q=0.8'', [''de-DE'', ''de'', ''en''], ''Europe/Berlin''),
     (''FR'', ''fr-FR,fr;q=0.9,en;q=0.8'', [''fr-FR'', ''fr'', ''en''], ''Europe/Paris''),
     (''ES'', ''es-ES,es;q=0.9,en;q=0.8'', [''es-ES'', ''es'', ''en''], ''Europe/Madrid''),
     (''IT'', ''it-IT,it;q=0.9,en;q=0.8'', [''it-IT'', ''it'', ''en''], ''Europe/Rome''),
     (''NL'', ''nl-NL,nl;q=0.9,en;q=0.8'', [''nl-NL'', ''nl'', ''en''], ''Europe/Amsterdam''),
     (''PL'', ''pl-PL,pl;q=0.9,en;q=0.8'', [''pl-PL'', ''pl'', ''en''], ''Europe/Warsaw''),
     (''SE'', ''sv-SE,sv;q=0.9,en;q=0.8'', [''sv-SE'', ''sv'', ''en''], ''Europe/Stockholm''),
     (''BR'', ''pt-BR,pt;q=0.9,en;q=0.8'', [''pt-BR'', ''pt'', ''en''], ''America/Sao_Paulo''),
     (''MX'', ''es-MX,es;q=0.9,en;q=0.8'', [''es-MX'', ''es'', ''en''], ''America/Mexico_City''),
     (''JP'', ''ja-JP,ja;q=0.9,en;q=0.8'', [''ja-JP'', ''ja'', ''en''], ''Asia/Tokyo''),
     (''IN'', ''en-IN,en;q=0.9,hi;q=0.8'', [''en-IN'', ''en'', ''hi''], ''Asia/Kolkata'')]"

definition for_country :: "country_code \<Rightarrow> locale_bundle option" where
  "for_country c =
     map_option (\<lambda>(accept, langs, tz).
         \<lparr>loc_country = c, loc_accept_language = accept, loc_languages = langs, loc_timezone = tz\<rparr>)
       (map_of locale_table (as_str c))"

definition primary_language :: "locale_bundle \<Rightarrow> string" where
  "primary_language l = (case loc_languages l of [] \<Rightarrow> ''en-US'' | x # _ \<Rightarrow> x)"

section \<open>Accept-Language\<close>

definition language_tag :: "string \<Rightarrow> string" where
  "language_tag part = trim (hd (split_char (CHR '';'') part))"

definition languages_from_accept_language :: "string \<Rightarrow> string list" where
  "languages_from_accept_language s =
     filter (\<lambda>t. t \<noteq> []) (map language_tag (split_char (CHR '','') s))"

text \<open>Every row of the table is coherent, decided by evaluation.\<close>

definition coherent_row :: "string \<times> string \<times> string list \<times> string \<Rightarrow> bool" where
  "coherent_row row = (case row of (code, accept, langs, tz) \<Rightarrow>
     languages_from_accept_language accept = langs \<and>
     langs \<noteq> [] \<and> drop 2 (hd langs) = CHR ''-'' # code \<and> tz \<noteq> [])"

lemma languages_graphic:
  assumes "list_all graphic s"
  shows "languages_from_accept_language s
         = filter (\<lambda>t. t \<noteq> []) (map (\<lambda>p. hd (split_char (CHR '';'') p)) (split_char (CHR '','') s))"
proof -
  have "language_tag p = hd (split_char (CHR '';'') p)" if "p \<in> set (split_char (CHR '','') s)" for p
  proof -
    have "set (hd (split_char (CHR '';'') p)) \<subseteq> set p"
      by (rule split_char_subset [of _ "CHR '';''"]) simp
    also have "\<dots> \<subseteq> set s" using split_char_subset that by blast
    finally have "list_all graphic (hd (split_char (CHR '';'') p))"
      using assms by (auto simp: list_all_iff)
    then show ?thesis by (simp add: language_tag_def trim_graphic)
  qed
  then show ?thesis by (simp add: languages_from_accept_language_def cong: map_cong)
qed

definition coherent_ascii_row :: "string \<times> string \<times> string list \<times> string \<Rightarrow> bool" where
  "coherent_ascii_row row = (case row of (code, accept, langs, tz) \<Rightarrow>
     list_all graphic accept \<and>
     filter (\<lambda>t. t \<noteq> []) (map (\<lambda>p. hd (split_char (CHR '';'') p)) (split_char (CHR '','') accept))
       = langs \<and>
     langs \<noteq> [] \<and> drop 2 (hd langs) = CHR ''-'' # code \<and> tz \<noteq> [])"

lemma table_ascii: "list_all coherent_ascii_row locale_table"
  by code_simp

lemma table_coherent: "list_all coherent_row locale_table"
proof -
  have "coherent_ascii_row row \<Longrightarrow> coherent_row row" for row
    using languages_graphic by (auto simp: coherent_row_def coherent_ascii_row_def)
  then show ?thesis using table_ascii by (metis list_all_iff)
qed

lemma for_country_row:
  assumes "for_country c = Some l"
  shows "coherent_row (as_str c, loc_accept_language l, loc_languages l, loc_timezone l)"
    and "loc_country l = c"
proof -
  obtain a ls tz where m: "map_of locale_table (as_str c) = Some (a, ls, tz)"
      and l: "l = \<lparr>loc_country = c, loc_accept_language = a, loc_languages = ls, loc_timezone = tz\<rparr>"
    using assms by (auto simp: for_country_def)
  then show "coherent_row (as_str c, loc_accept_language l, loc_languages l, loc_timezone l)"
    using table_coherent by (auto simp: list_all_iff dest: map_of_SomeD)
  show "loc_country l = c" using l by simp
qed

text \<open>A locale taken from the table cannot contradict itself: the languages a page reads are
  exactly the ones the header carries, in its order, and the first of them is a tag whose region is
  the country of the proxy.\<close>

theorem locale_coherent:
  assumes "for_country c = Some l"
  shows "languages_from_accept_language (loc_accept_language l) = loc_languages l \<and>
         drop 2 (primary_language l) = CHR ''-'' # as_str c \<and>
         loc_country l = c \<and> loc_timezone l \<noteq> []"
  using for_country_row [OF assms]
  by (auto simp: coherent_row_def primary_language_def split: list.splits)

theorem locale_coherent_witness:
  "\<exists>l. for_country (CountryCode (CHR ''D'') (CHR ''E'')) = Some l \<and>
       drop 2 (primary_language l) = ''-DE''"
proof -
  have "for_country (CountryCode (CHR ''D'') (CHR ''E'')) \<noteq> None" by code_simp
  then obtain l where l: "for_country (CountryCode (CHR ''D'') (CHR ''E'')) = Some l" by blast
  then show ?thesis using locale_coherent [OF l] by (auto simp: as_str_def)
qed

lemma languages_not_empty: "t \<in> set (languages_from_accept_language s) \<Longrightarrow> t \<noteq> []"
  by (auto simp: languages_from_accept_language_def)

end
