(* ===== verification/Upstream.thy ===== *)
theory Upstream
  imports Emulation Events Geo
begin

text \<open>
  Models the free functions at the head of \<open>src/src/scraper.rs\<close>: the impersonation client of an egress,
  the redaction of a proxy URL and the locale of a proxy. A client is what the HTTP library was asked
  to build; that the library accepts a proxy URL and a configuration is \<open>proxy_ok\<close> and \<open>client_ok\<close>,
  which give the text of its error. URLs are parsed by another package: a \<open>url\<close> is what the sources
  read of a parsed URL, \<open>u_text\<close> its rendering for a user name and a password.
\<close>

record http_client =
  hc_emulation :: emulation
  hc_proxy :: "string option"
  hc_timeout :: duration

record http_request =
  hr_url :: string
  hr_timeout :: duration
  hr_headers :: "(string \<times> string) list"

record http_reply =
  rp_status :: u16
  rp_headers :: "(string \<times> string option) list"
  rp_body :: "string + string"

record url =
  u_scheme :: string
  u_host :: "string option"
  u_path :: string
  u_username :: string
  u_password :: "string option"
  u_settable :: bool
  u_text :: "string \<Rightarrow> string option \<Rightarrow> string"

definition UPSTREAM_TIMEOUT :: duration where "UPSTREAM_TIMEOUT = from_secs 30"

definition build_impersonation_client ::
    "(string \<Rightarrow> string option) \<Rightarrow> (http_client \<Rightarrow> string option)
       \<Rightarrow> browser_profile \<Rightarrow> string option \<Rightarrow> error + http_client" where
  "build_impersonation_client proxy_ok client_ok p upstream =
     (let c = \<lparr>hc_emulation = for_kind (browser_kind p), hc_proxy = upstream,
               hc_timeout = UPSTREAM_TIMEOUT\<rparr> in
      case Option.bind upstream proxy_ok of
        Some e \<Rightarrow> Inl (HttpClientError e)
      | None \<Rightarrow> (case client_ok c of Some e \<Rightarrow> Inl (HttpClientError e) | None \<Rightarrow> Inr c))"

definition redact_proxy_url :: "(string \<Rightarrow> string + url) \<Rightarrow> string \<Rightarrow> string" where
  "redact_proxy_url parse text =
     (case parse text of
        Inr u \<Rightarrow>
          if (u_username u \<noteq> [] \<or> u_password u \<noteq> None) \<and> u_settable u
          then u_text u '''' None
          else u_text u (u_username u) (u_password u)
      | Inl _ \<Rightarrow>
          (case split_once ''@'' text of
             Some (_, rest) \<Rightarrow> ''***@'' @ rest
           | None \<Rightarrow> text))"

definition resolve_locale ::
    "country_code option \<Rightarrow> string option \<Rightarrow> (string \<Rightarrow> country_code option) option \<Rightarrow> locale_bundle option"
where
  "resolve_locale country url resolver =
     Option.bind
       (case country of
          Some c \<Rightarrow> Some c
        | None \<Rightarrow> Option.bind resolver (\<lambda>r. Option.bind url r))
       for_country"

lemma build_client_Inr:
  "build_impersonation_client pok cok p u = Inr c \<Longrightarrow>
     c = \<lparr>hc_emulation = for_kind (browser_kind p), hc_proxy = u, hc_timeout = UPSTREAM_TIMEOUT\<rparr>"
  by (auto simp: build_impersonation_client_def Let_def split: option.splits)

text \<open>
  A redacted proxy URL does not depend on the credentials: two URLs that parse to the same address
  and differ in the user information alone, which a URL that has some can also lose, give one text.
\<close>

lemma redact_forgets_credentials:
  assumes "parse a = Inr u" "parse b = Inr (u\<lparr>u_username := n, u_password := p\<rparr>)"
    and "u_username u \<noteq> [] \<or> u_password u \<noteq> None" "u_settable u"
  shows "redact_proxy_url parse b = u_text u '''' None \<or> n = [] \<and> p = None"
    and "redact_proxy_url parse a = u_text u '''' None"
  using assms by (auto simp: redact_proxy_url_def)

lemma resolve_locale_tagged: "resolve_locale (Some c) url r = for_country c"
  by (simp add: resolve_locale_def)

end
