(* ===== verification/Effects.thy ===== *)
theory Effects
  imports CdpTransport CdpLaunch Upstream
begin

text \<open>
  The effects the browser-driving code has, shared by the theories above the transport. A world is
  the environment's state with a record of what was done to it: the protocol calls made, the domains
  enabled, the events emitted, the HTTP requests sent and the browsers launched. What the environment answers is the argument \<open>'e host\<close>: the reply to
  a call, the events received on a subscription, sleeping and the two clocks. An action returns a
  result and the new world, or \<open>None\<close> when one of its loops runs out of the fuel in \<open>ho_fuel\<close>; theorems
  that an action returns bound the fuel it needs.
\<close>

section \<open>Worlds and actions\<close>

type_synonym cdp_call = "string option \<times> string \<times> json option"

datatype recv_item = GotEvent cdp_event | Lagged nat | RecvClosed

record 'e world =
  w_env :: 'e
  w_calls :: "cdp_call list"
  w_enabled :: "(string \<times> string) set"
  w_log :: "scraper_event list"
  w_sent :: "(http_client \<times> http_request) list"
  w_launched :: "launch_config list"

record 'e host =
  ho_reply :: "cdp_call \<Rightarrow> 'e \<Rightarrow> reply \<times> 'e"
  ho_recv :: "nat \<Rightarrow> duration \<Rightarrow> 'e \<Rightarrow> recv_item list \<times> 'e"
  ho_sleep :: "duration \<Rightarrow> 'e \<Rightarrow> 'e"
  ho_instant :: "'e \<Rightarrow> nat"
  ho_now :: "'e \<Rightarrow> u64"
  ho_quote :: "string \<Rightarrow> string"
  ho_fuel :: nat

type_synonym ('e, 'a) act = "'e world \<Rightarrow> ((error + 'a) \<times> 'e world) option"

definition aret :: "'a \<Rightarrow> ('e, 'a) act" where "aret a w = Some (Inr a, w)"
definition afail :: "error \<Rightarrow> ('e, 'a) act" where "afail e w = Some (Inl e, w)"

definition abind :: "('e, 'a) act \<Rightarrow> ('a \<Rightarrow> ('e, 'b) act) \<Rightarrow> ('e, 'b) act" where
  "abind m f w =
     (case m w of
        None \<Rightarrow> None
      | Some (Inl e, w') \<Rightarrow> Some (Inl e, w')
      | Some (Inr a, w') \<Rightarrow> f a w')"

text \<open>Running an action and looking at its outcome, error or not.\<close>

definition atry :: "('e, 'a) act \<Rightarrow> ('e, error + 'a) act" where
  "atry m w = (case m w of None \<Rightarrow> None | Some (r, w') \<Rightarrow> Some (Inr r, w'))"

definition alift :: "error + 'a \<Rightarrow> ('e, 'a) act" where
  "alift r w = Some (r, w)"

definition emit :: "scraper_event \<Rightarrow> ('e, unit) act" where
  "emit ev w = Some (Inr (), w\<lparr>w_log := w_log w @ [ev]\<rparr>)"

definition sleep :: "'e host \<Rightarrow> duration \<Rightarrow> ('e, unit) act" where
  "sleep H d w = Some (Inr (), w\<lparr>w_env := ho_sleep H d (w_env w)\<rparr>)"

definition now_unix :: "'e host \<Rightarrow> ('e, u64) act" where
  "now_unix H w = Some (Inr (ho_now H (w_env w)), w)"

definition instant :: "'e host \<Rightarrow> ('e, nat) act" where
  "instant H w = Some (Inr (ho_instant H (w_env w)), w)"

definition cdp_send :: "'e host \<Rightarrow> string option \<Rightarrow> string \<Rightarrow> json option \<Rightarrow> ('e, json) act" where
  "cdp_send H session method params w =
     (case ho_reply H (session, method, params) (w_env w) of
        (r, e) \<Rightarrow> Some (r, w\<lparr>w_env := e, w_calls := w_calls w @ [(session, method, params)]\<rparr>))"

fun aeach :: "('x \<Rightarrow> ('e, unit) act) \<Rightarrow> 'x list \<Rightarrow> ('e, unit) act" where
  "aeach f [] = aret ()"
| "aeach f (x # xs) = abind (f x) (\<lambda>_. aeach f xs)"

definition nanos_of :: "duration \<Rightarrow> nat" where
  "nanos_of d = unat (as_secs d) * 1000000000 + unat (subsec_nanos d)"

definition from_millis :: "nat \<Rightarrow> duration" where
  "from_millis ms = Duration (of_nat (ms div 1000)) (of_nat (ms mod 1000 * 1000000))"

section \<open>What an action may send\<close>

text \<open>
  \<open>sends P m\<close>: whatever the environment answers, every protocol call \<open>m\<close> makes satisfies \<open>P\<close> and the
  record only grows.
\<close>

definition sends :: "(cdp_call \<Rightarrow> bool) \<Rightarrow> ('e, 'a) act \<Rightarrow> bool" where
  "sends P m \<longleftrightarrow>
     (\<forall>w r w'. m w = Some (r, w') \<longrightarrow> (\<exists>cs. w_calls w' = w_calls w @ cs \<and> list_all P cs))"

named_theorems sends_intros \<open>which protocol calls an action makes\<close>

lemma sends_Nil: "(\<And>w r w'. m w = Some (r, w') \<Longrightarrow> w_calls w' = w_calls w) \<Longrightarrow> sends P m"
  by (auto simp: sends_def)

lemma sends_pure [sends_intros]:
  "sends P (aret a)" "sends P (afail e)" "sends P (alift x)" "sends P (emit ev)" "sends P (sleep H d)"
  "sends P (now_unix H)" "sends P (instant H)"
  by (auto simp: sends_def aret_def afail_def alift_def emit_def sleep_def now_unix_def instant_def)

lemma sends_call [sends_intros]: "P (s, m, p) \<Longrightarrow> sends P (cdp_send H s m p)"
  by (auto simp: sends_def cdp_send_def split: prod.splits)

lemma sends_bind [sends_intros]:
  assumes "sends P m" and "\<And>a. sends P (f a)"
  shows "sends P (abind m f)"
  unfolding sends_def
proof (intro allI impI)
  fix w r w'
  assume b: "abind m f w = Some (r, w')"
  obtain q w1 where m: "m w = Some (q, w1)"
    using b by (auto simp: abind_def split: option.splits)
  then obtain cs where cs: "w_calls w1 = w_calls w @ cs" "list_all P cs"
    using assms(1) unfolding sends_def by blast
  show "\<exists>cs. w_calls w' = w_calls w @ cs \<and> list_all P cs"
  proof (cases q)
    case (Inl e)
    then show ?thesis using b m cs by (auto simp: abind_def)
  next
    case (Inr a)
    then have "f a w1 = Some (r, w')" using b m by (simp add: abind_def)
    then obtain ds where "w_calls w' = w_calls w1 @ ds" "list_all P ds"
      using assms(2) unfolding sends_def by blast
    then show ?thesis using cs by (intro exI [of _ "cs @ ds"]) simp
  qed
qed

lemma sends_try [sends_intros]: "sends P m \<Longrightarrow> sends P (atry m)"
  unfolding sends_def atry_def by (auto split: option.splits prod.splits)

lemma sends_each [sends_intros]: "(\<And>x. sends P (f x)) \<Longrightarrow> sends P (aeach f xs)"
  by (induction xs) (auto intro: sends_intros)

lemma sends_if [sends_intros]: "(b \<Longrightarrow> sends P m) \<Longrightarrow> (\<not> b \<Longrightarrow> sends P n) \<Longrightarrow> sends P (if b then m else n)"
  by simp

lemma sends_option [sends_intros]:
  "sends P m \<Longrightarrow> (\<And>a. sends P (f a)) \<Longrightarrow> sends P (case x of None \<Rightarrow> m | Some a \<Rightarrow> f a)"
  by (cases x) auto

lemma sends_sum [sends_intros]:
  "(\<And>e. sends P (g e)) \<Longrightarrow> (\<And>a. sends P (f a)) \<Longrightarrow> sends P (case x of Inl e \<Rightarrow> g e | Inr a \<Rightarrow> f a)"
  by (cases x) auto

lemma sends_prod [sends_intros]:
  "(\<And>a b. sends P (f a b)) \<Longrightarrow> sends P (case x of (a, b) \<Rightarrow> f a b)"
  by (cases x) auto

lemma sends_weaken: "sends P m \<Longrightarrow> (\<And>c. P c \<Longrightarrow> Q c) \<Longrightarrow> sends Q m"
  unfolding sends_def list_all_iff by blast

section \<open>Simple facts of running actions\<close>

lemma act_simps [simp]:
  "aret a w = Some (Inr a, w)" "afail e w = Some (Inl e, w)" "alift r w = Some (r, w)"
  "emit ev w = Some (Inr (), w\<lparr>w_log := w_log w @ [ev]\<rparr>)"
  "sleep H d w = Some (Inr (), w\<lparr>w_env := ho_sleep H d (w_env w)\<rparr>)"
  "now_unix H w = Some (Inr (ho_now H (w_env w)), w)"
  "instant H w = Some (Inr (ho_instant H (w_env w)), w)"
  by (simp_all add: aret_def afail_def alift_def emit_def sleep_def now_unix_def instant_def)

lemma abind_simps [simp]:
  "m w = None \<Longrightarrow> abind m f w = None"
  "m w = Some (Inl e, w') \<Longrightarrow> abind m f w = Some (Inl e, w')"
  "m w = Some (Inr a, w') \<Longrightarrow> abind m f w = f a w'"
  by (simp_all add: abind_def)

lemma abind_Some:
  "abind m f w = Some (r, w') \<longleftrightarrow>
     (\<exists>e. m w = Some (Inl e, w') \<and> r = Inl e) \<or>
     (\<exists>a w1. m w = Some (Inr a, w1) \<and> f a w1 = Some (r, w'))"
  by (auto simp: abind_def split: option.splits sum.splits)

text \<open>\<open>returns m\<close>: the action always returns; its loops have fuel enough.\<close>

definition returns :: "('e, 'a) act \<Rightarrow> bool" where
  "returns m \<longleftrightarrow> (\<forall>w. m w \<noteq> None)"

named_theorems returns_intros \<open>actions that always return\<close>

lemma returns_pure [returns_intros]:
  "returns (aret a)" "returns (afail e)" "returns (alift x)" "returns (emit ev)" "returns (sleep H d)"
  "returns (now_unix H)" "returns (instant H)" "returns (cdp_send H s mt p)"
  by (auto simp: returns_def cdp_send_def split: prod.splits)

lemma returns_bind [returns_intros]:
  "returns m \<Longrightarrow> (\<And>a. returns (f a)) \<Longrightarrow> returns (abind m f)"
  by (auto simp: returns_def abind_def split: option.splits sum.splits)

lemma returns_try [returns_intros]: "returns m \<Longrightarrow> returns (atry m)"
  by (auto simp: returns_def atry_def split: option.splits)

lemma returns_each [returns_intros]: "(\<And>x. returns (f x)) \<Longrightarrow> returns (aeach f xs)"
  by (induction xs) (auto intro: returns_intros)

lemma returns_if [returns_intros]: "returns m \<Longrightarrow> returns n \<Longrightarrow> returns (if b then m else n)"
  by simp

lemma returns_option [returns_intros]:
  "returns m \<Longrightarrow> (\<And>a. returns (f a)) \<Longrightarrow> returns (case x of None \<Rightarrow> m | Some a \<Rightarrow> f a)"
  by (cases x) auto

lemma returns_sum [returns_intros]:
  "(\<And>e. returns (g e)) \<Longrightarrow> (\<And>a. returns (f a)) \<Longrightarrow> returns (case x of Inl e \<Rightarrow> g e | Inr a \<Rightarrow> f a)"
  by (cases x) auto

lemma returns_prod [returns_intros]:
  "(\<And>a b. returns (f a b)) \<Longrightarrow> returns (case x of (a, b) \<Rightarrow> f a b)"
  by (cases x) auto

end
