(* ===== verification/Cookie.thy ===== *)
theory Cookie
  imports Rust_Str
begin

text \<open>
  Models the cookie half of \<open>src/src/identity.rs\<close>: the record, the matching rules of RFC 6265, the
  parser of a \<open>Set-Cookie\<close> header and the \<open>Cookie\<close> header a request sends. The Public Suffix List is
  data of another package: it is the argument \<open>psl\<close>, what \<open>psl::suffix_str\<close> answers for a name.
\<close>

section \<open>Cookies and matching\<close>

definition CLEARANCE_COOKIE :: string where "CLEARANCE_COOKIE = ''cf_clearance''"

datatype same_site = Strict | Lax | NoneSite

record cookie =
  c_name :: string
  c_value :: string
  c_domain :: string
  c_path :: string
  c_expires :: "u64 option"
  c_secure :: bool
  c_http_only :: bool
  c_same_site :: "same_site option"

definition is_expired :: "cookie \<Rightarrow> u64 \<Rightarrow> bool" where
  "is_expired c now \<longleftrightarrow> (case c_expires c of None \<Rightarrow> False | Some e \<Rightarrow> e \<le> now)"

definition remaining :: "cookie \<Rightarrow> u64 \<Rightarrow> duration option" where
  "remaining c now = map_option (\<lambda>e. from_secs (sat_sub e now)) (c_expires c)"

definition fold_host :: "string \<Rightarrow> string" where
  "fold_host host = lower (trim_end_char (CHR ''.'') host)"

definition domain_matches :: "string \<Rightarrow> string \<Rightarrow> bool" where
  "domain_matches cookie_domain h =
     (let host = fold_host h in
      case strip_prefix ''.'' cookie_domain of
        Some suf \<Rightarrow> host = lower suf \<or> suffix (CHR ''.'' # lower suf) host
      | None \<Rightarrow> host = lower cookie_domain)"

definition path_matches :: "string \<Rightarrow> string \<Rightarrow> bool" where
  "path_matches cookie_path request_path \<longleftrightarrow>
     cookie_path = [] \<or> cookie_path = ''/'' \<or>
     (let cp = trim_end_char (CHR ''/'') cookie_path in
      request_path = cp \<or>
      (case strip_prefix cp request_path of None \<Rightarrow> False | Some rest \<Rightarrow> prefix ''/'' rest))"

definition cookie_applies :: "cookie \<Rightarrow> bool \<Rightarrow> string \<Rightarrow> string \<Rightarrow> bool" where
  "cookie_applies c secure host path \<longleftrightarrow>
     \<not> (c_secure c \<and> \<not> secure) \<and> domain_matches (c_domain c) host \<and> path_matches (c_path c) path"

section \<open>The Domain attribute\<close>

datatype domain_scope = Widen string | HostOnly | Refuse

definition is_ip_literal :: "string \<Rightarrow> bool" where
  "is_ip_literal host =
     (case Option.bind (strip_prefix ''['' host) (strip_suffix '']'') of
        Some bare \<Rightarrow> is_ip_addr bare
      | None \<Rightarrow> is_ip_addr host)"

definition is_public_suffix :: "(string \<Rightarrow> string option) \<Rightarrow> string \<Rightarrow> bool" where
  "is_public_suffix psl domain \<longleftrightarrow> psl domain = Some domain"

definition domain_scope :: "(string \<Rightarrow> string option) \<Rightarrow> string \<Rightarrow> string \<Rightarrow> domain_scope" where
  "domain_scope psl val host =
     (let domain = lower (trim_start_char (CHR ''.'') val); request_host = fold_host host in
      if domain = [] then HostOnly
      else if is_ip_literal request_host
      then (if domain = request_host then HostOnly else Refuse)
      else if is_public_suffix psl domain
      then (if domain = request_host then HostOnly else Refuse)
      else if domain_matches (CHR ''.'' # domain) host then Widen (CHR ''.'' # domain)
      else Refuse)"

section \<open>Set-Cookie\<close>

definition default_path :: "string \<Rightarrow> string" where
  "default_path request_path =
     (if \<not> prefix ''/'' request_path then ''/''
      else (case rfind_char (CHR ''/'') request_path of
              None \<Rightarrow> ''/''
            | Some i \<Rightarrow> if i = 0 then ''/'' else take i request_path))"

definition attribute_pair :: "string \<Rightarrow> string \<times> string" where
  "attribute_pair a =
     (case split_once ''='' a of
        Some (k, v) \<Rightarrow> (lower (trim k), trim v)
      | None \<Rightarrow> (lower (trim a), ''''))"

definition read_same_site :: "string \<Rightarrow> same_site option" where
  "read_same_site v =
     (let l = lower v in
      if l = ''strict'' then Some Strict else if l = ''lax'' then Some Lax
      else if l = ''none'' then Some NoneSite else None)"

fun apply_attributes ::
    "(string \<Rightarrow> string option) \<Rightarrow> string \<Rightarrow> string list \<Rightarrow> cookie \<Rightarrow> int option \<Rightarrow> (cookie \<times> int option) option"
where
  "apply_attributes psl host [] c ma = Some (c, ma)"
| "apply_attributes psl host (a # as) c ma =
     (case attribute_pair a of (key, val) \<Rightarrow>
        if key = ''domain'' then
          (case domain_scope psl val host of
             Widen d \<Rightarrow> apply_attributes psl host as (c\<lparr>c_domain := d\<rparr>) ma
           | HostOnly \<Rightarrow> apply_attributes psl host as c ma
           | Refuse \<Rightarrow> None)
        else if key = ''path'' \<and> prefix ''/'' val then
          apply_attributes psl host as (c\<lparr>c_path := val\<rparr>) ma
        else if key = ''max-age'' then apply_attributes psl host as c (parse_i64 val)
        else if key = ''secure'' then apply_attributes psl host as (c\<lparr>c_secure := True\<rparr>) ma
        else if key = ''httponly'' then apply_attributes psl host as (c\<lparr>c_http_only := True\<rparr>) ma
        else if key = ''samesite'' then
          apply_attributes psl host as (c\<lparr>c_same_site := read_same_site val\<rparr>) ma
        else apply_attributes psl host as c ma)"

definition expiry_of_max_age :: "int \<Rightarrow> u64" where
  "expiry_of_max_age s = (if s \<le> 0 then 0 else of_int s)"

definition parse_set_cookie ::
    "(string \<Rightarrow> string option) \<Rightarrow> string \<Rightarrow> string \<Rightarrow> string \<Rightarrow> cookie option" where
  "parse_set_cookie psl header host path =
     (let parts = split_char (CHR '';'') header in
      Option.bind (split_once ''='' (hd parts)) (\<lambda>(n, v).
        let name = trim n in
        if name = [] then None
        else Option.bind
          (apply_attributes psl host (tl parts)
             \<lparr>c_name = name, c_value = trim v, c_domain = lower host, c_path = default_path path,
              c_expires = None, c_secure = False, c_http_only = False, c_same_site = None\<rparr> None)
          (\<lambda>(c, ma). Some (c\<lparr>c_expires := map_option expiry_of_max_age ma\<rparr>))))"

definition anchor_max_age :: "cookie \<Rightarrow> u64 \<Rightarrow> cookie" where
  "anchor_max_age c now =
     (case c_expires c of
        None \<Rightarrow> c
      | Some s \<Rightarrow> c\<lparr>c_expires := Some (if s = 0 then 0 else now + s)\<rparr>)"

section \<open>The Cookie header\<close>

definition sendable :: "bool \<Rightarrow> string \<Rightarrow> string \<Rightarrow> u64 \<Rightarrow> cookie \<Rightarrow> bool" where
  "sendable secure host path now c \<longleftrightarrow> \<not> is_expired c now \<and> cookie_applies c secure host path"

definition render_pair :: "cookie \<Rightarrow> string" where
  "render_pair c = c_name c @ ''='' @ c_value c"

definition by_path_length :: "cookie list \<Rightarrow> cookie list" where
  "by_path_length cs = sort_key (\<lambda>c. - int (length (c_path c))) cs"

definition cookie_header ::
    "cookie list \<Rightarrow> bool \<Rightarrow> string \<Rightarrow> string \<Rightarrow> u64 \<Rightarrow> string option" where
  "cookie_header cookies secure host path now =
     (let applicable = by_path_length (filter (sendable secure host path now) cookies) in
      if applicable = [] then None else Some (join ''; '' (map render_pair applicable)))"

section \<open>Reading what a server writes\<close>

text \<open>
  The headers servers write: a pair and a list of attributes behind semicolons. The reference
  semantics applies the attributes one by one; the parser is proved to agree with it.
\<close>

datatype cookie_attr = ADomain string | APath string | AMaxAge nat | ASecure | AHttpOnly
  | ASameSite same_site

fun same_site_text :: "same_site \<Rightarrow> string" where
  "same_site_text Strict = ''Strict''" | "same_site_text Lax = ''Lax''"
| "same_site_text NoneSite = ''None''"

fun attr_text :: "cookie_attr \<Rightarrow> string" where
  "attr_text (ADomain d) = ''Domain='' @ d"
| "attr_text (APath p) = ''Path='' @ p"
| "attr_text (AMaxAge n) = ''Max-Age='' @ dec n"
| "attr_text ASecure = ''Secure''"
| "attr_text AHttpOnly = ''HttpOnly''"
| "attr_text (ASameSite x) = ''SameSite='' @ same_site_text x"

definition token :: "string \<Rightarrow> bool" where
  "token s \<longleftrightarrow> list_all graphic s \<and> CHR '';'' \<notin> set s"

fun wf_attr :: "cookie_attr \<Rightarrow> bool" where
  "wf_attr (ADomain d) \<longleftrightarrow> token d"
| "wf_attr (APath p) \<longleftrightarrow> token p \<and> prefix ''/'' p"
| "wf_attr (AMaxAge n) \<longleftrightarrow> n < 2 ^ 63"
| "wf_attr _ \<longleftrightarrow> True"

definition set_cookie_text :: "string \<Rightarrow> string \<Rightarrow> cookie_attr list \<Rightarrow> string" where
  "set_cookie_text n v as = join '';'' ((n @ ''='' @ v) # map (\<lambda>a. CHR '' '' # attr_text a) as)"

fun attr_effect ::
    "(string \<Rightarrow> string option) \<Rightarrow> string \<Rightarrow> cookie_attr \<Rightarrow> cookie \<Rightarrow> cookie option" where
  "attr_effect psl host (ADomain d) c =
     (case domain_scope psl d host of Widen w \<Rightarrow> Some (c\<lparr>c_domain := w\<rparr>)
                                    | HostOnly \<Rightarrow> Some c | Refuse \<Rightarrow> None)"
| "attr_effect psl host (APath p) c = Some (c\<lparr>c_path := p\<rparr>)"
| "attr_effect psl host (AMaxAge n) c = Some (c\<lparr>c_expires := Some (of_nat n)\<rparr>)"
| "attr_effect psl host ASecure c = Some (c\<lparr>c_secure := True\<rparr>)"
| "attr_effect psl host AHttpOnly c = Some (c\<lparr>c_http_only := True\<rparr>)"
| "attr_effect psl host (ASameSite x) c = Some (c\<lparr>c_same_site := Some x\<rparr>)"

fun attr_effects ::
    "(string \<Rightarrow> string option) \<Rightarrow> string \<Rightarrow> cookie_attr list \<Rightarrow> cookie \<Rightarrow> cookie option" where
  "attr_effects psl host [] c = Some c"
| "attr_effects psl host (a # as) c =
     Option.bind (attr_effect psl host a c) (attr_effects psl host as)"

lemma attribute_pair_value:
  assumes "list_all graphic k" and "CHR ''='' \<notin> set k" and "list_all graphic v"
  shows "attribute_pair (CHR '' '' # k @ CHR ''='' # v) = (lower k, v)"
proof -
  have "split_once ''='' ((CHR '' '' # k) @ CHR ''='' # v) = Some (CHR '' '' # k, v)"
    using assms(2) by (intro split_once_char) simp
  then show ?thesis using assms by (simp add: attribute_pair_def trim_space_Cons trim_graphic)
qed

lemma attribute_pair_flag:
  assumes "list_all graphic k" and "CHR ''='' \<notin> set k"
  shows "attribute_pair (CHR '' '' # k) = (lower k, [])"
proof -
  have "split_once ''='' (CHR '' '' # k) = None"
    using assms(2) by (intro split_once_char_absent) simp
  then show ?thesis using assms by (simp add: attribute_pair_def trim_space_Cons trim_graphic)
qed

lemma attr_pairs:
  "token d \<Longrightarrow> attribute_pair (CHR '' '' # attr_text (ADomain d)) = (''domain'', d)"
  "token p \<Longrightarrow> attribute_pair (CHR '' '' # attr_text (APath p)) = (''path'', p)"
  "attribute_pair (CHR '' '' # attr_text (AMaxAge n)) = (''max-age'', dec n)"
  "attribute_pair (CHR '' '' # attr_text ASecure) = (''secure'', [])"
  "attribute_pair (CHR '' '' # attr_text AHttpOnly) = (''httponly'', [])"
  "attribute_pair (CHR '' '' # attr_text (ASameSite x)) = (''samesite'', same_site_text x)"
proof -
  have keys: "list_all graphic ''Domain''" "list_all graphic ''Path''" "list_all graphic ''Max-Age''"
      "list_all graphic ''Secure''" "list_all graphic ''HttpOnly''" "list_all graphic ''SameSite''"
      "lower ''Domain'' = ''domain''" "lower ''Path'' = ''path''" "lower ''Max-Age'' = ''max-age''"
      "lower ''Secure'' = ''secure''" "lower ''HttpOnly'' = ''httponly''"
      "lower ''SameSite'' = ''samesite''"
    by code_simp+
  have x: "list_all graphic (same_site_text x)" by (cases x; simp only: same_site_text.simps; code_simp)
  show "token d \<Longrightarrow> attribute_pair (CHR '' '' # attr_text (ADomain d)) = (''domain'', d)"
    using attribute_pair_value [of "''Domain''" d] keys by (simp add: token_def)
  show "token p \<Longrightarrow> attribute_pair (CHR '' '' # attr_text (APath p)) = (''path'', p)"
    using attribute_pair_value [of "''Path''" p] keys by (simp add: token_def)
  show "attribute_pair (CHR '' '' # attr_text (AMaxAge n)) = (''max-age'', dec n)"
    using attribute_pair_value [of "''Max-Age''" "dec n"] keys dec_graphic by simp
  show "attribute_pair (CHR '' '' # attr_text ASecure) = (''secure'', [])"
    using attribute_pair_flag [of "''Secure''"] keys by simp
  show "attribute_pair (CHR '' '' # attr_text AHttpOnly) = (''httponly'', [])"
    using attribute_pair_flag [of "''HttpOnly''"] keys by simp
  show "attribute_pair (CHR '' '' # attr_text (ASameSite x)) = (''samesite'', same_site_text x)"
    using attribute_pair_value [of "''SameSite''" "same_site_text x"] keys x by simp
qed

lemma read_same_site_text: "read_same_site (same_site_text x) = Some x"
  by (cases x; simp only: same_site_text.simps; code_simp)

lemma expiry_of_int: "expiry_of_max_age (int n) = of_nat n"
  by (simp add: expiry_of_max_age_def)

lemma cookie_update_commute:
  "c\<lparr>c_domain := d, c_expires := e\<rparr> = c\<lparr>c_expires := e, c_domain := d\<rparr>"
  "c\<lparr>c_path := d, c_expires := e\<rparr> = c\<lparr>c_expires := e, c_path := d\<rparr>"
  "c\<lparr>c_secure := b, c_expires := e\<rparr> = c\<lparr>c_expires := e, c_secure := b\<rparr>"
  "c\<lparr>c_http_only := b, c_expires := e\<rparr> = c\<lparr>c_expires := e, c_http_only := b\<rparr>"
  "c\<lparr>c_same_site := x, c_expires := e\<rparr> = c\<lparr>c_expires := e, c_same_site := x\<rparr>"
  for c :: cookie
  by (cases c; simp)+

lemma apply_attributes_effects:
  assumes "list_all wf_attr as"
  shows "map_option (\<lambda>(c, ma). c\<lparr>c_expires := map_option expiry_of_max_age ma\<rparr>)
           (apply_attributes psl host (map (\<lambda>a. CHR '' '' # attr_text a) as) c ma)
         = attr_effects psl host as (c\<lparr>c_expires := map_option expiry_of_max_age ma\<rparr>)"
  using assms
proof (induction as arbitrary: c ma)
  case (Cons a as)
  show ?case
  proof (cases a)
    case (ADomain d)
    then show ?thesis using Cons
      by (simp add: attr_pairs cookie_update_commute del: attr_text.simps split: domain_scope.split)
  qed (use Cons in \<open>simp_all add: attr_pairs cookie_update_commute read_same_site_text parse_i64_dec expiry_of_int
        del: attr_text.simps\<close>)
qed simp

lemma attr_text_no_semicolon: "wf_attr a \<Longrightarrow> CHR '';'' \<notin> set (attr_text a)"
proof (cases a)
  case (AMaxAge n)
  have "CHR '';'' \<notin> set (dec n)" by (rule dec_no_char) (simp add: is_digit_def byte_def)
  then show ?thesis by (simp add: AMaxAge)
next
  case (ASameSite x)
  then show ?thesis by (cases x) simp_all
qed (simp_all add: token_def)

lemma parse_of_text:
  assumes "token n" and "n \<noteq> []" and "CHR ''='' \<notin> set n" and "token v" and "list_all wf_attr as"
  shows "parse_set_cookie psl (set_cookie_text n v as) host path
    = attr_effects psl host as
        \<lparr>c_name = n, c_value = v, c_domain = lower host, c_path = default_path path,
         c_expires = None, c_secure = False, c_http_only = False, c_same_site = None\<rparr>"
proof -
  let ?c = "\<lparr>c_name = n, c_value = v, c_domain = lower host, c_path = default_path path,
      c_expires = None, c_secure = False, c_http_only = False, c_same_site = None\<rparr>"
  have "\<forall>x \<in> set ((n @ ''='' @ v) # map (\<lambda>a. CHR '' '' # attr_text a) as). CHR '';'' \<notin> set x"
    using assms attr_text_no_semicolon by (auto simp: token_def list_all_iff)
  then have s: "split_char (CHR '';'') (set_cookie_text n v as)
      = (n @ ''='' @ v) # map (\<lambda>a. CHR '' '' # attr_text a) as"
    unfolding set_cookie_text_def by (intro split_char_join) simp_all
  have "split_once ''='' (n @ ''='' @ v) = Some (n, v)"
    using split_once_char [OF assms(3), of v] by simp
  moreover have "trim n = n" "trim v = v" using assms(1,4) by (simp_all add: token_def trim_graphic)
  moreover have "Option.bind (apply_attributes psl host (map (\<lambda>a. CHR '' '' # attr_text a) as) ?c None)
        (\<lambda>(c, ma). Some (c\<lparr>c_expires := map_option expiry_of_max_age ma\<rparr>))
      = map_option (\<lambda>(c, ma). c\<lparr>c_expires := map_option expiry_of_max_age ma\<rparr>)
          (apply_attributes psl host (map (\<lambda>a. CHR '' '' # attr_text a) as) ?c None)"
    by (cases "apply_attributes psl host (map (\<lambda>a. CHR '' '' # attr_text a) as) ?c None") auto
  ultimately show ?thesis
    using assms(2) apply_attributes_effects [OF assms(5), of psl host ?c None]
    by (simp add: parse_set_cookie_def Let_def s)
qed

text \<open>C36. The parser understands what servers write: for a name, a value and any list of attributes
  without control characters, blanks or semicolons, the header parses to exactly the cookie the
  attributes describe when applied in order, and to nothing exactly when one of its domains is not
  the sender's to claim.\<close>

theorem parse_set_cookie_of_text:
  assumes "token n" and "n \<noteq> []" and "CHR ''='' \<notin> set n" and "token v" and "list_all wf_attr as"
  shows "parse_set_cookie psl (set_cookie_text n v as) host path
    = attr_effects psl host as
        \<lparr>c_name = n, c_value = v, c_domain = lower host, c_path = default_path path,
         c_expires = None, c_secure = False, c_http_only = False, c_same_site = None\<rparr>"
  using assms by (rule parse_of_text)

definition sample_psl :: "string \<Rightarrow> string option" where
  "sample_psl name = Some (last (split_char (CHR ''.'') name))"

definition sample_cookie :: cookie where
  "sample_cookie = \<lparr>c_name = ''a'', c_value = ''b'', c_domain = ''.example.com'', c_path = ''/'',
     c_expires = Some 60, c_secure = True, c_http_only = False, c_same_site = Some Lax\<rparr>"

definition sample_attrs :: "cookie_attr list" where
  "sample_attrs = [ADomain ''Example.com'', AMaxAge 60, ASecure, ASameSite Lax]"

lemma sample_attrs_wf: "token ''a'' \<and> token ''b'' \<and> list_all wf_attr sample_attrs"
proof -
  have "token ''a''" "token ''b''" "token ''Example.com''" by code_simp+
  then show ?thesis by (simp add: sample_attrs_def)
qed

lemma sample_effects:
  "attr_effects sample_psl ''www.example.com'' sample_attrs
        \<lparr>c_name = ''a'', c_value = ''b'', c_domain = lower ''www.example.com'', c_path = default_path ''/x'',
         c_expires = None, c_secure = False, c_http_only = False, c_same_site = None\<rparr> = Some sample_cookie"
proof -
  have "domain_scope sample_psl ''Example.com'' ''www.example.com'' = Widen ''.example.com''"
      "default_path ''/x'' = ''/''" by code_simp+
  then show ?thesis by (simp add: sample_attrs_def sample_cookie_def)
qed

theorem parse_set_cookie_of_text_witness:
  "parse_set_cookie sample_psl (set_cookie_text ''a'' ''b'' sample_attrs) ''www.example.com'' ''/x''
     = Some sample_cookie"
  using parse_set_cookie_of_text [of "''a''" "''b''" sample_attrs sample_psl "''www.example.com''" "''/x''"]
    sample_attrs_wf sample_effects by simp

section \<open>Whom a cookie reaches\<close>

definition within :: "string \<Rightarrow> string \<Rightarrow> bool" where
  "within d host \<longleftrightarrow> fold_host host = d \<or> suffix (CHR ''.'' # d) (fold_host host)"

lemma domain_matches_dot: "domain_matches (CHR ''.'' # d) host \<longleftrightarrow> within (lower d) host"
  by (simp add: domain_matches_def strip_prefix_def within_def Let_def)

lemma domain_matches_plain:
  "\<not> prefix ''.'' d \<Longrightarrow> domain_matches d host \<longleftrightarrow> fold_host host = lower d"
  by (simp add: domain_matches_def strip_prefix_def Let_def)

lemma lower_no_dot: "\<not> prefix ''.'' host \<Longrightarrow> \<not> prefix ''.'' (lower host)"
proof (cases host)
  case (Cons a h)
  assume "\<not> prefix ''.'' host"
  then have "a \<noteq> CHR ''.''" using Cons by simp
  then have "lower_char a \<noteq> CHR ''.''" by (simp only: lower_char_dot not_False_eq_True)
  then show ?thesis using Cons by (simp add: lower_Cons eq_commute)
qed simp

lemma domain_scope_Widen:
  assumes "domain_scope psl val host = Widen d'"
  obtains d where "d' = CHR ''.'' # d" and "d \<noteq> []" and "lower d = d" and "within d host"
    and "\<not> is_public_suffix psl d" and "\<not> is_ip_literal (fold_host host)"
  using assms
  by (intro that [of "lower (trim_start_char (CHR ''.'') val)"])
    (auto simp: domain_scope_def Let_def domain_matches_dot split: if_splits)

lemma apply_attributes_domain:
  "apply_attributes psl host as c ma = Some (c', ma') \<Longrightarrow>
     c_domain c' = c_domain c \<or> (\<exists>val. domain_scope psl val host = Widen (c_domain c'))"
  by (induction as arbitrary: c ma)
    (force split: prod.splits if_splits domain_scope.splits)+

lemma apply_attributes_frame:
  "apply_attributes psl host as c ma = Some (c', ma') \<Longrightarrow>
     c_name c' = c_name c \<and> c_value c' = c_value c \<and> c_expires c' = c_expires c"
  by (induction as arbitrary: c ma)
    (force split: prod.splits if_splits domain_scope.splits)+

lemma apply_attributes_age:
  "apply_attributes psl host as c ma = Some (c', Some n) \<Longrightarrow>
     ma = Some n \<or> - (2 ^ 63) \<le> n \<and> n < 2 ^ 63"
  by (induction as arbitrary: c ma)
    (force dest: parse_i64_range split: prod.splits if_splits domain_scope.splits)+

lemma parse_set_cookie_Some:
  assumes "parse_set_cookie psl header host path = Some c"
  obtains n v c0 ma where
    "split_once ''='' (hd (split_char (CHR '';'') header)) = Some (n, v)" "trim n \<noteq> []"
    "apply_attributes psl host (tl (split_char (CHR '';'') header))
       \<lparr>c_name = trim n, c_value = trim v, c_domain = lower host, c_path = default_path path,
        c_expires = None, c_secure = False, c_http_only = False, c_same_site = None\<rparr> None = Some (c0, ma)"
    "c = c0\<lparr>c_expires := map_option expiry_of_max_age ma\<rparr>"
  using assms by (auto simp: parse_set_cookie_def Let_def bind_eq_Some_conv split: if_splits)

lemma parsed_scope:
  assumes "parse_set_cookie psl header host path = Some c"
  obtains (host_only) "c_domain c = lower host"
    | (widened) d where "c_domain c = CHR ''.'' # d" "d \<noteq> []" "lower d = d" "within d host"
        "\<not> is_public_suffix psl d" "\<not> is_ip_literal (fold_host host)"
  using assms
proof (cases rule: parse_set_cookie_Some)
  case (1 n v c0 ma)
  from apply_attributes_domain [OF 1(3)] show ?thesis
  proof
    assume "c_domain c0 = c_domain \<lparr>c_name = trim n, c_value = trim v, c_domain = lower host,
        c_path = default_path path, c_expires = None, c_secure = False, c_http_only = False,
        c_same_site = None\<rparr>"
    then show ?thesis using 1(4) host_only by simp
  next
    assume "\<exists>val. domain_scope psl val host = Widen (c_domain c0)"
    then obtain val where "domain_scope psl val host = Widen (c_domain c0)" ..
    then show ?thesis by (rule domain_scope_Widen) (use 1(4) widened in auto)
  qed
qed


lemma sample_parse:
  "parse_set_cookie sample_psl (set_cookie_text ''a'' ''b'' sample_attrs) ''www.example.com'' ''/x''
     = Some sample_cookie"
  using parse_of_text [of "''a''" "''b''" sample_attrs sample_psl "''www.example.com''" "''/x''"]
    sample_attrs_wf sample_effects by simp


section \<open>A server gets its own cookie back\<close>

lemma fold_host_id: "\<not> suffix ''.'' host \<Longrightarrow> fold_host host = lower host"
proof -
  assume h: "\<not> suffix ''.'' host"
  have "last host \<noteq> CHR ''.''" if "host \<noteq> []"
    using h that by (metis append_butlast_last_id suffixI)
  then show ?thesis by (simp add: fold_host_def trim_end_char_id)
qed

lemma rfind_char_Some:
  assumes "rfind_char c s = Some i"
  shows "i < length s" and "s ! i = c"
proof -
  have p: "position (\<lambda>x. x = c) t = Some j \<Longrightarrow> j < length t \<and> t ! j = c" for t :: string and j
    by (induction t arbitrary: j) (auto split: if_splits)
  obtain j where j: "position (\<lambda>x. x = c) (rev s) = Some j" "i = length s - 1 - j"
    using assms by (auto simp: rfind_char_def)
  then have "j < length s" "rev s ! j = c" using p [OF j(1)] by auto
  then show "i < length s" "s ! i = c" using j(2) by (auto simp: rev_nth)
qed

lemma path_matches_default: "prefix ''/'' path \<Longrightarrow> path_matches (default_path path) path"
proof (cases "rfind_char (CHR ''/'') path")
  case (Some i)
  assume slash: "prefix ''/'' path"
  show ?thesis
  proof (cases "i = 0")
    case False
    let ?d = "take i path"
    have i: "i < length path" "path ! i = CHR ''/''" using rfind_char_Some [OF Some] by auto
    let ?t = "trim_end_char (CHR ''/'') ?d"
    obtain k where k: "?d = ?t @ replicate k (CHR ''/'')"
      using trim_end_char_decomp by blast
    let ?r = "replicate k (CHR ''/'') @ CHR ''/'' # drop (Suc i) path"
    have "path = ?d @ CHR ''/'' # drop (Suc i) path"
      using id_take_nth_drop [OF i(1)] unfolding i(2) .
    also have "\<dots> = ?t @ ?r" by (subst k) simp
    finally have "strip_prefix ?t path = Some ?r" unfolding strip_prefix_Some .
    moreover have "prefix ''/'' ?r" by (cases k) simp_all
    moreover have "default_path path = ?d" using slash Some False by (simp add: default_path_def)
    ultimately show ?thesis unfolding path_matches_def by (simp add: Let_def)
  qed (use slash Some in \<open>simp add: default_path_def path_matches_def\<close>)
qed (simp add: default_path_def path_matches_def)

text \<open>A host written with its trailing dot never gets a host-only cookie back: the stored domain
  keeps the dot, the matching drops it.\<close>

lemma trailing_dot_lost:
  assumes "suffix ''.'' host" and "\<not> prefix ''.'' host"
  shows "\<not> domain_matches (lower host) host'"
proof
  assume d: "domain_matches (lower host) host'"
  obtain h where h: "host = h @ ''.''" using assms(1) by (auto simp: suffix_def)
  have "fold_host host' = lower (lower host)"
    using d domain_matches_plain [OF lower_no_dot [OF assms(2)]] by blast
  then have e: "fold_host host' = lower h @ [lower_char (CHR ''.'')]"
    by (simp add: h lower_append lower_Cons)
  let ?t = "trim_end_char (CHR ''.'') host'"
  have "?t \<noteq> []" using e by (auto simp: fold_host_def)
  moreover have "last (lower ?t) = lower_char (last ?t)"
    using \<open>?t \<noteq> []\<close> by (simp add: lower_def last_map)
  moreover have "last (lower ?t) = CHR ''.''"
    using e lower_char_dot [of "CHR ''.''"] by (simp add: fold_host_def)
  ultimately show False using trim_end_char_last lower_char_dot by metis
qed

text \<open>Anchoring a parsed lifetime cannot wrap as long as the clock is below \<open>2 ^ 63\<close> seconds.\<close>

lemma anchor_exact:
  assumes "parse_set_cookie psl header host path = Some c" and "c_expires c = Some s" and "s \<noteq> 0"
    and "unat now < 2 ^ 63"
  shows "\<exists>e. c_expires (anchor_max_age c now) = Some e \<and> unat e = unat now + unat s"
  using assms(1)
proof (cases rule: parse_set_cookie_Some)
  case (1 n v c0 ma)
  then obtain k where ma: "ma = Some k" and s: "s = expiry_of_max_age k" using assms(2) by auto
  then have k: "0 < k" "k < 2 ^ 63"
    using assms(3) apply_attributes_age [of psl host _ _ None c0 k] 1(3)
    by (auto simp: expiry_of_max_age_def split: if_splits)
  have nk: "nat k < 2 ^ 63" using k by (simp add: nat_less_iff)
  have "s = word_of_int k" using s k(1) by (simp add: expiry_of_max_age_def)
  also have "\<dots> = word_of_int (int (nat k))" using k(1) by simp
  finally have "s = word_of_nat (nat k)" by (simp only: of_int_of_nat_eq)
  then have us: "unat s = nat k" using nk by (simp only: unat_of_nat) simp
  then have "unat now + unat s < 2 ^ 63 + 2 ^ 63" using nk assms(4) by linarith
  then have "unat now + unat s < 2 ^ 64" by simp
  then have "unat (now + s) = unat now + unat s" by (simp add: unat_word_ariths)
  then show ?thesis using assms(2,3) by (simp add: anchor_max_age_def)
qed

lemma within_self: "within d host \<Longrightarrow> lower d = d \<Longrightarrow> domain_matches (CHR ''.'' # d) host"
  by (simp add: domain_matches_dot)

text \<open>A server gets its own cookie back: a cookie accepted from a response is sent with the next
  secure request to the same host and path, unless the header itself named another path; hosts
  written with a leading or trailing dot are excepted.\<close>

theorem own_cookie_returned:
  assumes "parse_set_cookie psl header host path = Some c"
    and "\<not> prefix ''.'' host" and "\<not> suffix ''.'' host" and "prefix ''/'' path"
    and "c_path c = default_path path"
  shows "cookie_applies c True host path"
proof -
  have "domain_matches (c_domain c) host" using assms(1)
  proof (cases rule: parsed_scope)
    case host_only
    then show ?thesis
      using domain_matches_plain [OF lower_no_dot [OF assms(2)]] fold_host_id [OF assms(3)] by simp
  qed (simp add: within_self)
  then show ?thesis
    using path_matches_default [OF assms(4)] assms(5) by (simp add: cookie_applies_def)
qed

theorem own_cookie_returned_witness: "cookie_applies sample_cookie True ''www.example.com'' ''/x''"
proof (rule own_cookie_returned [OF sample_parse])
  show "c_path sample_cookie = default_path ''/x''" by code_simp
qed (simp_all add: suffix_def)

section \<open>What a request sends\<close>

text \<open>How a server reads the header: pairs between semicolons, split at the first equals sign.\<close>

definition read_pair :: "string \<Rightarrow> (string \<times> string) option" where
  "read_pair piece = split_once ''='' (trim_start_char (CHR '' '') piece)"

definition read_cookie_header :: "string \<Rightarrow> (string \<times> string) option list" where
  "read_cookie_header h = map read_pair (split_char (CHR '';'') h)"

definition wf_pair :: "cookie \<Rightarrow> bool" where
  "wf_pair c \<longleftrightarrow> c_name c \<noteq> [] \<and> hd (c_name c) \<noteq> CHR '' '' \<and> CHR ''='' \<notin> set (c_name c) \<and>
     CHR '';'' \<notin> set (c_name c) \<and> CHR '';'' \<notin> set (c_value c)"

lemma parsed_wf_pair:
  assumes "parse_set_cookie psl header host path = Some c"
  shows "wf_pair c"
  using assms
proof (cases rule: parse_set_cookie_Some)
  case (1 n v c0 ma)
  let ?p = "hd (split_char (CHR '';'') header)"
  have "?p \<in> set (split_char (CHR '';'') header)" by simp
  then have "CHR '';'' \<notin> set ?p" by (rule split_char_pieces)
  moreover have "?p = n @ ''='' @ v" using 1(1) by (rule split_once_Some)
  ultimately have "CHR '';'' \<notin> set n" "CHR '';'' \<notin> set v" by auto
  moreover have "CHR ''='' \<notin> set n" using 1(1) by (rule split_once_char_first)
  moreover have "c_name c = trim n" "c_value c = trim v"
    using apply_attributes_frame [OF 1(3)] 1(4) by simp_all
  ultimately show ?thesis
    using 1(2) trim_hd_space set_trim by (auto simp: wf_pair_def)
qed

lemma split_join_pieces:
  assumes "\<forall>x \<in> set (y # xs). CHR '';'' \<notin> set x"
  shows "split_char (CHR '';'') (join ''; '' (y # xs)) = y # map (\<lambda>x. CHR '' '' # x) xs"
  using assms
proof (induction xs arbitrary: y)
  case Nil
  then show ?case by (simp add: split_char_absent)
next
  case (Cons x xs)
  have "split_char (CHR '';'') (join ''; '' (x # xs)) = x # map (\<lambda>x. CHR '' '' # x) xs"
    using Cons.IH Cons.prems by simp
  then have "split_char (CHR '';'') (CHR '' '' # join ''; '' (x # xs))
      = (CHR '' '' # x) # map (\<lambda>x. CHR '' '' # x) xs" by simp
  moreover have "join ''; '' (y # x # xs) = y @ CHR '';'' # CHR '' '' # join ''; '' (x # xs)" by simp
  ultimately show ?case using Cons.prems split_char_append [of "CHR '';''" y] by simp
qed

lemma read_pair_render:
  "wf_pair c \<Longrightarrow> read_pair (render_pair c) = Some (c_name c, c_value c)"
  "wf_pair c \<Longrightarrow> read_pair (CHR '' '' # render_pair c) = Some (c_name c, c_value c)"
proof -
  assume w: "wf_pair c"
  obtain x xs where x: "c_name c = x # xs" "x \<noteq> CHR '' ''"
    using w by (cases "c_name c") (auto simp: wf_pair_def)
  have "trim_start_char (CHR '' '') (render_pair c) = render_pair c"
      "trim_start_char (CHR '' '') (CHR '' '' # render_pair c) = render_pair c"
    using x by (simp_all add: trim_start_char_def render_pair_def)
  moreover have "split_once ''='' (c_name c @ CHR ''='' # c_value c) = Some (c_name c, c_value c)"
    using w by (intro split_once_char) (simp add: wf_pair_def)
  then have "split_once ''='' (render_pair c) = Some (c_name c, c_value c)" by (simp add: render_pair_def)
  ultimately show "read_pair (render_pair c) = Some (c_name c, c_value c)"
      "read_pair (CHR '' '' # render_pair c) = Some (c_name c, c_value c)"
    by (simp_all add: read_pair_def)
qed

lemma read_cookie_header_join:
  assumes "cs \<noteq> []" and "\<forall>c \<in> set cs. wf_pair c"
  shows "read_cookie_header (join ''; '' (map render_pair cs))
    = map (\<lambda>c. Some (c_name c, c_value c)) cs"
proof (cases cs)
  case (Cons c ds)
  have "\<forall>x \<in> set (map render_pair cs). CHR '';'' \<notin> set x"
    using assms(2) by (auto simp: render_pair_def wf_pair_def)
  then have "split_char (CHR '';'') (join ''; '' (map render_pair cs))
      = render_pair c # map (\<lambda>x. CHR '' '' # x) (map render_pair ds)"
    using split_join_pieces [of "render_pair c" "map render_pair ds"] Cons by simp
  then show ?thesis using assms(2) Cons by (simp add: read_cookie_header_def read_pair_render)
qed (use assms in simp)

lemma by_path_length_props:
  "mset (by_path_length cs) = mset cs"
  "sorted_wrt (\<lambda>a b. length (c_path b) \<le> length (c_path a)) (by_path_length cs)"
  "filter (\<lambda>c. length (c_path c) = n) (by_path_length cs) = filter (\<lambda>c. length (c_path c) = n) cs"
proof -
  let ?k = "\<lambda>c. - int (length (c_path c))"
  show "mset (by_path_length cs) = mset cs" by (simp add: by_path_length_def)
  have "sorted (map ?k (by_path_length cs))" by (simp add: by_path_length_def)
  then show "sorted_wrt (\<lambda>a b. length (c_path b) \<le> length (c_path a)) (by_path_length cs)"
    by (simp add: sorted_map)
  have "filter (\<lambda>c. ?k c = - int n) (sort_key ?k cs) = filter (\<lambda>c. ?k c = - int n) cs"
    by (rule sort_key_stable)
  then show "filter (\<lambda>c. length (c_path c) = n) (by_path_length cs) = filter (\<lambda>c. length (c_path c) = n) cs"
    by (simp add: by_path_length_def)
qed

text \<open>C20. The Cookie header carries exactly the cookies that apply: no header when there is none, and
  otherwise one that a server reads back as the name and value of every unexpired applicable cookie
  of the jar and of no other, longer paths first and equal paths in jar order.\<close>

theorem cookie_header_exact:
  assumes "\<forall>c \<in> set jar. wf_pair c"
  shows "let cs = filter (sendable secure host path now) jar in
    (cookie_header jar secure host path now = None \<longleftrightarrow> cs = []) \<and>
    (\<forall>h. cookie_header jar secure host path now = Some h \<longrightarrow>
      (\<exists>ds. mset ds = mset cs \<and> sorted_wrt (\<lambda>a b. length (c_path b) \<le> length (c_path a)) ds \<and>
         (\<forall>n. filter (\<lambda>c. length (c_path c) = n) ds = filter (\<lambda>c. length (c_path c) = n) cs) \<and>
         read_cookie_header h = map (\<lambda>c. Some (c_name c, c_value c)) ds))"
proof -
  let ?cs = "filter (sendable secure host path now) jar"
  let ?ds = "by_path_length ?cs"
  have m: "mset ?ds = mset ?cs" by (rule by_path_length_props(1))
  then have ne: "?ds = [] \<longleftrightarrow> ?cs = []" by (metis mset.simps(1) mset_zero_iff)
  have "set ?ds = set ?cs" using m by (rule mset_eq_setD)
  then have "\<forall>c \<in> set ?ds. wf_pair c" using assms by auto
  then have r: "?ds \<noteq> [] \<Longrightarrow> read_cookie_header (join ''; '' (map render_pair ?ds))
      = map (\<lambda>c. Some (c_name c, c_value c)) ?ds" by (intro read_cookie_header_join)
  have h: "cookie_header jar secure host path now
      = (if ?ds = [] then None else Some (join ''; '' (map render_pair ?ds)))"
    by (simp add: cookie_header_def Let_def)
  show ?thesis
    unfolding Let_def h
    using ne r m by_path_length_props(2) [of ?cs] by_path_length_props(3) [of _ ?cs] by auto
qed

theorem cookie_header_exact_witness:
  "\<exists>h. cookie_header [sample_cookie] True ''api.example.com'' ''/x'' 7 = Some h \<and>
       read_cookie_header h = [Some (''a'', ''b'')]"
proof -
  have w: "\<forall>c \<in> set [sample_cookie]. wf_pair c" using parsed_wf_pair [OF sample_parse] by simp
  have "sendable True ''api.example.com'' ''/x'' 7 sample_cookie" by code_simp
  then have f: "filter (sendable True ''api.example.com'' ''/x'' 7) [sample_cookie] = [sample_cookie]" by simp
  obtain h where h: "cookie_header [sample_cookie] True ''api.example.com'' ''/x'' 7 = Some h"
    using cookie_header_exact [OF w, of True "''api.example.com''" "''/x''" 7] f by (auto simp: Let_def)
  obtain ds where "mset ds = mset [sample_cookie]"
      and r: "read_cookie_header h = map (\<lambda>c. Some (c_name c, c_value c)) ds"
    using cookie_header_exact [OF w, of True "''api.example.com''" "''/x''" 7] f h
    by (auto simp: Let_def)
  then have "ds = [sample_cookie]" by simp
  then show ?thesis using h r by (simp add: sample_cookie_def)
qed

end
