(* ===== verification/CdpSession.thy ===== *)
theory CdpSession
  imports Effects Cookie
begin

text \<open>
  Models \<open>src/src/cdp/session.rs\<close>: the browser handle and the pages, one action per method, with the
  protocol calls each makes in order. The domains a page has enabled are \<open>w_enabled\<close>, keyed by the
  page's session. A subscription to events is the number of calls made before it was taken: the
  items received on it are what arrived since. Coordinates are finite floats, carried as rationals;
  encoding a string as a JavaScript literal is \<open>ho_quote\<close>, the JSON library's.
\<close>

section \<open>Cookies on the wire\<close>

definition NEVER_ENABLED :: "string list" where
  "NEVER_ENABLED = [''Runtime'', ''DOM'', ''Log'', ''Debugger'', ''Profiler'']"

definition SELECTOR_POLL_INTERVAL :: duration where
  "SELECTOR_POLL_INTERVAL = from_millis 100"

definition string_field :: "json \<Rightarrow> string \<Rightarrow> string \<Rightarrow> error + string" where
  "string_field v field method =
     ok_or (BrowserError (method @ '' returned no '' @ field)) (Option.bind (jget field v) as_str_json)"

definition jset :: "string \<Rightarrow> json \<Rightarrow> json \<Rightarrow> json" where
  "jset k x v = (case v of JObj kvs \<Rightarrow> JObj (filter (\<lambda>kv. fst kv \<noteq> k) kvs @ [(k, x)]) | _ \<Rightarrow> v)"

definition str_at :: "string \<Rightarrow> json \<Rightarrow> string option" where
  "str_at k v = Option.bind (jget k v) as_str_json"

definition flag_at :: "string \<Rightarrow> json \<Rightarrow> bool" where
  "flag_at k v = (case Option.bind (jget k v) as_bool_json of None \<Rightarrow> False | Some b \<Rightarrow> b)"

definition same_site_from_cdp :: "string option \<Rightarrow> same_site option" where
  "same_site_from_cdp s =
     (if s = Some ''Strict'' then Some Strict else if s = Some ''Lax'' then Some Lax
      else if s = Some ''None'' then Some NoneSite else None)"

fun same_site_to_cdp :: "same_site \<Rightarrow> string" where
  "same_site_to_cdp Strict = ''Strict''"
| "same_site_to_cdp Lax = ''Lax''"
| "same_site_to_cdp NoneSite = ''None''"

definition cookie_from_cdp :: "json \<Rightarrow> cookie option" where
  "cookie_from_cdp entry =
     Option.bind (str_at ''name'' entry) (\<lambda>name.
     Option.bind (str_at ''value'' entry) (\<lambda>val.
     Option.bind (str_at ''domain'' entry) (\<lambda>domain.
     Option.bind (str_at ''path'' entry) (\<lambda>path.
       Some \<lparr>c_name = name, c_value = val, c_domain = domain, c_path = path,
             c_expires = (case Option.bind (jget ''expires'' entry) as_f64_json of
                            Some seconds \<Rightarrow> if 0 < seconds then Some (f64_as_u64 seconds) else None
                          | None \<Rightarrow> None),
             c_secure = flag_at ''secure'' entry,
             c_http_only = flag_at ''httpOnly'' entry,
             c_same_site = same_site_from_cdp (str_at ''sameSite'' entry)\<rparr>))))"

definition cookie_to_cdp :: "cookie \<Rightarrow> json" where
  "cookie_to_cdp c =
     (let e0 = JObj [(''name'', JStr (c_name c)), (''value'', JStr (c_value c)),
                     (''domain'', JStr (c_domain c)), (''path'', JStr (c_path c)),
                     (''secure'', JBool (c_secure c)), (''httpOnly'', JBool (c_http_only c))];
          e1 = (case c_expires c of None \<Rightarrow> e0
                | Some e \<Rightarrow> jset ''expires'' (JFloat (f64_of_int (int (unat e)))) e0)
      in (case c_same_site c of None \<Rightarrow> e1
          | Some s \<Rightarrow> jset ''sameSite'' (JStr (same_site_to_cdp s)) e1))"

section \<open>The browser\<close>

record page =
  pg_target :: string
  pg_session :: string

definition browser_call :: "'e host \<Rightarrow> string \<Rightarrow> json option \<Rightarrow> ('e, json) act" where
  "browser_call H method params = cdp_send H None method params"

definition page_call :: "'e host \<Rightarrow> page \<Rightarrow> string \<Rightarrow> json option \<Rightarrow> ('e, json) act" where
  "page_call H pg method params = cdp_send H (Some (pg_session pg)) method params"

definition page_do :: "'e host \<Rightarrow> page \<Rightarrow> string \<Rightarrow> json \<Rightarrow> ('e, unit) act" where
  "page_do H pg method params = abind (page_call H pg method (Some params)) (\<lambda>_. aret ())"

definition version :: "'e host \<Rightarrow> ('e, json) act" where
  "version H = browser_call H ''Browser.getVersion'' None"

text \<open>A page object starts with no domain enabled.\<close>

definition fresh_page :: "string \<Rightarrow> string \<Rightarrow> ('e, page) act" where
  "fresh_page target session w =
     Some (Inr \<lparr>pg_target = target, pg_session = session\<rparr>,
           w\<lparr>w_enabled := {sd \<in> w_enabled w. fst sd \<noteq> session}\<rparr>)"

definition new_page :: "'e host \<Rightarrow> string \<Rightarrow> ('e, page) act" where
  "new_page H url =
     abind (browser_call H ''Target.createTarget'' (Some (JObj [(''url'', JStr url)]))) (\<lambda>created.
     abind (alift (string_field created ''targetId'' ''Target.createTarget'')) (\<lambda>target_id.
     abind (browser_call H ''Target.attachToTarget''
              (Some (JObj [(''targetId'', JStr target_id), (''flatten'', JBool True)]))) (\<lambda>attached.
     abind (alift (string_field attached ''sessionId'' ''Target.attachToTarget'')) (\<lambda>session_id.
     fresh_page target_id session_id))))"

definition browser_cookies :: "'e host \<Rightarrow> ('e, cookie list) act" where
  "browser_cookies H =
     abind (browser_call H ''Storage.getCookies'' None) (\<lambda>result.
     abind (alift (ok_or (BrowserError ''Storage.getCookies returned no list'')
                     (Option.bind (jget ''cookies'' result) as_array_json))) (\<lambda>entries.
     aret (List.map_filter cookie_from_cdp entries)))"

definition set_cookies :: "'e host \<Rightarrow> cookie list \<Rightarrow> ('e, unit) act" where
  "set_cookies H cookies =
     (if cookies = [] then aret ()
      else abind (browser_call H ''Storage.setCookies''
                    (Some (JObj [(''cookies'', JArr (map cookie_to_cdp cookies))]))) (\<lambda>_. aret ()))"

section \<open>Reading the page\<close>

definition exception_text :: "json \<Rightarrow> string" where
  "exception_text details =
     (case Option.bind (Option.bind (jget ''exception'' details) (jget ''description'')) as_str_json of
        Some t \<Rightarrow> t
      | None \<Rightarrow> (case str_at ''text'' details of Some t \<Rightarrow> t | None \<Rightarrow> ''script threw''))"

definition evaluated :: "json \<Rightarrow> error + json" where
  "evaluated response =
     (case jget ''exceptionDetails'' response of
        Some details \<Rightarrow> Inl (BrowserError (''evaluating in the page failed: '' @ exception_text details))
      | None \<Rightarrow> Inr (case Option.bind (jget ''result'' response) (jget ''value'') of
                       None \<Rightarrow> JNull | Some v \<Rightarrow> v))"

definition evaluate :: "'e host \<Rightarrow> page \<Rightarrow> string \<Rightarrow> ('e, json) act" where
  "evaluate H pg expression =
     abind (page_call H pg ''Runtime.evaluate''
              (Some (JObj [(''expression'', JStr expression), (''returnByValue'', JBool True),
                           (''awaitPromise'', JBool True)]))) (\<lambda>response.
     alift (evaluated response))"

definition content :: "'e host \<Rightarrow> page \<Rightarrow> ('e, string) act" where
  "content H pg =
     abind (evaluate H pg (''document.documentElement ? document.documentElement.outerHTML : ''
                           @ [CHR 0x27, CHR 0x27])) (\<lambda>v.
     alift (ok_or (BrowserError ''the page returned no content'') (as_str_json v)))"

definition page_url :: "'e host \<Rightarrow> page \<Rightarrow> ('e, string) act" where
  "page_url H pg =
     abind (evaluate H pg ''document.location.href'') (\<lambda>v.
     alift (ok_or (BrowserError ''the page returned no URL'') (as_str_json v)))"

definition has_selector :: "'e host \<Rightarrow> page \<Rightarrow> string \<Rightarrow> ('e, bool) act" where
  "has_selector H pg selector =
     abind (evaluate H pg (''!!document.querySelector('' @ ho_quote H selector @ '')'')) (\<lambda>v.
     aret (v = JBool True))"

fun selector_loop :: "nat \<Rightarrow> 'e host \<Rightarrow> page \<Rightarrow> string \<Rightarrow> duration \<Rightarrow> nat \<Rightarrow> ('e, unit) act" where
  "selector_loop 0 H pg selector timeout deadline = (\<lambda>w. None)"
| "selector_loop (Suc n) H pg selector timeout deadline =
     abind (has_selector H pg selector) (\<lambda>found.
     if found then aret ()
     else abind (instant H) (\<lambda>t.
       if deadline \<le> t
       then afail (BrowserError (selector @ '' did not appear within '' @ duration_debug timeout))
       else abind (sleep H SELECTOR_POLL_INTERVAL) (\<lambda>_.
         selector_loop n H pg selector timeout deadline)))"

definition wait_for_selector :: "'e host \<Rightarrow> page \<Rightarrow> string \<Rightarrow> duration \<Rightarrow> ('e, unit) act" where
  "wait_for_selector H pg selector timeout =
     abind (instant H) (\<lambda>t.
     selector_loop (ho_fuel H) H pg selector timeout (t + nanos_of timeout))"

definition element_center :: "'e host \<Rightarrow> page \<Rightarrow> string \<Rightarrow> ('e, (rat \<times> rat) option) act" where
  "element_center H pg selector =
     abind (evaluate H pg
       (''(() => { const el = document.querySelector('' @ ho_quote H selector
        @ ''); if (!el) return null; const r = el.getBoundingClientRect(); if (r.width === 0 && r.height === 0) return null; return { x: r.left + r.width / 2, y: r.top + r.height / 2 }; })()'')) (\<lambda>v.
     aret (case (Option.bind (jget ''x'' v) as_f64_json, Option.bind (jget ''y'' v) as_f64_json) of
             (Some x, Some y) \<Rightarrow> Some (x, y)
           | _ \<Rightarrow> None))"

definition scroll_distance_to :: "'e host \<Rightarrow> page \<Rightarrow> string \<Rightarrow> ('e, rat option) act" where
  "scroll_distance_to H pg selector =
     abind (evaluate H pg
       (''(() => { const el = document.querySelector('' @ ho_quote H selector
        @ ''); if (!el) return null; const r = el.getBoundingClientRect(); if (r.width === 0 && r.height === 0) return null; const margin = 40; if (r.top < margin) return r.top - margin; if (r.bottom > innerHeight - margin) return r.bottom - innerHeight + margin; return 0; })()'')) (\<lambda>v.
     aret (as_f64_json v))"

section \<open>Driving the page\<close>

definition navigate :: "'e host \<Rightarrow> page \<Rightarrow> string \<Rightarrow> ('e, unit) act" where
  "navigate H pg url =
     abind (page_call H pg ''Page.navigate'' (Some (JObj [(''url'', JStr url)]))) (\<lambda>response.
     case str_at ''errorText'' response of
       Some reason \<Rightarrow> afail (BrowserError (''navigating to '' @ url @ '' failed: '' @ reason))
     | None \<Rightarrow> aret ())"

definition reload :: "'e host \<Rightarrow> page \<Rightarrow> bool \<Rightarrow> ('e, unit) act" where
  "reload H pg ignore_cache =
     page_do H pg ''Page.reload'' (JObj [(''ignoreCache'', JBool ignore_cache)])"

text \<open>The domain is recorded once the browser has answered; a failure leaves it not enabled.\<close>

definition enable_domain :: "'e host \<Rightarrow> page \<Rightarrow> string \<Rightarrow> ('e, unit) act" where
  "enable_domain H pg domain w =
     (if (pg_session pg, domain) \<in> w_enabled w then Some (Inr (), w)
      else abind (page_call H pg (domain @ ''.enable'') None)
             (\<lambda>_ w'. Some (Inr (), w'\<lparr>w_enabled := insert (pg_session pg, domain) (w_enabled w')\<rparr>)) w)"

record load_watcher =
  lw_since :: nat
  lw_session :: string

definition subscribe :: "page \<Rightarrow> ('e, load_watcher) act" where
  "subscribe pg w = Some (Inr \<lparr>lw_since = length (w_calls w), lw_session = pg_session pg\<rparr>, w)"

definition watch_load :: "'e host \<Rightarrow> page \<Rightarrow> ('e, load_watcher) act" where
  "watch_load H pg =
     abind (subscribe pg) (\<lambda>watcher.
     abind (enable_domain H pg ''Page'') (\<lambda>_. aret watcher))"

text \<open>
  Waiting reads what arrives on the subscription; the end of the list is the timeout.
\<close>

fun wait_events :: "string \<Rightarrow> duration \<Rightarrow> recv_item list \<Rightarrow> error + unit" where
  "wait_events session timeout [] =
     Inl (BrowserError (''the page did not load within '' @ duration_debug timeout))"
| "wait_events session timeout (GotEvent ev # xs) =
     (if ev_method ev = ''Page.loadEventFired'' \<and> ev_session ev = Some session then Inr ()
      else wait_events session timeout xs)"
| "wait_events session timeout (Lagged dropped # xs) = wait_events session timeout xs"
| "wait_events session timeout (RecvClosed # xs) =
     Inl (BrowserError ''the CDP connection closed while waiting for a page load'')"

definition wait :: "'e host \<Rightarrow> load_watcher \<Rightarrow> duration \<Rightarrow> ('e, unit) act" where
  "wait H lw timeout w =
     (case ho_recv H (lw_since lw) timeout (w_env w) of
        (items, e) \<Rightarrow> Some (wait_events (lw_session lw) timeout items, w\<lparr>w_env := e\<rparr>))"

definition navigate_and_wait :: "'e host \<Rightarrow> page \<Rightarrow> string \<Rightarrow> duration \<Rightarrow> ('e, unit) act" where
  "navigate_and_wait H pg url timeout =
     abind (watch_load H pg) (\<lambda>watcher.
     abind (navigate H pg url) (\<lambda>_. wait H watcher timeout))"

definition reload_and_wait :: "'e host \<Rightarrow> page \<Rightarrow> bool \<Rightarrow> duration \<Rightarrow> ('e, unit) act" where
  "reload_and_wait H pg ignore_cache timeout =
     abind (watch_load H pg) (\<lambda>watcher.
     abind (reload H pg ignore_cache) (\<lambda>_. wait H watcher timeout))"

definition open_page :: "'e host \<Rightarrow> string \<Rightarrow> duration \<Rightarrow> ('e, page) act" where
  "open_page H url timeout =
     abind (new_page H ''about:blank'') (\<lambda>pg.
     abind (navigate_and_wait H pg url timeout) (\<lambda>_. aret pg))"

definition mouse_params :: "string \<Rightarrow> rat \<Rightarrow> rat \<Rightarrow> (string \<times> json) list" where
  "mouse_params kind x y = [(''type'', JStr kind), (''x'', JFloat x), (''y'', JFloat y)]"

definition move_mouse :: "'e host \<Rightarrow> page \<Rightarrow> rat \<Rightarrow> rat \<Rightarrow> ('e, unit) act" where
  "move_mouse H pg x y =
     page_do H pg ''Input.dispatchMouseEvent'' (JObj (mouse_params ''mouseMoved'' x y))"

definition click_point :: "'e host \<Rightarrow> page \<Rightarrow> rat \<Rightarrow> rat \<Rightarrow> ('e, unit) act" where
  "click_point H pg x y =
     abind (move_mouse H pg x y) (\<lambda>_.
     aeach (\<lambda>event.
       page_do H pg ''Input.dispatchMouseEvent''
         (JObj (mouse_params event x y
                @ [(''button'', JStr ''left''), (''buttons'', JInt 1), (''clickCount'', JInt 1)])))
       [''mousePressed'', ''mouseReleased''])"

definition scroll_by :: "'e host \<Rightarrow> page \<Rightarrow> rat \<Rightarrow> rat \<Rightarrow> rat \<Rightarrow> ('e, unit) act" where
  "scroll_by H pg x y delta_y =
     page_do H pg ''Input.dispatchMouseEvent''
       (JObj (mouse_params ''mouseWheel'' x y @ [(''deltaX'', JInt 0), (''deltaY'', JFloat delta_y)]))"

text \<open>The character is given as the text it renders to.\<close>

definition press_key :: "'e host \<Rightarrow> page \<Rightarrow> string \<Rightarrow> ('e, unit) act" where
  "press_key H pg character =
     aeach (\<lambda>event.
       page_do H pg ''Input.dispatchKeyEvent''
         (JObj [(''type'', JStr event),
                (''text'', JStr (if event = ''keyDown'' then character else '''')),
                (''unmodifiedText'', JStr (if event = ''keyDown'' then character else '''')),
                (''key'', JStr character)]))
       [''keyDown'', ''keyUp'']"

section \<open>Identity and lifetime\<close>

definition add_init_script :: "'e host \<Rightarrow> page \<Rightarrow> string \<Rightarrow> ('e, unit) act" where
  "add_init_script H pg source =
     page_do H pg ''Page.addScriptToEvaluateOnNewDocument'' (JObj [(''source'', JStr source)])"

definition user_agent_params :: "string \<Rightarrow> string option \<Rightarrow> string option \<Rightarrow> json option \<Rightarrow> json" where
  "user_agent_params ua lang plat metadata =
     (let p0 = JObj [(''userAgent'', JStr ua)];
          p1 = (case lang of None \<Rightarrow> p0 | Some a \<Rightarrow> jset ''acceptLanguage'' (JStr a) p0);
          p2 = (case plat of None \<Rightarrow> p1 | Some p \<Rightarrow> jset ''platform'' (JStr p) p1)
      in (case metadata of None \<Rightarrow> p2 | Some m \<Rightarrow> jset ''userAgentMetadata'' m p2))"

definition set_user_agent ::
    "'e host \<Rightarrow> page \<Rightarrow> string \<Rightarrow> string option \<Rightarrow> string option \<Rightarrow> json option \<Rightarrow> ('e, unit) act" where
  "set_user_agent H pg ua lang plat metadata =
     page_do H pg ''Emulation.setUserAgentOverride''
       (user_agent_params ua lang plat metadata)"

definition set_timezone :: "'e host \<Rightarrow> page \<Rightarrow> string \<Rightarrow> ('e, unit) act" where
  "set_timezone H pg timezone_id =
     page_do H pg ''Emulation.setTimezoneOverride'' (JObj [(''timezoneId'', JStr timezone_id)])"

definition set_locale :: "'e host \<Rightarrow> page \<Rightarrow> string \<Rightarrow> ('e, unit) act" where
  "set_locale H pg locale_tag =
     page_do H pg ''Emulation.setLocaleOverride'' (JObj [(''locale'', JStr locale_tag)])"

definition set_viewport :: "'e host \<Rightarrow> page \<Rightarrow> u32 \<Rightarrow> u32 \<Rightarrow> ('e, unit) act" where
  "set_viewport H pg width height =
     page_do H pg ''Emulation.setDeviceMetricsOverride''
       (JObj [(''width'', JInt 0), (''height'', JInt 0),
              (''screenWidth'', JInt (int (unat width))), (''screenHeight'', JInt (int (unat height))),
              (''positionX'', JInt 0), (''positionY'', JInt 0),
              (''deviceScaleFactor'', JInt 1), (''mobile'', JBool False),
              (''screenOrientation'',
                 JObj [(''type'', JStr ''landscapePrimary''), (''angle'', JInt 0)])])"

definition close_page :: "'e host \<Rightarrow> page \<Rightarrow> ('e, unit) act" where
  "close_page H pg =
     abind (browser_call H ''Target.closeTarget'' (Some (JObj [(''targetId'', JStr (pg_target pg))])))
       (\<lambda>_. aret ())"

section \<open>Which calls are made\<close>

lemmas page_defs = evaluate_def content_def page_url_def has_selector_def element_center_def
  scroll_distance_to_def navigate_def reload_def watch_load_def navigate_and_wait_def
  reload_and_wait_def move_mouse_def click_point_def scroll_by_def press_key_def add_init_script_def
  set_user_agent_def set_timezone_def set_locale_def set_viewport_def close_page_def page_do_def
  browser_call_def page_call_def wait_for_selector_def

text \<open>Every method of a page, as a script a caller may run; errors do not stop the script.\<close>

datatype page_op =
    OpEvaluate string | OpContent | OpUrl | OpHasSelector string | OpWaitSelector string duration
  | OpCenter string | OpScrollDistance string | OpNavigate string | OpReload bool
  | OpNavigateWait string duration | OpReloadWait bool duration | OpMove rat rat | OpClick rat rat
  | OpScroll rat rat rat | OpKey string | OpInitScript string
  | OpUserAgent string "string option" "string option" "json option" | OpTimezone string
  | OpLocale string | OpViewport u32 u32 | OpClose

definition ignore :: "('e, 'a) act \<Rightarrow> ('e, unit) act" where
  "ignore m = abind (atry m) (\<lambda>_. aret ())"

fun page_run :: "'e host \<Rightarrow> page \<Rightarrow> page_op \<Rightarrow> ('e, unit) act" where
  "page_run H pg (OpEvaluate s) = ignore (evaluate H pg s)"
| "page_run H pg OpContent = ignore (content H pg)"
| "page_run H pg OpUrl = ignore (page_url H pg)"
| "page_run H pg (OpHasSelector s) = ignore (has_selector H pg s)"
| "page_run H pg (OpWaitSelector s t) = ignore (wait_for_selector H pg s t)"
| "page_run H pg (OpCenter s) = ignore (element_center H pg s)"
| "page_run H pg (OpScrollDistance s) = ignore (scroll_distance_to H pg s)"
| "page_run H pg (OpNavigate u) = ignore (navigate H pg u)"
| "page_run H pg (OpReload b) = ignore (reload H pg b)"
| "page_run H pg (OpNavigateWait u t) = ignore (navigate_and_wait H pg u t)"
| "page_run H pg (OpReloadWait b t) = ignore (reload_and_wait H pg b t)"
| "page_run H pg (OpMove x y) = ignore (move_mouse H pg x y)"
| "page_run H pg (OpClick x y) = ignore (click_point H pg x y)"
| "page_run H pg (OpScroll x y d) = ignore (scroll_by H pg x y d)"
| "page_run H pg (OpKey c) = ignore (press_key H pg c)"
| "page_run H pg (OpInitScript s) = ignore (add_init_script H pg s)"
| "page_run H pg (OpUserAgent u a p m) = ignore (set_user_agent H pg u a p m)"
| "page_run H pg (OpTimezone t) = ignore (set_timezone H pg t)"
| "page_run H pg (OpLocale l) = ignore (set_locale H pg l)"
| "page_run H pg (OpViewport x y) = ignore (set_viewport H pg x y)"
| "page_run H pg OpClose = ignore (close_page H pg)"

definition drive :: "'e host \<Rightarrow> page \<Rightarrow> page_op list \<Rightarrow> ('e, unit) act" where
  "drive H pg ops = aeach (page_run H pg) ops"

text \<open>
  The methods a page may send: those in the list, and \<open>Page.enable\<close> in its own session. A page
  that has enabled the domain sends it no more.
\<close>

definition page_methods :: "string list" where
  "page_methods =
     [''Runtime.evaluate'', ''Page.navigate'', ''Page.reload'', ''Input.dispatchMouseEvent'',
      ''Input.dispatchKeyEvent'', ''Page.addScriptToEvaluateOnNewDocument'',
      ''Emulation.setUserAgentOverride'', ''Emulation.setTimezoneOverride'',
      ''Emulation.setLocaleOverride'', ''Emulation.setDeviceMetricsOverride'', ''Target.closeTarget'']"

definition page_call_ok :: "page \<Rightarrow> cdp_call \<Rightarrow> bool" where
  "page_call_ok pg c =
     (case c of (s, m, p) \<Rightarrow> m \<in> set page_methods \<or> (m = ''Page.enable'' \<and> s = Some (pg_session pg)))"

lemma page_call_okI [simp]: "m \<in> set page_methods \<Longrightarrow> page_call_ok pg (s, m, p)"
  by (simp add: page_call_ok_def)

lemma page_methods_mem [simp]:
  "''Runtime.evaluate'' \<in> set page_methods" "''Page.navigate'' \<in> set page_methods"
  "''Page.reload'' \<in> set page_methods" "''Input.dispatchMouseEvent'' \<in> set page_methods"
  "''Input.dispatchKeyEvent'' \<in> set page_methods"
  "''Page.addScriptToEvaluateOnNewDocument'' \<in> set page_methods"
  "''Emulation.setUserAgentOverride'' \<in> set page_methods"
  "''Emulation.setTimezoneOverride'' \<in> set page_methods"
  "''Emulation.setLocaleOverride'' \<in> set page_methods"
  "''Emulation.setDeviceMetricsOverride'' \<in> set page_methods"
  "''Target.closeTarget'' \<in> set page_methods"
  unfolding page_methods_def by simp_all

lemma sends_enable_Page: "sends (page_call_ok pg) (enable_domain H pg ''Page'')"
  unfolding sends_def enable_domain_def page_call_def
  by (auto simp: abind_Some cdp_send_def page_call_ok_def split: if_splits prod.splits)

lemma sends_subscribe [sends_intros]: "sends P (subscribe pg)"
  by (auto simp: sends_def subscribe_def)

lemma sends_wait [sends_intros]: "sends P (wait H lw t)"
  by (auto simp: sends_def wait_def split: prod.splits)

lemma sends_selector_loop:
  "(\<And>ps. P (Some (pg_session pg), ''Runtime.evaluate'', ps)) \<Longrightarrow> sends P (selector_loop n H pg s t d)"
proof (induction n)
  case 0
  show ?case by (auto simp: sends_def)
next
  case (Suc n)
  show ?case unfolding selector_loop.simps has_selector_def evaluate_def page_call_def
    by (intro sends_intros Suc.IH Suc.prems)
qed

lemma sends_page_run: "sends (page_call_ok pg) (page_run H pg op)"
proof (cases op)
qed (simp_all only: page_run.simps ignore_def page_defs,
     (intro sends_intros sends_enable_Page sends_selector_loop; simp)+)

lemma sends_drive: "sends (page_call_ok pg) (drive H pg ops)"
  unfolding drive_def by (intro sends_each sends_page_run)

lemma page_methods_never:
  "m \<in> set page_methods \<Longrightarrow> m \<notin> (\<lambda>d. d @ ''.enable'') ` set NEVER_ENABLED"
  unfolding page_methods_def NEVER_ENABLED_def by auto


text \<open>
  \<open>sends_on x P m\<close>: once \<open>x\<close> is enabled it stays enabled while \<open>m\<close> runs, and the calls \<open>m\<close> makes then
  satisfy \<open>P\<close>.
\<close>

definition sends_on :: "string \<times> string \<Rightarrow> (cdp_call \<Rightarrow> bool) \<Rightarrow> ('e, 'a) act \<Rightarrow> bool" where
  "sends_on x P m \<longleftrightarrow>
     (\<forall>w r w'. x \<in> w_enabled w \<longrightarrow> m w = Some (r, w') \<longrightarrow>
        x \<in> w_enabled w' \<and> (\<exists>cs. w_calls w' = w_calls w @ cs \<and> list_all P cs))"

named_theorems on_intros \<open>which calls an action makes once a domain is enabled\<close>

lemma on_pure [on_intros]:
  "sends_on x P (aret a)" "sends_on x P (afail e)" "sends_on x P (alift y)" "sends_on x P (instant H)"
  "sends_on x P (sleep H d)" "sends_on x P (subscribe pg)" "sends_on x P (wait H lw t)"
  by (auto simp: sends_on_def subscribe_def wait_def split: prod.splits)

lemma on_call [on_intros]: "P (s, m, p) \<Longrightarrow> sends_on x P (cdp_send H s m p)"
  by (auto simp: sends_on_def cdp_send_def split: prod.splits)

lemma on_bind [on_intros]:
  assumes "sends_on x P m" and "\<And>a. sends_on x P (f a)"
  shows "sends_on x P (abind m f)"
  unfolding sends_on_def
proof (intro allI impI)
  fix w r w'
  assume x: "x \<in> w_enabled w" and b: "abind m f w = Some (r, w')"
  obtain q w1 where m: "m w = Some (q, w1)"
    using b by (auto simp: abind_def split: option.splits)
  then obtain cs where cs: "x \<in> w_enabled w1" "w_calls w1 = w_calls w @ cs" "list_all P cs"
    using assms(1) x unfolding sends_on_def by blast
  show "x \<in> w_enabled w' \<and> (\<exists>cs. w_calls w' = w_calls w @ cs \<and> list_all P cs)"
  proof (cases q)
    case (Inl e)
    then show ?thesis using b m cs by (auto simp: abind_def)
  next
    case (Inr a)
    then have "f a w1 = Some (r, w')" using b m by (simp add: abind_def)
    then obtain ds where "x \<in> w_enabled w'" "w_calls w' = w_calls w1 @ ds" "list_all P ds"
      using assms(2) cs(1) unfolding sends_on_def by blast
    then show ?thesis using cs by (intro conjI exI [of _ "cs @ ds"]) simp_all
  qed
qed

lemma on_try [on_intros]: "sends_on x P m \<Longrightarrow> sends_on x P (atry m)"
  unfolding sends_on_def atry_def by (auto split: option.splits prod.splits)

lemma on_each [on_intros]: "(\<And>y. sends_on x P (f y)) \<Longrightarrow> sends_on x P (aeach f ys)"
  by (induction ys) (auto intro: on_intros)

lemma on_cases [on_intros]:
  "sends_on x P m \<Longrightarrow> sends_on x P n \<Longrightarrow> sends_on x P (if b then m else n)"
  "sends_on x P m \<Longrightarrow> (\<And>a. sends_on x P (f a)) \<Longrightarrow>
     sends_on x P (case y of None \<Rightarrow> m | Some a \<Rightarrow> f a)"
  by (auto split: option.splits)

lemma on_enabled: "sends_on (pg_session pg, d) P (enable_domain H pg d)"
  by (auto simp: sends_on_def enable_domain_def)

lemma on_selector_loop:
  "(\<And>ps. P (Some (pg_session pg), ''Runtime.evaluate'', ps)) \<Longrightarrow> sends_on x P (selector_loop n H pg s t d)"
proof (induction n)
  case 0
  show ?case by (auto simp: sends_on_def)
next
  case (Suc n)
  show ?case unfolding selector_loop.simps has_selector_def evaluate_def page_call_def
    by (intro on_intros Suc.IH Suc.prems)
qed

lemma page_methods_no_enable: "m \<in> set page_methods \<Longrightarrow> m \<noteq> ''Page.enable''"
  unfolding page_methods_def by auto

lemma on_page_run:
  "sends_on (pg_session pg, ''Page'') (\<lambda>(s, m, p). m \<in> set page_methods) (page_run H pg op)"
proof (cases op)
qed (simp_all only: page_run.simps ignore_def page_defs,
     (intro on_intros on_enabled on_selector_loop; simp)+)

lemma enable_domain_enabled:
  "enable_domain H pg d w = Some (Inr (), w') \<Longrightarrow> (pg_session pg, d) \<in> w_enabled w'"
  by (auto simp: enable_domain_def abind_Some split: if_splits)

lemma watch_load_enabled:
  "watch_load H pg w = Some (Inr lw, w') \<Longrightarrow> (pg_session pg, ''Page'') \<in> w_enabled w'"
  by (auto simp: watch_load_def abind_Some subscribe_def dest: enable_domain_enabled)

lemma navigate_keeps_enabled:
  "navigate H pg u w = Some (r, w') \<Longrightarrow> w_enabled w' = w_enabled w"
  by (auto simp: navigate_def abind_Some page_call_def cdp_send_def split: prod.splits option.splits)

lemma navigate_and_wait_Some:
  "navigate_and_wait H pg u t w = Some (Inr (), w') \<Longrightarrow>
     \<exists>w1 w2 lw. watch_load H pg w = Some (Inr lw, w1) \<and> navigate H pg u w1 = Some (Inr (), w2)
       \<and> wait H lw t w2 = Some (Inr (), w')"
  by (auto simp: navigate_and_wait_def abind_Some)

lemma wait_keeps_enabled: "wait H lw t w = Some (r, w') \<Longrightarrow> w_enabled w' = w_enabled w"
  by (auto simp: wait_def split: prod.splits)

lemma navigate_and_wait_enabled:
  "navigate_and_wait H pg u t w = Some (Inr (), w') \<Longrightarrow> (pg_session pg, ''Page'') \<in> w_enabled w'"
  using navigate_and_wait_Some watch_load_enabled navigate_keeps_enabled wait_keeps_enabled by metis

text \<open>Once a navigation has been waited for, the page's load domain is enabled and no later
script of page methods asks for it again, whatever the browser answers.\<close>

theorem page_enabled_at_most_once:
  assumes "navigate_and_wait H pg url timeout w = Some (Inr (), w1)"
    and "drive H pg ops w1 = Some (r, w2)"
  shows "\<exists>cs. w_calls w2 = w_calls w1 @ cs \<and> ''Page.enable'' \<notin> (\<lambda>(s, m, p). m) ` set cs"
proof -
  have "(pg_session pg, ''Page'') \<in> w_enabled w1"
    using navigate_and_wait_enabled [OF assms(1)] .
  moreover have "sends_on (pg_session pg, ''Page'') (\<lambda>(s, m, p). m \<in> set page_methods) (drive H pg ops)"
    unfolding drive_def by (intro on_each on_page_run)
  ultimately obtain cs where "w_calls w2 = w_calls w1 @ cs" "list_all (\<lambda>(s, m, p). m \<in> set page_methods) cs"
    using assms(2) unfolding sends_on_def by blast
  then show ?thesis by (auto simp: list_all_iff dest: page_methods_no_enable)
qed

text \<open>A browser that answers every call with an empty object and reports one load of session S1.\<close>

definition calm_host :: "nat host" where
  "calm_host =
     \<lparr>ho_reply = (\<lambda>c e. (Inr (JObj []), e)),
      ho_recv = (\<lambda>since t e.
        ([Lagged 3, GotEvent \<lparr>ev_method = ''Page.loadEventFired'', ev_params = JNull, ev_session = Some ''S1''\<rparr>], e)),
      ho_sleep = (\<lambda>d e. e + nanos_of d), ho_instant = (\<lambda>e. e), ho_now = (\<lambda>e. 0),
      ho_quote = (\<lambda>s. s), ho_fuel = 5\<rparr>"

definition calm_world :: "nat world" where
  "calm_world = \<lparr>w_env = 0, w_calls = [], w_enabled = {}, w_log = [], w_sent = [], w_launched = []\<rparr>"

definition calm_page :: page where "calm_page = \<lparr>pg_target = ''T1'', pg_session = ''S1''\<rparr>"

definition calm_loaded :: "nat world" where
  "calm_loaded =
     \<lparr>w_env = 0, w_calls = [(Some ''S1'', ''Page.enable'', None),
        (Some ''S1'', ''Page.navigate'', Some (JObj [(''url'', JStr ''u'')]))],
      w_enabled = {(''S1'', ''Page'')}, w_log = [], w_sent = [], w_launched = []\<rparr>"

lemmas calm_defs = calm_host_def calm_world_def calm_page_def calm_loaded_def

lemma calm_navigate:
  "navigate_and_wait calm_host calm_page ''u'' (from_secs 1) calm_world = Some (Inr (), calm_loaded)"
  by (simp add: navigate_and_wait_def watch_load_def subscribe_def enable_domain_def navigate_def
      page_call_def cdp_send_def abind_def wait_def str_at_def calm_defs)

theorem page_enabled_at_most_once_witness:
  "\<exists>r w2 cs. drive calm_host calm_page [OpReload True] calm_loaded = Some (r, w2) \<and>
     w_calls w2 = w_calls calm_loaded @ cs \<and> ''Page.enable'' \<notin> (\<lambda>(s, m, p). m) ` set cs"
proof -
  obtain r w2 where "drive calm_host calm_page [OpReload True] calm_loaded = Some (r, w2)"
    by (simp add: drive_def ignore_def atry_def reload_def page_do_def page_call_def cdp_send_def
        abind_def calm_defs)
  then show ?thesis using page_enabled_at_most_once [OF calm_navigate] by blast
qed

section \<open>Waiting for a load\<close>

definition load_seen :: "string \<Rightarrow> recv_item list \<Rightarrow> bool" where
  "load_seen s items \<longleftrightarrow>
     (\<exists>as ev bs. items = as @ GotEvent ev # bs \<and> RecvClosed \<notin> set as
        \<and> ev_method ev = ''Page.loadEventFired'' \<and> ev_session ev = Some s)"

lemma load_seen_simps:
  "load_seen s [] \<longleftrightarrow> False"
  "load_seen s (x # xs) \<longleftrightarrow>
     (\<exists>ev. x = GotEvent ev \<and> ev_method ev = ''Page.loadEventFired'' \<and> ev_session ev = Some s)
     \<or> x \<noteq> RecvClosed \<and> load_seen s xs" (is "?L \<longleftrightarrow> ?R")
proof -
  show "load_seen s [] \<longleftrightarrow> False" by (simp add: load_seen_def)
  show "?L \<longleftrightarrow> ?R"
  proof
    assume ?L
    then obtain as ev bs where e: "x # xs = as @ GotEvent ev # bs" "RecvClosed \<notin> set as"
        "ev_method ev = ''Page.loadEventFired''" "ev_session ev = Some s"
      unfolding load_seen_def by blast
    then show ?R by (cases as) (auto simp: load_seen_def)
  next
    assume ?R
    then consider ev where "x = GotEvent ev" "ev_method ev = ''Page.loadEventFired''" "ev_session ev = Some s"
      | as ev bs where "x \<noteq> RecvClosed" "xs = as @ GotEvent ev # bs" "RecvClosed \<notin> set as"
          "ev_method ev = ''Page.loadEventFired''" "ev_session ev = Some s"
      unfolding load_seen_def by blast
    then show ?L
    proof cases
      case 1
      then show ?thesis unfolding load_seen_def by (intro exI [of _ "[]"]) auto
    next
      case 2
      then show ?thesis unfolding load_seen_def
        by (intro exI [of _ "x # as"] exI [of _ ev] exI [of _ bs]) auto
    qed
  qed
qed

lemma wait_events_ok: "wait_events s t items = Inr () \<longleftrightarrow> load_seen s items"
  by (induction s t items rule: wait_events.induct) (auto simp: load_seen_simps)

text \<open>C30. A navigation that is reported loaded was subscribed to before it was triggered: the calls
made are the enabling of the domain, if it was not enabled, and then the navigation; the load event
of this page's session was received on the subscription taken before all of them, with the
connection still open.\<close>

theorem navigation_subscribed_first:
  assumes "navigate_and_wait H pg url timeout w = Some (Inr (), w')"
  shows "w_calls w' = w_calls w
           @ (if (pg_session pg, ''Page'') \<in> w_enabled w then [] else [(Some (pg_session pg), ''Page.enable'', None)])
           @ [(Some (pg_session pg), ''Page.navigate'', Some (JObj [(''url'', JStr url)]))]
         \<and> (\<exists>e. load_seen (pg_session pg) (fst (ho_recv H (length (w_calls w)) timeout e)))"
proof -
  obtain w1 w2 lw where s: "watch_load H pg w = Some (Inr lw, w1)"
      "navigate H pg url w1 = Some (Inr (), w2)" "wait H lw timeout w2 = Some (Inr (), w')"
    using navigate_and_wait_Some [OF assms] by blast
  have c1: "w_calls w1 = w_calls w
           @ (if (pg_session pg, ''Page'') \<in> w_enabled w then [] else [(Some (pg_session pg), ''Page.enable'', None)])"
      and lw: "lw = \<lparr>lw_since = length (w_calls w), lw_session = pg_session pg\<rparr>"
    using s(1) by (auto simp: watch_load_def subscribe_def enable_domain_def page_call_def
        cdp_send_def abind_Some split: if_splits prod.splits)
  have c2: "w_calls w2 = w_calls w1 @ [(Some (pg_session pg), ''Page.navigate'', Some (JObj [(''url'', JStr url)]))]"
    using s(2) by (auto simp: navigate_def page_call_def cdp_send_def abind_Some
        split: prod.splits option.splits)
  have "w_calls w' = w_calls w2"
    using s(3) by (auto simp: wait_def split: prod.splits)
  moreover have "wait_events (pg_session pg) timeout (fst (ho_recv H (length (w_calls w)) timeout (w_env w2))) = Inr ()"
    using s(3) lw by (auto simp: wait_def split: prod.splits)
  ultimately show ?thesis using c1 c2 unfolding wait_events_ok by (intro conjI) (simp, blast)
qed

theorem navigation_subscribed_first_witness:
  "w_calls calm_loaded = w_calls calm_world
     @ (if (''S1'', ''Page'') \<in> w_enabled calm_world then [] else [(Some ''S1'', ''Page.enable'', None)])
     @ [(Some ''S1'', ''Page.navigate'', Some (JObj [(''url'', JStr ''u'')]))]
   \<and> (\<exists>e. load_seen ''S1'' (fst (ho_recv calm_host (length (w_calls calm_world)) (from_secs 1) e)))"
  using navigation_subscribed_first [OF calm_navigate] by (simp add: calm_page_def)

section \<open>Waiting for a selector\<close>

text \<open>
  The clocks: answering a call never turns the monotonic clock back, and sleeping advances it by at
  least the time asked for.
\<close>

definition clock_ok :: "'e host \<Rightarrow> bool" where
  "clock_ok H \<longleftrightarrow>
     (\<forall>c e. ho_instant H e \<le> ho_instant H (snd (ho_reply H c e)))
     \<and> (\<forall>d e. ho_instant H e + nanos_of d \<le> ho_instant H (ho_sleep H d e))"

definition selector_call :: "'e host \<Rightarrow> page \<Rightarrow> string \<Rightarrow> cdp_call" where
  "selector_call H pg selector =
     (Some (pg_session pg), ''Runtime.evaluate'',
      Some (JObj [(''expression'', JStr (''!!document.querySelector('' @ ho_quote H selector @ '')'')),
                  (''returnByValue'', JBool True), (''awaitPromise'', JBool True)]))"

lemma has_selector_run:
  "\<exists>q e. has_selector H pg s w
      = Some (q, w\<lparr>w_env := e, w_calls := w_calls w @ [selector_call H pg s]\<rparr>)
    \<and> e = snd (ho_reply H (selector_call H pg s) (w_env w))
    \<and> (q = Inr True \<longleftrightarrow>
        (\<exists>v. fst (ho_reply H (selector_call H pg s) (w_env w)) = Inr v \<and> evaluated v = Inr (JBool True)))"
proof -
  obtain a e where r: "ho_reply H (selector_call H pg s) (w_env w) = (a, e)" by force
  show ?thesis
  proof (cases a)
    case (Inl x)
    then show ?thesis using r
      by (auto simp: has_selector_def evaluate_def page_call_def cdp_send_def selector_call_def abind_def)
  next
    case (Inr v)
    then show ?thesis using r
      by (cases "evaluated v")
         (auto simp: has_selector_def evaluate_def page_call_def cdp_send_def selector_call_def abind_def)
  qed
qed

lemma nanos_poll: "nanos_of SELECTOR_POLL_INTERVAL = 100000000"
  by (simp add: SELECTOR_POLL_INTERVAL_def from_millis_def nanos_of_def)

lemma selector_loop_returns:
  assumes "clock_ok H" "deadline \<le> ho_instant H (w_env w) + m * 100000000" "m < n"
  shows "\<exists>r w' k. selector_loop n H pg s t deadline w = Some (r, w') \<and> 1 \<le> k \<and> k \<le> m + 1
           \<and> w_calls w' = w_calls w @ replicate k (selector_call H pg s)
           \<and> (r = Inr () \<longrightarrow> (\<exists>e v. fst (ho_reply H (selector_call H pg s) e) = Inr v
                                   \<and> evaluated v = Inr (JBool True)))"
  using assms(2,3)
proof (induction n arbitrary: w m)
  case 0
  then show ?case by simp
next
  case (Suc n)
  obtain q e where q: "has_selector H pg s w
      = Some (q, w\<lparr>w_env := e, w_calls := w_calls w @ [selector_call H pg s]\<rparr>)"
    and e: "e = snd (ho_reply H (selector_call H pg s) (w_env w))"
    and ok: "q = Inr True \<longleftrightarrow>
        (\<exists>v. fst (ho_reply H (selector_call H pg s) (w_env w)) = Inr v \<and> evaluated v = Inr (JBool True))"
    using has_selector_run [of H pg s w] by blast
  have mono: "ho_instant H (w_env w) \<le> ho_instant H e"
    using assms(1) unfolding e clock_ok_def by blast
  consider (err) x where "q = Inl x" | (found) "q = Inr True" | (late) "q = Inr False" "deadline \<le> ho_instant H e"
    | (again) "q = Inr False" "\<not> deadline \<le> ho_instant H e"
    by (cases q) auto
  then show ?case
  proof cases
    case err
    then show ?thesis using q by (intro exI [of _ "Inl x"] exI exI [of _ 1]) auto
  next
    case found
    then show ?thesis using q ok by (intro exI [of _ "Inr ()"] exI exI [of _ 1]) auto
  next
    case late
    then have "selector_loop (Suc n) H pg s t deadline w
        = Some (Inl (BrowserError (s @ '' did not appear within '' @ duration_debug t)),
            w\<lparr>w_env := e, w_calls := w_calls w @ [selector_call H pg s]\<rparr>)"
      using q by (simp add: abind_def)
    then show ?thesis by (intro exI [of _ "Inl _"] exI conjI, assumption) auto
  next
    case again
    let ?w = "w\<lparr>w_env := ho_sleep H SELECTOR_POLL_INTERVAL e, w_calls := w_calls w @ [selector_call H pg s]\<rparr>"
    have comm: "w\<lparr>w_calls := cs, w_env := e'\<rparr> = w\<lparr>w_env := e', w_calls := cs\<rparr>" for e' cs
      by (cases w) simp
    have "ho_instant H e + 100000000 \<le> ho_instant H (w_env ?w)"
      using assms(1) nanos_poll unfolding clock_ok_def by (metis world.select_convs(1) world.update_convs(1,2) world.surjective)
    moreover obtain m' where m: "m = Suc m'"
      using again(2) mono Suc.prems(1) by (cases m) auto
    ultimately have d: "deadline \<le> ho_instant H (w_env ?w) + m' * 100000000" "m' < n"
      using mono Suc.prems by simp_all
    from Suc.IH [OF d] obtain r w' k where
        "selector_loop n H pg s t deadline ?w = Some (r, w')" "1 \<le> k" "k \<le> m' + 1"
        "w_calls w' = w_calls ?w @ replicate k (selector_call H pg s)"
        "r = Inr () \<longrightarrow> (\<exists>e v. fst (ho_reply H (selector_call H pg s) e) = Inr v
                                   \<and> evaluated v = Inr (JBool True))"
      by blast
    moreover have "selector_loop (Suc n) H pg s t deadline w = selector_loop n H pg s t deadline ?w"
      using q again by (simp add: abind_def, simp only: comm)
    ultimately show ?thesis using m
      by (intro exI [of _ r] exI [of _ w'] exI [of _ "Suc k"]) (auto simp del: selector_loop.simps)
  qed
qed

text \<open>Waiting for a selector returns, on clocks that advance: it reads the page at most once per
poll interval of the timeout and twice more, and reports the element present only when the page
said so.\<close>

theorem wait_for_selector_returns:
  assumes "clock_ok H" "nanos_of timeout div 100000000 + 1 < ho_fuel H"
  shows "\<exists>r w' k. wait_for_selector H pg selector timeout w = Some (r, w')
           \<and> 1 \<le> k \<and> k \<le> nanos_of timeout div 100000000 + 2
           \<and> w_calls w' = w_calls w @ replicate k (selector_call H pg selector)
           \<and> (r = Inr () \<longrightarrow> (\<exists>e v. fst (ho_reply H (selector_call H pg selector) e) = Inr v
                                   \<and> evaluated v = Inr (JBool True)))"
proof -
  let ?m = "nanos_of timeout div 100000000 + 1"
  have "ho_instant H (w_env w) + nanos_of timeout \<le> ho_instant H (w_env w) + ?m * 100000000"
    using div_mult_mod_eq [of "nanos_of timeout" 100000000] mod_less_divisor [of 100000000 "nanos_of timeout"]
    by (simp add: add_mult_distrib)
  from selector_loop_returns [OF assms(1) this assms(2)] show ?thesis
    by (simp add: wait_for_selector_def add.commute)
qed

theorem wait_for_selector_returns_witness:
  "\<exists>r w' k. wait_for_selector calm_host calm_page ''a'' (Duration 0 200000000) calm_world = Some (r, w')
           \<and> 1 \<le> k \<and> k \<le> 4
           \<and> w_calls w' = w_calls calm_world @ replicate k (selector_call calm_host calm_page ''a'')
           \<and> (r = Inr () \<longrightarrow> (\<exists>e v. fst (ho_reply calm_host (selector_call calm_host calm_page ''a'') e) = Inr v
                                   \<and> evaluated v = Inr (JBool True)))"
  using wait_for_selector_returns [of calm_host "Duration 0 200000000" calm_page "''a''" calm_world]
  by (simp add: clock_ok_def calm_host_def nanos_of_def)

section \<open>Handing cookies over\<close>

lemma f64_as_u64_of_nat: "0 < n \<Longrightarrow> n < 2 ^ 53 \<Longrightarrow> f64_as_u64 (f64_of_int (int n)) = of_nat n"
proof -
  assume n: "0 < n" "n < 2 ^ 53"
  then have "n < 2 ^ 64" by simp
  then have "(rat_of_nat n) < 2 ^ 64" by (metis of_nat_less_iff of_nat_numeral of_nat_power)
  then show ?thesis using n by (simp add: f64_as_u64_def f64_of_int_def round_53_exact)
qed

lemma same_site_rt [simp]: "same_site_from_cdp (Some (same_site_to_cdp s)) = Some s"
  by (cases s) (simp_all add: same_site_from_cdp_def)

text \<open>
  An expiry that a float carries exactly; a cookie that expires at zero is sent as one that expires
  at no time at all.
\<close>

definition portable_expiry :: "cookie \<Rightarrow> bool" where
  "portable_expiry c \<longleftrightarrow>
     (case c_expires c of None \<Rightarrow> True | Some e \<Rightarrow> 0 < unat e \<and> unat e < 2 ^ 53)"

lemma cookie_to_cdp_fields:
  "str_at ''name'' (cookie_to_cdp c) = Some (c_name c)"
  "str_at ''value'' (cookie_to_cdp c) = Some (c_value c)"
  "str_at ''domain'' (cookie_to_cdp c) = Some (c_domain c)"
  "str_at ''path'' (cookie_to_cdp c) = Some (c_path c)"
  "flag_at ''secure'' (cookie_to_cdp c) = c_secure c"
  "flag_at ''httpOnly'' (cookie_to_cdp c) = c_http_only c"
  "str_at ''sameSite'' (cookie_to_cdp c) = map_option same_site_to_cdp (c_same_site c)"
  "jget ''expires'' (cookie_to_cdp c)
     = map_option (\<lambda>e. JFloat (f64_of_int (int (unat e)))) (c_expires c)"
  by (cases "c_expires c"; cases "c_same_site c";
      simp add: cookie_to_cdp_def jset_def str_at_def flag_at_def)+

lemma portable_expiry_rt:
  "portable_expiry c \<Longrightarrow>
     (case Option.bind (map_option (\<lambda>e. JFloat (f64_of_int (int (unat e)))) (c_expires c)) as_f64_json of
        Some seconds \<Rightarrow> if 0 < seconds then Some (f64_as_u64 seconds) else None
      | None \<Rightarrow> None) = c_expires c"
proof (cases "c_expires c")
  case (Some e)
  assume "portable_expiry c"
  then have e: "0 < unat e" "unat e < 2 ^ 53" using Some by (simp_all add: portable_expiry_def)
  have "f64_of_int (int (unat e)) = rat_of_nat (unat e)"
    using round_53_exact [OF e(2)] by (simp add: f64_of_int_def)
  then have "0 < f64_of_int (int (unat e))" using e(1) by (metis of_nat_0_less_iff)
  then show ?thesis using Some f64_as_u64_of_nat [OF e] by simp
qed simp

lemma cookie_cdp_roundtrip:
  assumes "portable_expiry c"
  shows "cookie_from_cdp (cookie_to_cdp c) = Some c"
proof -
  have "same_site_from_cdp (map_option same_site_to_cdp (c_same_site c)) = c_same_site c"
    by (cases "c_same_site c") (simp_all add: same_site_from_cdp_def [of None])
  then show ?thesis
    unfolding cookie_from_cdp_def cookie_to_cdp_fields portable_expiry_rt [OF assms] by simp
qed

text \<open>A cookie that expires at time zero comes back as a session cookie.\<close>

lemma expiry_zero_lost:
  "c_expires c = Some 0 \<Longrightarrow> cookie_from_cdp (cookie_to_cdp c) = Some (c\<lparr>c_expires := None\<rparr>)"
proof -
  assume z: "c_expires c = Some 0"
  have "same_site_from_cdp (map_option same_site_to_cdp (c_same_site c)) = c_same_site c"
    by (cases "c_same_site c") (simp_all add: same_site_from_cdp_def [of None])
  then show ?thesis
    unfolding cookie_from_cdp_def cookie_to_cdp_fields
    using z by (simp add: f64_of_int_def round_53_exact)
qed

text \<open>An expiry within the first second of the epoch is read as time zero.\<close>

lemma expiry_within_first_second:
  "map_option c_expires (cookie_from_cdp (JObj [(''name'', JStr n), (''value'', JStr v),
     (''domain'', JStr d), (''path'', JStr p), (''expires'', JFloat (1 / 2))])) = Some (Some 0)"
proof -
  have "\<lfloor>1 / 2 :: rat\<rfloor> = 0" by (rule floor_unique) simp_all
  then show ?thesis by (simp add: cookie_from_cdp_def str_at_def f64_as_u64_def)
qed

lemma map_filter_roundtrip:
  "(\<And>x. x \<in> set xs \<Longrightarrow> g (f x) = Some x) \<Longrightarrow> List.map_filter g (map f xs) = xs"
  by (induction xs) simp_all


text \<open>A browser whose cookie jar is the list it was last given.\<close>

definition jar_host :: "json host" where
  "jar_host =
     \<lparr>ho_reply = (\<lambda>(s, m, p) e.
        if m = ''Storage.setCookies'' then (Inr (JObj []), jidx ''cookies'' (the p))
        else (Inr (JObj [(''cookies'', e)]), e)),
      ho_recv = (\<lambda>since t e. ([], e)), ho_sleep = (\<lambda>d e. e), ho_instant = (\<lambda>e. 0),
      ho_now = (\<lambda>e. 0), ho_quote = (\<lambda>s. s), ho_fuel = 1\<rparr>"

definition jar_cookie :: cookie where
  "jar_cookie = \<lparr>c_name = ''cf_clearance'', c_value = ''v'', c_domain = ''.example.com'', c_path = ''/'',
     c_expires = Some 1700000000, c_secure = True, c_http_only = True, c_same_site = Some NoneSite\<rparr>"


end
