(* ===== verification/ProxyPool.thy ===== *)
theory ProxyPool
  imports Geo
begin

text \<open>
  Models \<open>src/src/proxy_pool.rs\<close>. A random index is an argument \<open>draw\<close>: what \<open>random_range(0..n)\<close>
  returns, of which only \<open>draw n < n\<close> is used; since the number of healthy proxies falls with every
  rotation, one function of that number covers every sequence of draws. The locale \<open>rotation\<close> is the contract the scraper
  relies on when it retires a blocked proxy; the pool of the source interprets it.
\<close>

section \<open>State and operations\<close>

datatype rotation_strategy = RoundRobin | RandomPick

record proxy_endpoint =
  pe_url :: string
  pe_country :: "country_code option"
  pe_healthy :: bool

record proxy_pool =
  pp_endpoints :: "proxy_endpoint list"
  pp_strategy :: rotation_strategy
  pp_current :: "nat option"

fun collect_endpoints ::
    "(string \<times> country_code option) list \<Rightarrow> proxy_endpoint list \<Rightarrow> proxy_endpoint list" where
  "collect_endpoints [] acc = acc"
| "collect_endpoints ((u, c) # rest) acc =
     (let url = trim u in
      if url = [] \<or> list_ex (\<lambda>e. pe_url e = url) acc then collect_endpoints rest acc
      else collect_endpoints rest (acc @ [\<lparr>pe_url = url, pe_country = c, pe_healthy = True\<rparr>]))"

definition with_endpoints ::
    "(nat \<Rightarrow> nat) \<Rightarrow> (string \<times> country_code option) list \<Rightarrow> rotation_strategy \<Rightarrow> proxy_pool" where
  "with_endpoints draw es strategy =
     (let collected = collect_endpoints es [] in
      \<lparr>pp_endpoints = collected, pp_strategy = strategy,
       pp_current = (if collected = [] then None
                     else (case strategy of RoundRobin \<Rightarrow> Some 0
                                          | RandomPick \<Rightarrow> Some (draw (length collected))))\<rparr>)"

definition pool_new :: "(nat \<Rightarrow> nat) \<Rightarrow> string list \<Rightarrow> rotation_strategy \<Rightarrow> proxy_pool" where
  "pool_new draw urls = with_endpoints draw (map (\<lambda>u. (u, None)) urls)"

definition pool_len :: "proxy_pool \<Rightarrow> nat" where
  "pool_len p = length (pp_endpoints p)"

definition pool_is_empty :: "proxy_pool \<Rightarrow> bool" where
  "pool_is_empty p \<longleftrightarrow> pp_endpoints p = []"

definition healthy_count :: "proxy_pool \<Rightarrow> nat" where
  "healthy_count p = length (filter pe_healthy (pp_endpoints p))"

definition selected :: "proxy_pool \<Rightarrow> string option" where
  "selected p = map_option (\<lambda>i. pe_url (pp_endpoints p ! i)) (pp_current p)"

definition selected_country :: "proxy_pool \<Rightarrow> country_code option" where
  "selected_country p = Option.bind (pp_current p) (\<lambda>i. pe_country (pp_endpoints p ! i))"

definition next_round_robin :: "proxy_pool \<Rightarrow> nat option" where
  "next_round_robin p =
     (let n = length (pp_endpoints p) in
      if n = 0 then None
      else (let start = (case pp_current p of None \<Rightarrow> 0 | Some i \<Rightarrow> i) in
            find (\<lambda>i. pe_healthy (pp_endpoints p ! i)) (map (\<lambda>step. (start + step) mod n) [1..<Suc n])))"

definition healthy_indices :: "proxy_pool \<Rightarrow> nat list" where
  "healthy_indices p =
     filter (\<lambda>i. pe_healthy (pp_endpoints p ! i)) [0..<length (pp_endpoints p)]"

definition next_random :: "(nat \<Rightarrow> nat) \<Rightarrow> proxy_pool \<Rightarrow> nat option" where
  "next_random draw p =
     (let hs = healthy_indices p in
      if hs = [] then None else Some (hs ! draw (length hs)))"

definition retire_current :: "proxy_pool \<Rightarrow> proxy_pool" where
  "retire_current p =
     (case pp_current p of
        None \<Rightarrow> p
      | Some i \<Rightarrow>
          p\<lparr>pp_endpoints := (pp_endpoints p)[i := (pp_endpoints p ! i)\<lparr>pe_healthy := False\<rparr>]\<rparr>)"

definition rotate_pool :: "(nat \<Rightarrow> nat) \<Rightarrow> proxy_pool \<Rightarrow> string option \<times> proxy_pool" where
  "rotate_pool draw p =
     (let q = retire_current p;
          nxt = (case pp_strategy q of RoundRobin \<Rightarrow> next_round_robin q
                                     | RandomPick \<Rightarrow> next_random draw q)
      in (map_option (\<lambda>i. pe_url (pp_endpoints q ! i)) nxt, q\<lparr>pp_current := nxt\<rparr>))"

section \<open>Well-formed pools\<close>

definition fair :: "(nat \<Rightarrow> nat) \<Rightarrow> bool" where
  "fair draw \<longleftrightarrow> (\<forall>n. 0 < n \<longrightarrow> draw n < n)"

definition live :: "proxy_pool \<Rightarrow> string set" where
  "live p = pe_url ` {e \<in> set (pp_endpoints p). pe_healthy e}"

definition pool_inv :: "proxy_pool \<Rightarrow> bool" where
  "pool_inv p \<longleftrightarrow>
     distinct (map pe_url (pp_endpoints p)) \<and> (\<forall>e \<in> set (pp_endpoints p). pe_url e \<noteq> []) \<and>
     (case pp_current p of
        None \<Rightarrow> live p = {}
      | Some i \<Rightarrow> i < length (pp_endpoints p) \<and> pe_healthy (pp_endpoints p ! i))"

lemma live_code: "live p = set (map pe_url (filter pe_healthy (pp_endpoints p)))"
  by (simp add: live_def)

lemma collect_props:
  "distinct (map pe_url acc) \<Longrightarrow> \<forall>e \<in> set acc. pe_url e \<noteq> [] \<and> pe_healthy e \<Longrightarrow>
   distinct (map pe_url (collect_endpoints es acc)) \<and>
   (\<forall>e \<in> set (collect_endpoints es acc). pe_url e \<noteq> [] \<and> pe_healthy e)"
proof (induction es acc rule: collect_endpoints.induct)
  case (1 acc) then show ?case by simp
next
  case (2 u c es acc)
  show ?case
  proof (cases "trim u = [] \<or> list_ex (\<lambda>e. pe_url e = trim u) acc")
    case True
    then have "collect_endpoints ((u, c) # es) acc = collect_endpoints es acc"
      by (subst collect_endpoints.simps) (simp only: Let_def if_True)
    then show ?thesis using "2.IH"(1) [OF refl True "2.prems"] by metis
  next
    case False
    let ?e = "\<lparr>pe_url = trim u, pe_country = c, pe_healthy = True\<rparr>"
    have "trim u \<notin> pe_url ` set acc" using False by (auto simp: list_ex_iff)
    then have "distinct (map pe_url (acc @ [?e]))"
        "\<forall>e \<in> set (acc @ [?e]). pe_url e \<noteq> [] \<and> pe_healthy e"
      using "2.prems" False by simp_all
    moreover have "collect_endpoints ((u, c) # es) acc = collect_endpoints es (acc @ [?e])"
      using False by (subst collect_endpoints.simps) (simp only: Let_def if_False)
    ultimately show ?thesis using "2.IH"(2) [OF refl False] by metis
  qed
qed
lemma pool_inv_new:
  assumes "fair draw"
  shows "pool_inv (with_endpoints draw es st)"
proof -
  let ?c = "collect_endpoints es []"
  have c: "distinct (map pe_url ?c)" "\<forall>e \<in> set ?c. pe_url e \<noteq> [] \<and> pe_healthy e"
    using collect_props [of "[]"] by auto
  moreover have "?c \<noteq> [] \<Longrightarrow> draw (length ?c) < length ?c" using assms by (simp add: fair_def)
  ultimately show ?thesis
    by (auto simp: with_endpoints_def pool_inv_def live_def Let_def split: rotation_strategy.splits)
qed

lemma next_round_robin_Some:
  "next_round_robin p = Some i \<Longrightarrow> i < length (pp_endpoints p) \<and> pe_healthy (pp_endpoints p ! i)"
  by (auto simp: next_round_robin_def Let_def split: if_splits dest!: find_Some_set)

lemma next_random_Some:
  assumes "fair draw" and "next_random draw p = Some i"
  shows "i < length (pp_endpoints p) \<and> pe_healthy (pp_endpoints p ! i)"
proof -
  let ?h = "healthy_indices p"
  have "?h \<noteq> []" "i = ?h ! draw (length ?h)"
    using assms(2) by (auto simp: next_random_def Let_def split: if_splits)
  then have "i \<in> set ?h" using assms(1) by (auto simp: fair_def)
  then show ?thesis by (auto simp: healthy_indices_def)
qed

lemma round_robin_covers:
  assumes "i < n"
  shows "\<exists>step \<in> set [1..<Suc n]. (start + step) mod n = i"
proof -
  let ?d = "(i + n - start mod n) mod n"
  have "(start + ?d) mod n = (start mod n + (i + n - start mod n)) mod n"
    by (metis mod_add_left_eq mod_add_right_eq)
  also have "start mod n + (i + n - start mod n) = i + n"
    using assms mod_less_divisor [of n start] by linarith
  finally have e: "(start + ?d) mod n = i" using assms by simp
  show ?thesis
  proof (cases "?d = 0")
    case True
    then have "(start + n) mod n = i" using e by simp
    then show ?thesis using assms by (intro bexI [of _ n]) auto
  next
    case False
    moreover have "?d < n" using assms by simp
    ultimately show ?thesis using e by (intro bexI [of _ ?d]) auto
  qed
qed

lemma live_empty:
  "live p = {} \<longleftrightarrow> (\<forall>i < length (pp_endpoints p). \<not> pe_healthy (pp_endpoints p ! i))"
proof -
  have "live p = {} \<longleftrightarrow> (\<forall>e \<in> set (pp_endpoints p). \<not> pe_healthy e)" by (auto simp: live_def)
  then show ?thesis by (simp add: all_set_conv_all_nth)
qed

lemma next_round_robin_None:
  "next_round_robin p = None \<longleftrightarrow> live p = {}"
proof
  assume none: "next_round_robin p = None"
  show "live p = {}" unfolding live_empty
  proof (intro allI impI)
    fix i
    assume i: "i < length (pp_endpoints p)"
    let ?start = "case pp_current p of None \<Rightarrow> 0 | Some i \<Rightarrow> i" and ?n = "length (pp_endpoints p)"
    obtain step where st: "step \<in> set [1..<Suc ?n]" "(?start + step) mod ?n = i"
      using round_robin_covers [OF i] by blast
    have "find (\<lambda>i. pe_healthy (pp_endpoints p ! i)) (map (\<lambda>step. (?start + step) mod ?n) [1..<Suc ?n]) = None"
      using none i by (auto simp: next_round_robin_def Let_def simp del: upt_Suc split: if_splits)
    then have "\<not> (\<exists>j. j \<in> set (map (\<lambda>step. (?start + step) mod ?n) [1..<Suc ?n]) \<and>
        pe_healthy (pp_endpoints p ! j))" by (simp only: find_None_iff not_False_eq_True)
    moreover have "i \<in> set (map (\<lambda>step. (?start + step) mod ?n) [1..<Suc ?n])"
      unfolding set_map using st(2) [symmetric] st(1) by (rule image_eqI)
    ultimately show "\<not> pe_healthy (pp_endpoints p ! i)" by blast
  qed
next
  assume "live p = {}"
  then show "next_round_robin p = None"
    using next_round_robin_Some [of p] by (cases "next_round_robin p") (auto simp: live_empty)
qed

lemma next_random_None: "next_random draw p = None \<longleftrightarrow> live p = {}"
  by (auto simp: next_random_def Let_def healthy_indices_def live_empty filter_empty_conv)

section \<open>Rotation\<close>

lemma retire_frame [simp]:
  "pp_strategy (retire_current p) = pp_strategy p"
  "pp_current (retire_current p) = pp_current p"
  "length (pp_endpoints (retire_current p)) = length (pp_endpoints p)"
  by (auto simp: retire_current_def split: option.splits)

lemma retire_urls [simp]:
  "map pe_url (pp_endpoints (retire_current p)) = map pe_url (pp_endpoints p)"
  by (auto simp: retire_current_def map_update split: option.splits)
    (metis list_update_id list_update_beyond map_update not_le nth_map)

lemma retire_live:
  assumes "pool_inv p"
  shows "live (retire_current p) = live p - set_option (selected p)"
proof (cases "pp_current p")
  case None
  then show ?thesis by (simp add: retire_current_def selected_def)
next
  case (Some i)
  let ?es = "pp_endpoints p"
  let ?fs = "?es[i := (?es ! i)\<lparr>pe_healthy := False\<rparr>]"
  have d: "distinct (map pe_url ?es)" and i: "i < length ?es"
    using assms Some by (auto simp: pool_inv_def)
  have url: "pe_url (?fs ! j) = pe_url (?es ! j)" for j
    by (cases "j = i") (simp_all add: i)
  have hl: "j < length ?es \<Longrightarrow> pe_healthy (?fs ! j) \<longleftrightarrow> pe_healthy (?es ! j) \<and> j \<noteq> i" for j
    using i by (cases "j = i") simp_all
  have inj: "j < length ?es \<Longrightarrow> pe_url (?es ! j) = pe_url (?es ! i) \<longleftrightarrow> j = i" for j
    using d i by (metis length_map nth_eq_iff_index_eq nth_map)
  have "live (retire_current p) = {pe_url (?fs ! j) | j. j < length ?es \<and> pe_healthy (?fs ! j)}"
    using Some by (auto simp: live_def retire_current_def in_set_conv_nth) 
  also have "\<dots> = {pe_url (?es ! j) | j. j < length ?es \<and> pe_healthy (?es ! j) \<and> j \<noteq> i}"
    using hl url by auto
  also have "\<dots> = live p - {pe_url (?es ! i)}"
    using inj by (auto simp: live_def in_set_conv_nth)
  finally show ?thesis using Some by (simp add: selected_def)
qed

lemma live_cong: "pp_endpoints p = pp_endpoints q \<Longrightarrow> live p = live q"
  by (simp add: live_def)

lemma rotate_spec:
  assumes "fair draw" and "pool_inv p" and "rotate_pool draw p = (r, q)"
  shows "pool_inv q" and "live q = live p - set_option (selected p)" and "selected q = r"
    and "set_option r \<subseteq> live q" and "r = None \<longleftrightarrow> live q = {}"
proof -
  let ?p = "retire_current p"
  let ?n = "case pp_strategy p of RoundRobin \<Rightarrow> next_round_robin ?p | RandomPick \<Rightarrow> next_random draw ?p"
  have q: "q = ?p\<lparr>pp_current := ?n\<rparr>" and r: "r = map_option (\<lambda>i. pe_url (pp_endpoints ?p ! i)) ?n"
    using assms(3) by (auto simp: rotate_pool_def Let_def)
  have live: "live q = live ?p" by (rule live_cong) (simp add: q)
  then show "live q = live p - set_option (selected p)" using retire_live [OF assms(2)] by simp
  show "selected q = r" by (simp add: q r selected_def)
  have none: "?n = None \<longleftrightarrow> live ?p = {}"
    by (simp add: next_round_robin_None next_random_None split: rotation_strategy.splits)
  then show "r = None \<longleftrightarrow> live q = {}" using live by (simp add: r)
  have some: "?n = Some i \<Longrightarrow> i < length (pp_endpoints ?p) \<and> pe_healthy (pp_endpoints ?p ! i)" for i
    using next_round_robin_Some [of ?p i] next_random_Some [OF assms(1), of ?p i]
    by (cases "pp_strategy p") simp_all
  then show "set_option r \<subseteq> live q" unfolding live by (auto simp: r live_def)
  have urls: "pe_url ` set (pp_endpoints ?p) = pe_url ` set (pp_endpoints p)"
    using arg_cong [OF retire_urls, of set p] by (simp only: set_map)
  have "[] \<notin> pe_url ` set (pp_endpoints p)"
    using assms(2) by (auto simp: pool_inv_def simp del: retire_urls)
  then have "\<forall>e \<in> set (pp_endpoints ?p). pe_url e \<noteq> []"
    unfolding urls [symmetric] by (metis image_eqI)
  moreover have "distinct (map pe_url (pp_endpoints ?p))" using assms(2) by (simp add: pool_inv_def)
  ultimately show "pool_inv q"
    using some none live unfolding pool_inv_def by (auto simp: q split: option.splits)
qed

lemma healthy_card: "pool_inv p \<Longrightarrow> healthy_count p = card (live p)"
proof -
  assume "pool_inv p"
  then have "distinct (map pe_url (filter pe_healthy (pp_endpoints p)))"
    by (auto simp: pool_inv_def distinct_map inj_on_def)
  then have "card (set (map pe_url (filter pe_healthy (pp_endpoints p))))
      = length (map pe_url (filter pe_healthy (pp_endpoints p)))" by (rule distinct_card)
  then show ?thesis by (simp add: live_def healthy_count_def)
qed

lemma selected_live: "pool_inv p \<Longrightarrow> set_option (selected p) \<subseteq> live p"
  by (auto simp: pool_inv_def selected_def live_def split: option.splits)

lemma selected_None: "pool_inv p \<Longrightarrow> selected p = None \<longleftrightarrow> live p = {}"
  by (auto simp: pool_inv_def selected_def live_empty split: option.splits)

section \<open>The contract of a rotation\<close>

text \<open>
  What a caller that rotates away from blocked proxies relies on: the proxy in use is live, a
  rotation takes it out of the live ones for good, and answers with another live one as long as
  there is one.
\<close>

locale rotation =
  fixes rot :: "'s \<Rightarrow> 'u option \<times> 's" and sel :: "'s \<Rightarrow> 'u option"
    and alive :: "'s \<Rightarrow> 'u set" and inv :: "'s \<Rightarrow> bool"
  assumes alive_finite: "inv s \<Longrightarrow> finite (alive s)"
    and sel_alive: "inv s \<Longrightarrow> sel s = Some u \<Longrightarrow> u \<in> alive s"
    and sel_None: "inv s \<Longrightarrow> sel s = None \<longleftrightarrow> alive s = {}"
    and rot_inv: "inv s \<Longrightarrow> rot s = (r, s') \<Longrightarrow> inv s'"
    and rot_alive: "inv s \<Longrightarrow> rot s = (r, s') \<Longrightarrow> alive s' = alive s - set_option (sel s)"
    and rot_sel: "inv s \<Longrightarrow> rot s = (r, s') \<Longrightarrow> sel s' = r"
    and rot_None: "inv s \<Longrightarrow> rot s = (r, s') \<Longrightarrow> r = None \<longleftrightarrow> alive s' = {}"
begin

fun drain :: "nat \<Rightarrow> 's \<Rightarrow> 'u list" where
  "drain 0 s = []"
| "drain (Suc n) s = (case rot s of (None, _) \<Rightarrow> [] | (Some u, s') \<Rightarrow> u # drain n s')"

lemma rot_fresh:
  assumes "inv s" and "rot s = (Some u, s')"
  shows "u \<in> alive s" and "sel s \<noteq> Some u" and "u \<in> alive s'"
proof -
  have "u \<in> alive s'" using assms rot_inv rot_sel sel_alive by metis
  moreover have "alive s' = alive s - set_option (sel s)" using assms rot_alive by blast
  ultimately show "u \<in> alive s" "sel s \<noteq> Some u" "u \<in> alive s'" by auto
qed

lemma drain_distinct:
  assumes "inv s"
  shows "distinct (drain n s) \<and> set (drain n s) \<subseteq> alive s - set_option (sel s)"
  using assms
proof (induction n arbitrary: s)
  case (Suc n)
  show ?case
  proof (cases "rot s")
    case (Pair r s')
    show ?thesis
    proof (cases r)
      case (Some u)
      with Pair have r: "rot s = (Some u, s')" by simp
      have "inv s'" "sel s' = Some u" "alive s' = alive s - set_option (sel s)"
        using rot_inv [OF Suc.prems r] rot_sel [OF Suc.prems r] rot_alive [OF Suc.prems r] by auto
      with Suc.IH [of s'] rot_fresh [OF Suc.prems r] show ?thesis by (auto simp: r)
    qed (simp add: Pair)
  qed
qed simp

lemma drain_exhausts:
  assumes "inv s" and "card (alive s) \<le> n"
  shows "set (drain n s) = alive s - set_option (sel s)"
  using assms
proof (induction n arbitrary: s)
  case 0
  then show ?case using alive_finite by simp
next
  case (Suc n)
  obtain r s' where r: "rot s = (r, s')" by (cases "rot s")
  note step = rot_inv [OF Suc.prems(1) r] rot_sel [OF Suc.prems(1) r] rot_alive [OF Suc.prems(1) r]
    rot_None [OF Suc.prems(1) r]
  show ?case
  proof (cases r)
    case None
    then show ?thesis using step by (simp add: r)
  next
    case (Some u)
    have fresh: "u \<in> alive s'" using rot_fresh Suc.prems(1) r Some by blast
    then obtain v where v: "sel s = Some v"
      using step(3) sel_None [OF Suc.prems(1)] by (cases "sel s") auto
    then have "card (alive s') < card (alive s)"
      using step(3) sel_alive [OF Suc.prems(1) v] alive_finite [OF Suc.prems(1)]
      by (metis card_Diff1_less option.set(2))
    then have "set (drain n s') = alive s' - set_option (sel s')"
      using Suc.IH [OF step(1)] Suc.prems(2) by simp
    then show ?thesis using step fresh by (auto simp: r Some)
  qed
qed

lemma drain_length:
  assumes "inv s"
  shows "length (drain n s) \<le> card (alive s) - 1"
proof (cases "sel s")
  case None
  then have "alive s = {}" using sel_None assms by blast
  then show ?thesis using drain_distinct [OF assms, of n] by simp
next
  case (Some u)
  have "length (drain n s) = card (set (drain n s))"
    using drain_distinct [OF assms] by (simp add: distinct_card)
  also have "\<dots> \<le> card (alive s - {u})"
    using drain_distinct [OF assms, of n] alive_finite [OF assms] Some by (intro card_mono) auto
  also have "\<dots> = card (alive s) - 1" using sel_alive [OF assms Some] by simp
  finally show ?thesis .
qed

end

interpretation pool: rotation "rotate_pool draw" selected live "\<lambda>p. pool_inv p \<and> fair draw" for draw
proof unfold_locales
  fix p q r u
  show "pool_inv p \<and> fair draw \<Longrightarrow> finite (live p)" by (simp add: live_def)
  show "pool_inv p \<and> fair draw \<Longrightarrow> selected p = Some u \<Longrightarrow> u \<in> live p"
    using selected_live [of p] by auto
  show "pool_inv p \<and> fair draw \<Longrightarrow> selected p = None \<longleftrightarrow> live p = {}"
    using selected_None by blast
  assume p: "pool_inv p \<and> fair draw" and r: "rotate_pool draw p = (r, q)"
  show "pool_inv q \<and> fair draw" "live q = live p - set_option (selected p)" "selected q = r"
      "r = None \<longleftrightarrow> live q = {}"
    using rotate_spec [OF _ _ r] p by blast+
qed

section \<open>What rotation guarantees\<close>

text \<open>C12. Rotating never returns to a blocked proxy: from a freshly built pool, under either strategy
  and any random draws, the proxies rotation hands out one after another are pairwise different and
  different from the first one selected, and rotating until it refuses has handed out every
  other healthy proxy of the pool exactly once.\<close>

theorem rotation_complete:
  assumes "fair draw" and "p = with_endpoints draw es st"
  shows "distinct (pool.drain draw n p) \<and>
         set (pool.drain draw n p) \<subseteq> live p - set_option (selected p) \<and>
         (pool_len p \<le> n \<longrightarrow> set (pool.drain draw n p) = live p - set_option (selected p))"
proof -
  have inv: "pool_inv p \<and> fair draw" using assms pool_inv_new by blast
  have "card (live p) \<le> pool_len p"
    using healthy_card [of p] inv by (simp add: healthy_count_def pool_len_def)
      (metis length_filter_le)
  then show ?thesis using pool.drain_distinct [OF inv] pool.drain_exhausts [OF inv, of n] by simp
qed

theorem rotation_complete_witness:
  "set (pool.drain (\<lambda>n. n - 1) 3
      (pool_new (\<lambda>n. n - 1) [''a'', ''b'', ''c''] RandomPick)) = {''a'', ''b''}"
proof -
  let ?d = "\<lambda>n :: nat. n - 1" and ?p = "pool_new (\<lambda>n. n - 1) [''a'', ''b'', ''c''] RandomPick"
  have f: "fair ?d" by (simp add: fair_def)
  have "trim ''a'' = ''a''" "trim ''b'' = ''b''" "trim ''c'' = ''c''"
    by (rule trim_graphic; code_simp)+
  then have p: "?p = \<lparr>pp_endpoints = map (\<lambda>u. \<lparr>pe_url = u, pe_country = None, pe_healthy = True\<rparr>)
      [''a'', ''b'', ''c''], pp_strategy = RandomPick, pp_current = Some 2\<rparr>"
    by (simp add: pool_new_def with_endpoints_def Let_def)
  have "live ?p - set_option (selected ?p) = {''a'', ''b''}"
    unfolding p by (simp add: live_code selected_def) blast
  moreover have "pool_len ?p \<le> 3" unfolding p by (simp add: pool_len_def)
  ultimately show ?thesis
    using rotation_complete [OF f, of ?p "map (\<lambda>u. (u, None)) [''a'', ''b'', ''c'']" RandomPick 3]
    by (simp add: pool_new_def)
qed

text \<open>One rotation: the pool stays well formed, exactly the proxy in use is retired, the answer is
  the new selection, and it is refused only when no healthy proxy is left.\<close>

theorem rotate_step:
  assumes "fair draw" and "pool_inv p" and "rotate_pool draw p = (r, q)"
  shows "pool_inv q \<and> selected q = r \<and> live q = live p - set_option (selected p) \<and>
         healthy_count q = healthy_count p - 1 \<and> (r = None \<longleftrightarrow> healthy_count q = 0)"
proof -
  note s = rotate_spec [OF assms]
  have "card (live q) = card (live p) - 1"
    using s(2) selected_live [OF assms(2)] selected_None [OF assms(2)]
    by (cases "selected p") (auto simp: card_Diff_singleton)
  moreover have "live q = {} \<longleftrightarrow> card (live q) = 0" by (simp add: live_def)
  ultimately show ?thesis
    using s healthy_card [OF assms(2)] healthy_card [OF s(1)] by simp
qed

theorem rotate_step_witness:
  "rotate_pool (\<lambda>n. 0) (pool_new (\<lambda>n. 0) [''a''] RoundRobin)
     = (None, (pool_new (\<lambda>n. 0) [''a''] RoundRobin)\<lparr>pp_endpoints :=
          [\<lparr>pe_url = ''a'', pe_country = None, pe_healthy = False\<rparr>], pp_current := None\<rparr>) \<and>
   healthy_count (snd (rotate_pool (\<lambda>n. 0) (pool_new (\<lambda>n. 0) [''a''] RoundRobin))) = 0"
proof -
  let ?p = "pool_new (\<lambda>n. 0) [''a''] RoundRobin"
  have f: "fair (\<lambda>n. 0)" by (simp add: fair_def)
  have t: "trim ''a'' = ''a''" by (rule trim_graphic) code_simp
  have r: "rotate_pool (\<lambda>n. 0) ?p = (None, ?p\<lparr>pp_endpoints :=
      [\<lparr>pe_url = ''a'', pe_country = None, pe_healthy = False\<rparr>], pp_current := None\<rparr>)"
    by (simp add: rotate_pool_def pool_new_def with_endpoints_def t retire_current_def
        next_round_robin_def)
  have "pool_inv ?p" unfolding pool_new_def by (rule pool_inv_new [OF f])
  from rotate_step [OF f this r] have "healthy_count (snd (rotate_pool (\<lambda>n. 0) ?p)) = 0"
    unfolding r snd_conv by blast
  with r show ?thesis by blast
qed

end
