(* ===== verification/Identity.thy ===== *)
theory Identity
  imports Cookie Geo Profile
begin

text \<open>
  Models the second half of \<open>src/src/identity.rs\<close>: the redacted egress reference, the portable identity
  and the policy that moves a session between its two transports. The locale \<open>transport_policy\<close>
  is the contract the session relies on; the policy of the source interprets it.
\<close>

section \<open>The egress\<close>

definition redact :: "string \<Rightarrow> string" where
  "redact url =
     (case split_once ''://'' url of
        None \<Rightarrow> (case split_once ''@'' url of
                   Some (_, host) \<Rightarrow> ''***@'' @ host
                 | None \<Rightarrow> url)
      | Some (scheme, rest) \<Rightarrow>
          (case split_once ''@'' rest of
             Some (_, host) \<Rightarrow> scheme @ ''://'' @ host
           | None \<Rightarrow> url))"

datatype egress_ref = EgressRef (egress_text: string)

definition egress_new :: "string \<Rightarrow> egress_ref" where
  "egress_new url = EgressRef (redact url)"

definition egress_matches :: "egress_ref \<Rightarrow> string \<Rightarrow> bool" where
  "egress_matches e url \<longleftrightarrow> egress_text e = redact url"

section \<open>The identity\<close>

record stealth_identity =
  id_profile :: browser_profile
  id_locale :: "locale_bundle option"
  id_cookies :: "cookie list"
  id_egress :: "egress_ref option"

definition identity_new :: "browser_profile \<Rightarrow> stealth_identity" where
  "identity_new p = \<lparr>id_profile = p, id_locale = None, id_cookies = [], id_egress = None\<rparr>"

definition identity_accept_language :: "stealth_identity \<Rightarrow> string" where
  "identity_accept_language i =
     (case id_locale i of Some l \<Rightarrow> loc_accept_language l | None \<Rightarrow> accept_language (id_profile i))"

definition set_cookies :: "cookie list \<Rightarrow> u64 \<Rightarrow> stealth_identity \<Rightarrow> stealth_identity" where
  "set_cookies cs now i = i\<lparr>id_cookies := filter (\<lambda>c. \<not> is_expired c now) cs\<rparr>"

definition clearance :: "stealth_identity \<Rightarrow> u64 \<Rightarrow> cookie option" where
  "clearance i now = find (\<lambda>c. c_name c = CLEARANCE_COOKIE \<and> \<not> is_expired c now) (id_cookies i)"

definition clearance_remaining :: "stealth_identity \<Rightarrow> u64 \<Rightarrow> duration option" where
  "clearance_remaining i now = Option.bind (clearance i now) (\<lambda>c. remaining c now)"

definition is_bound_to :: "stealth_identity \<Rightarrow> string option \<Rightarrow> bool" where
  "is_bound_to i egress =
     (case (id_egress i, egress) of
        (Some bound, Some url) \<Rightarrow> egress_matches bound url
      | (None, None) \<Rightarrow> True
      | _ \<Rightarrow> False)"

section \<open>The policy\<close>

datatype session_mode = BrowserMode | HttpMode
datatype escalate_reason = ChallengeSeen | ClearanceExpiring | NoClearance
datatype demote_reason = Cleared | IdentityReplaced
datatype transition = Stay | Escalate escalate_reason | Demote demote_reason

record session_policy =
  clearance_margin :: duration
  require_clearance_for_http :: bool

definition session_policy_default :: session_policy where
  "session_policy_default =
     \<lparr>clearance_margin = from_secs 120, require_clearance_for_http = False\<rparr>"

definition decide_http :: "session_policy \<Rightarrow> stealth_identity \<Rightarrow> bool \<Rightarrow> u64 \<Rightarrow> transition" where
  "decide_http p i challenged now =
     (if challenged then Escalate ChallengeSeen
      else (case clearance i now of
              Some c \<Rightarrow>
                (case remaining c now of
                   Some r \<Rightarrow> if r \<le> clearance_margin p then Escalate ClearanceExpiring else Stay
                 | None \<Rightarrow> Stay)
            | None \<Rightarrow> if require_clearance_for_http p then Escalate NoClearance else Stay))"

definition decide_browser :: "session_policy \<Rightarrow> stealth_identity \<Rightarrow> bool \<Rightarrow> u64 \<Rightarrow> transition" where
  "decide_browser p i challenged now =
     (if challenged then Stay
      else (case clearance i now of
              Some c \<Rightarrow>
                (case remaining c now of
                   Some r \<Rightarrow> if r \<le> clearance_margin p then Stay else Demote Cleared
                 | None \<Rightarrow> Demote Cleared)
            | None \<Rightarrow> if require_clearance_for_http p then Stay else Demote Cleared))"

definition session_decide ::
    "session_policy \<Rightarrow> session_mode \<Rightarrow> stealth_identity \<Rightarrow> bool \<Rightarrow> u64 \<Rightarrow> transition" where
  "session_decide p mode i challenged now =
     (case mode of HttpMode \<Rightarrow> decide_http p i challenged now
                 | BrowserMode \<Rightarrow> decide_browser p i challenged now)"

section \<open>The contract of a transport policy\<close>

locale transport_policy =
  fixes dcd :: "session_mode \<Rightarrow> 'i \<Rightarrow> bool \<Rightarrow> 't \<Rightarrow> transition"
  assumes http_no_demote: "dcd HttpMode i ch now \<noteq> Demote r"
    and browser_no_escalate: "dcd BrowserMode i ch now \<noteq> Escalate q"
    and http_challenged: "dcd HttpMode i True now = Escalate ChallengeSeen"
    and browser_challenged: "dcd BrowserMode i True now = Stay"
    and complementary: "dcd HttpMode i False now = Stay \<longleftrightarrow> dcd BrowserMode i False now = Demote Cleared"
    and demote_cleared: "dcd BrowserMode i ch now = Demote r \<Longrightarrow> r = Cleared"
begin

definition next_mode :: "session_mode \<Rightarrow> transition \<Rightarrow> session_mode" where
  "next_mode m t = (case t of Stay \<Rightarrow> m | Escalate _ \<Rightarrow> BrowserMode | Demote _ \<Rightarrow> HttpMode)"

text \<open>The decision is idempotent: carrying it out leaves nothing to do on the same evidence.\<close>

lemma settled: "dcd (next_mode m (dcd m i ch now)) i ch now = Stay"
proof (cases m)
  case HttpMode
  show ?thesis
  proof (cases ch)
    case True
    then show ?thesis using HttpMode http_challenged browser_challenged by (simp add: next_mode_def)
  next
    case False
    show ?thesis
    proof (cases "dcd HttpMode i False now")
      case (Escalate q)
      then have "dcd BrowserMode i False now \<noteq> Demote Cleared" using complementary by force
      then have "dcd BrowserMode i False now = Stay"
        using browser_no_escalate demote_cleared by (metis transition.exhaust)
      then show ?thesis using HttpMode False Escalate by (simp add: next_mode_def)
    qed (use HttpMode False http_no_demote in \<open>auto simp: next_mode_def\<close>)
  qed
next
  case BrowserMode
  show ?thesis
  proof (cases "dcd BrowserMode i ch now")
    case (Demote r)
    then have "ch = False" "r = Cleared" using browser_challenged demote_cleared by force+
    then show ?thesis using BrowserMode Demote complementary by (simp add: next_mode_def)
  qed (use BrowserMode browser_no_escalate in \<open>auto simp: next_mode_def\<close>)
qed

end

interpretation session: transport_policy "session_decide p" for p
  by unfold_locales
    (auto simp: session_decide_def decide_http_def decide_browser_def
      split: option.splits if_splits)

text \<open>C16. The policy never flaps: whatever the identity, the mode, the response and the time, carrying
  out its decision leads to a mode in which it wants nothing further on the same evidence; it never
  escalates out of the browser, never demotes out of HTTP, and a challenge seen over HTTP always
  brings the browser.\<close>

theorem policy_never_flaps:
  "session_decide p (session.next_mode m (session_decide p m i ch now)) i ch now = Stay \<and>
   session_decide p BrowserMode i ch now \<noteq> Escalate q \<and>
   session_decide p HttpMode i ch now \<noteq> Demote r \<and>
   session_decide p HttpMode i True now = Escalate ChallengeSeen"
  using session.settled session.browser_no_escalate session.http_no_demote session.http_challenged
  by blast

text \<open>The session leaves the browser exactly when it is worth it: on a clean page, when no clearance
  is needed or held, or the one held outlives the renewal margin, and a held clearance is live.\<close>

theorem demote_iff:
  "session_decide p BrowserMode i ch now = Demote Cleared \<longleftrightarrow>
     \<not> ch \<and>
     (case clearance i now of
        None \<Rightarrow> \<not> require_clearance_for_http p
      | Some c \<Rightarrow> c \<in> set (id_cookies i) \<and> \<not> is_expired c now \<and>
          (case c_expires c of None \<Rightarrow> True
           | Some e \<Rightarrow> clearance_margin p < from_secs (e - now)))"
proof -
  have live: "c \<in> set (id_cookies i) \<and> \<not> is_expired c now" if "clearance i now = Some c" for c
    using find_Some_set [OF that [unfolded clearance_def]] by simp
  have rem: "remaining c now = Some r \<longleftrightarrow> (\<exists>e. c_expires c = Some e \<and> r = from_secs (e - now))"
    if "\<not> is_expired c now" for c r
    using that by (auto simp: remaining_def is_expired_def sat_sub_def split: option.splits)
  show ?thesis
  proof (cases "clearance i now")
    case None
    then show ?thesis by (simp add: session_decide_def decide_browser_def)
  next
    case (Some c)
    note l = live [OF Some]
    show ?thesis
    proof (cases "c_expires c")
      case None
      then have "remaining c now = None" by (simp add: remaining_def)
      then show ?thesis using Some l None by (simp add: session_decide_def decide_browser_def)
    next
      case e: (Some e)
      then have "remaining c now = Some (from_secs (e - now))" using rem l by blast
      then show ?thesis using Some l e by (auto simp: session_decide_def decide_browser_def not_le)
    qed
  qed
qed

section \<open>Redaction\<close>

lemma redact_userinfo:
  assumes "split_once ''://'' (scheme @ ''://'' @ ui @ ''@'' @ host) = Some (scheme, ui @ ''@'' @ host)"
    and "CHR ''@'' \<notin> set ui"
  shows "redact (scheme @ ''://'' @ ui @ ''@'' @ host) = scheme @ ''://'' @ host"
proof -
  have "split_once ''@'' (ui @ ''@'' @ host) = Some (ui, host)"
    using split_once_char [OF assms(2), of host] by simp
  with assms(1) show ?thesis by (simp add: redact_def)
qed

lemma scheme_split:
  assumes "CHR '':'' \<notin> set scheme"
  shows "split_once ''://'' (scheme @ ''://'' @ r) = Some (scheme, r)"
proof (rule split_once_first)
  fix x y :: string
  assume "scheme = x @ y" "y \<noteq> []"
  then show "\<not> prefix ''://'' (y @ ''://'' @ r)" using assms by (cases y) auto
qed

text \<open>A stored egress holds no credentials and is recognised without them: for a proxy URL whose
  user information has no at sign, what is stored is the URL without it, so two URLs that differ only
  in credentials are the same egress, and an identity bound to one may be used over the other.\<close>

theorem egress_ignores_credentials:
  assumes "CHR '':'' \<notin> set scheme" and "CHR ''@'' \<notin> set ui" and "CHR ''@'' \<notin> set ui'"
    and "CHR ''@'' \<notin> set host"
  shows "egress_text (egress_new (scheme @ ''://'' @ ui @ ''@'' @ host)) = scheme @ ''://'' @ host \<and>
    is_bound_to (i\<lparr>id_egress := Some (egress_new (scheme @ ''://'' @ ui @ ''@'' @ host))\<rparr>)
      (Some (scheme @ ''://'' @ ui' @ ''@'' @ host)) \<and>
    is_bound_to (i\<lparr>id_egress := Some (egress_new (scheme @ ''://'' @ ui @ ''@'' @ host))\<rparr>)
      (Some (scheme @ ''://'' @ host))"
proof -
  have "redact (scheme @ ''://'' @ host) = scheme @ ''://'' @ host"
    using scheme_split [OF assms(1), of host] split_once_char_absent [OF assms(4)]
    by (simp add: redact_def)
  moreover have "redact (scheme @ ''://'' @ u @ ''@'' @ host) = scheme @ ''://'' @ host"
    if "CHR ''@'' \<notin> set u" for u
    using redact_userinfo [OF scheme_split [OF assms(1)] that] by simp
  ultimately show ?thesis
    using assms(2,3) by (simp add: egress_new_def is_bound_to_def egress_matches_def)
qed

theorem egress_ignores_credentials_witness:
  "egress_text (egress_new ''http://u:p@proxy:8080'') = ''http://proxy:8080''"
  using egress_ignores_credentials [of "''http''" "''u:p''" "''''" "''proxy:8080''"] by simp

text \<open>With an at sign inside the password the text behind the first one stays in the stored form.\<close>

lemma redact_leaks_password_tail:
  "redact ''http://user:pa@ss@proxy:8080'' = ''http://ss@proxy:8080''"
  by code_simp

text \<open>Without a scheme, a URL with credentials is not recognised as the one without.\<close>

lemma schemeless_not_matched: "\<not> egress_matches (egress_new ''user:pw@proxy:80'') ''proxy:80''"
  by code_simp

end
