(* ===== verification/Behavior.thy ===== *)
theory Behavior
  imports Json Effects
begin

text \<open>
  Models \<open>src/src/behavior.rs\<close>: mouse paths, resting drift, wheel notches and typing delays. Floats are
  carried as exact rationals, so rounding is not modelled. The random generator is \<open>draw\<close>: the
  \<open>k\<close>-th uniform number of \<open>[0, 1)\<close> a call consumes; the normal sample behind a keystroke, which the
  source computes with a logarithm and a cosine, and the square root are arguments too.
\<close>

definition KEYSTROKE_MEAN_MS :: rat where "KEYSTROKE_MEAN_MS = 50"
definition KEYSTROKE_STDDEV_MS :: rat where "KEYSTROKE_STDDEV_MS = 15"
definition KEYSTROKE_MIN_MS :: u64 where "KEYSTROKE_MIN_MS = 20"
definition LONG_PAUSE_MIN_MS :: u64 where "LONG_PAUSE_MIN_MS = 150"
definition LONG_PAUSE_MAX_MS :: u64 where "LONG_PAUSE_MAX_MS = 400"
definition IDLE_DRIFT_PX :: rat where "IDLE_DRIFT_PX = 5 / 2"
definition IDLE_STEP_MS :: nat where "IDLE_STEP_MS = 40"
definition WHEEL_NOTCH_PX :: rat where "WHEEL_NOTCH_PX = 100"
definition WHEEL_JITTER :: rat where "WHEEL_JITTER = 1 / 4"
definition MAX_SCROLL_PX :: rat where "MAX_SCROLL_PX = 20000"

record point =
  pt_x :: rat
  pt_y :: rat

definition fair_draws :: "(nat \<Rightarrow> rat) \<Rightarrow> bool" where
  "fair_draws draw \<longleftrightarrow> (\<forall>k. 0 \<le> draw k \<and> draw k < 1)"

section \<open>Mouse paths\<close>

definition bezier :: "rat \<Rightarrow> rat \<Rightarrow> rat \<Rightarrow> rat \<Rightarrow> rat \<Rightarrow> rat" where
  "bezier a c1 c2 b t =
     (let u = 1 - t; tt = t * t; uu = u * u; uuu = uu * u; ttt = tt * t in
      uuu * a + 3 * uu * t * c1 + 3 * u * tt * c2 + ttt * b)"

definition ease_out :: "rat \<Rightarrow> rat" where "ease_out t = 1 - (1 - t) ^ 3"

text \<open>The point of the curve at an eased parameter, and the path.\<close>

definition mouse_curve :: "(rat \<Rightarrow> rat) \<Rightarrow> (nat \<Rightarrow> rat) \<Rightarrow> point \<Rightarrow> point \<Rightarrow> rat \<Rightarrow> point" where
  "mouse_curve sqroot draw p0 p1 t =
     (let dx = pt_x p1 - pt_x p0; dy = pt_y p1 - pt_y p0;
          dist = sqroot (dx * dx + dy * dy);
          noise_x = dist * (2 / 10); noise_y = dist * (2 / 10);
          cp1x = pt_x p0 + dx * (33 / 100) + (draw 0 - 1 / 2) * noise_x;
          cp1y = pt_y p0 + dy * (33 / 100) + (draw 1 - 1 / 2) * noise_y;
          cp2x = pt_x p0 + dx * (66 / 100) + (draw 2 - 1 / 2) * noise_x;
          cp2y = pt_y p0 + dy * (66 / 100) + (draw 3 - 1 / 2) * noise_y
      in \<lparr>pt_x = bezier (pt_x p0) cp1x cp2x (pt_x p1) t,
          pt_y = bezier (pt_y p0) cp1y cp2y (pt_y p1) t\<rparr>)"

definition generate_mouse_path ::
    "(rat \<Rightarrow> rat) \<Rightarrow> (nat \<Rightarrow> rat) \<Rightarrow> point \<Rightarrow> point \<Rightarrow> nat \<Rightarrow> point list" where
  "generate_mouse_path sqroot draw p0 p1 num_points =
     map (\<lambda>i. mouse_curve sqroot draw p0 p1 (ease_out (of_nat i / (of_nat num_points - 1))))
       [0..<num_points]"

definition idle_drift :: "(nat \<Rightarrow> rat) \<Rightarrow> point \<Rightarrow> nat \<Rightarrow> point list" where
  "idle_drift draw around moves =
     map (\<lambda>i. \<lparr>pt_x = pt_x around + (draw (2 * i) - 1 / 2) * 2 * IDLE_DRIFT_PX,
               pt_y = pt_y around + (draw (2 * i + 1) - 1 / 2) * 2 * IDLE_DRIFT_PX\<rparr>) [0..<moves]"

definition idle_step_delay :: duration where "idle_step_delay = from_millis IDLE_STEP_MS"

section \<open>Wheel notches\<close>

definition notch :: "rat \<Rightarrow> rat \<Rightarrow> rat" where
  "notch r remaining =
     (let jitter = 1 + (r - 1 / 2) * 2 * WHEEL_JITTER;
          step = min (WHEEL_NOTCH_PX * jitter) remaining
      in min (max step 1) remaining)"

lemma notch_pos: "0 < remaining \<Longrightarrow> 0 < notch r remaining \<and> notch r remaining \<le> remaining"
  by (auto simp: notch_def Let_def)

lemma notch_progress: "0 < remaining \<Longrightarrow> notch r remaining = remaining \<or> 1 \<le> notch r remaining"
  by (auto simp: notch_def Let_def min_def max_def)

function scroll_loop :: "(nat \<Rightarrow> rat) \<Rightarrow> nat \<Rightarrow> rat \<Rightarrow> rat \<Rightarrow> rat list" where
  "scroll_loop draw i direction remaining =
     (if 0 < remaining
      then notch (draw i) remaining * direction
           # scroll_loop draw (Suc i) direction (remaining - notch (draw i) remaining)
      else [])"
  by pat_completeness auto
termination
proof (relation "measure (\<lambda>(d, i, q, r). nat \<lceil>r\<rceil>)")
  fix draw :: "nat \<Rightarrow> rat" and i and direction remaining :: rat
  assume r: "0 < remaining"
  have "\<lceil>remaining - notch (draw i) remaining\<rceil> < \<lceil>remaining\<rceil>"
    using notch_progress [OF r, of "draw i"] r by (auto simp: ceiling_less_iff) linarith+
  moreover have "0 < \<lceil>remaining\<rceil>" using r by simp
  ultimately show "((draw, Suc i, direction, remaining - notch (draw i) remaining), draw, i, direction, remaining)
      \<in> measure (\<lambda>(d, i, q, r). nat \<lceil>r\<rceil>)" by simp
qed simp

declare scroll_loop.simps [simp del]

definition scroll_increments :: "(nat \<Rightarrow> rat) \<Rightarrow> rat \<Rightarrow> rat list" where
  "scroll_increments draw distance =
     (if distance = 0 then []
      else scroll_loop draw 0 (sgn distance) (min \<bar>distance\<bar> MAX_SCROLL_PX))"

section \<open>Typing\<close>

definition calculate_typing_delay :: "rat \<Rightarrow> u64 option \<Rightarrow> duration" where
  "calculate_typing_delay sample pause =
     (let base_delay = (if sample < of_int (uint KEYSTROKE_MIN_MS) then KEYSTROKE_MIN_MS else f64_as_u64 sample)
      in from_millis (unat (case pause of Some p \<Rightarrow> base_delay + p | None \<Rightarrow> base_delay)))"

section \<open>Properties\<close>

lemma bezier_ends: "bezier p c d q 0 = p" "bezier p c d q 1 = q"
  by (simp_all add: bezier_def)

lemma mouse_curve_ends: "mouse_curve sqroot draw a b 0 = a" "mouse_curve sqroot draw a b 1 = b"
  by (simp_all add: mouse_curve_def Let_def bezier_ends)

lemma ease_out_ends: "ease_out 0 = 0" "ease_out 1 = 1"
  by (simp_all add: ease_out_def)

lemma hd_last_map_upt:
  "2 \<le> n \<Longrightarrow> hd (map f [0..<n]) = f 0 \<and> last (map f [0..<n]) = f (n - 1)"
  by (simp add: hd_map last_map)

lemma path_ends:
  assumes "2 \<le> n"
  shows "length (generate_mouse_path sqroot draw a b n) = n
    \<and> hd (generate_mouse_path sqroot draw a b n) = a
    \<and> last (generate_mouse_path sqroot draw a b n) = b"
proof -
  let ?f = "\<lambda>i. mouse_curve sqroot draw a b (ease_out (of_nat i / (of_nat n - 1)))"
  have n: "of_nat (n - 1) = (of_nat n - 1 :: rat)" "(of_nat n - 1 :: rat) \<noteq> 0"
    using assms by auto
  have "?f 0 = a" by (simp add: mouse_curve_ends ease_out_ends)
  moreover have "?f (n - 1) = b" unfolding n(1) divide_self [OF n(2)]
    by (simp only: mouse_curve_ends ease_out_ends)
  ultimately show ?thesis
    using hd_last_map_upt [OF assms, of ?f] unfolding generate_mouse_path_def
    by (simp only: length_map length_upt diff_zero simp_thms)
qed

text \<open>A simulated pointer goes where it was sent: every path has the number of points asked for,
starts at the start and ends at the target exactly, whatever the random control points.\<close>

theorem mouse_path_endpoints:
  assumes "2 \<le> n"
  shows "length (generate_mouse_path sqroot draw a b n) = n
    \<and> hd (generate_mouse_path sqroot draw a b n) = a
    \<and> last (generate_mouse_path sqroot draw a b n) = b"
  using assms by (rule path_ends)

theorem mouse_path_endpoints_witness:
  "last (generate_mouse_path (\<lambda>x. x) (\<lambda>k. 1 / 3) \<lparr>pt_x = 100, pt_y = 100\<rparr> \<lparr>pt_x = 7, pt_y = 9\<rparr> 50)
     = \<lparr>pt_x = 7, pt_y = 9\<rparr>"
  using mouse_path_endpoints [of 50] by simp

lemma notch_bounds:
  assumes "0 \<le> r" "r < 1" "0 < remaining"
  shows "notch r remaining < 125" "notch r remaining = remaining \<or> 75 \<le> notch r remaining"
proof -
  define step where "step = 100 * (1 + (r - 1 / 2) * 2 * (1 / 4))"
  have b: "75 \<le> step" "step < 125" using assms by (simp_all add: step_def field_simps)
  have n: "notch r remaining = min (max (min step remaining) 1) remaining"
    by (simp add: notch_def Let_def step_def WHEEL_NOTCH_PX_def WHEEL_JITTER_def)
  show "notch r remaining < 125" "notch r remaining = remaining \<or> 75 \<le> notch r remaining"
    using b unfolding n by linarith+
qed

lemma sum_scroll_loop: "0 \<le> remaining \<Longrightarrow> sum_list (scroll_loop draw i q remaining) = q * remaining"
proof (induction draw i q remaining rule: scroll_loop.induct)
  case (1 draw i q remaining)
  show ?case
  proof (cases "0 < remaining")
    case True
    have "0 \<le> remaining - notch (draw i) remaining" using notch_pos [OF True, of "draw i"] by simp
    from 1(1) [OF True this] show ?thesis
      using True by (subst scroll_loop.simps) (simp add: algebra_simps)
  next
    case False
    then show ?thesis using 1(2) by (subst scroll_loop.simps) simp
  qed
qed

lemma scroll_loop_bounds:
  "fair_draws draw \<Longrightarrow> s \<in> set (scroll_loop draw i q remaining) \<Longrightarrow>
     \<exists>n. 0 < n \<and> n < 125 \<and> s = n * q"
proof (induction draw i q remaining rule: scroll_loop.induct)
  case (1 draw i q remaining)
  then show ?case
  proof (cases "0 < remaining \<and> s = notch (draw i) remaining * q")
    case True
    then show ?thesis
      using notch_pos [of remaining "draw i"] notch_bounds(1) [of "draw i" remaining] 1(2)
      unfolding fair_draws_def by blast
  next
    case False
    then show ?thesis using 1 by (subst (asm) (2) scroll_loop.simps) (auto split: if_splits)
  qed
qed

lemma length_scroll_loop:
  assumes "fair_draws draw"
  shows "0 \<le> remaining \<Longrightarrow> remaining \<le> of_nat m * 75 \<Longrightarrow> length (scroll_loop draw i q remaining) \<le> m"
proof (induction m arbitrary: i remaining)
  case 0
  then show ?case by (subst scroll_loop.simps) simp
next
  case (Suc m)
  show ?case
  proof (cases "0 < remaining")
    case True
    let ?r = "remaining - notch (draw i) remaining"
    have "notch (draw i) remaining = remaining \<or> 75 \<le> notch (draw i) remaining"
      using notch_bounds(2) assms True by (simp add: fair_draws_def)
    then have "?r \<le> of_nat m * 75" using Suc.prems by (auto simp: algebra_simps)
    moreover have "0 \<le> ?r" using notch_pos [OF True, of "draw i"] by simp
    ultimately have "length (scroll_loop draw (Suc i) q ?r) \<le> m" using Suc.IH by blast
    then show ?thesis by (subst scroll_loop.simps) simp
  qed (subst scroll_loop.simps, simp)
qed

text \<open>Scrolling lands where it was asked to, up to the cap of 20000 pixels and no further: the
notches add up to the capped distance, each is shorter than 125 pixels and points the same way, and
there are at most 267 of them, whatever the jitter.\<close>

theorem scroll_lands:
  assumes "fair_draws draw"
  shows "sum_list (scroll_increments draw d) = sgn d * min \<bar>d\<bar> 20000
    \<and> list_all (\<lambda>s. \<bar>s\<bar> < 125 \<and> sgn s = sgn d) (scroll_increments draw d)
    \<and> length (scroll_increments draw d) \<le> 267"
proof (cases "d = 0")
  case True
  then show ?thesis by (simp add: scroll_increments_def)
next
  case False
  let ?m = "min \<bar>d\<bar> MAX_SCROLL_PX"
  have m: "0 \<le> ?m" "?m \<le> of_nat 267 * 75" by (auto simp: MAX_SCROLL_PX_def)
  have "\<bar>s\<bar> < 125 \<and> sgn s = sgn d" if "s \<in> set (scroll_loop draw 0 (sgn d) ?m)" for s
  proof -
    from scroll_loop_bounds [OF assms that] obtain n where "0 < n" "n < 125" "s = n * sgn d" by blast
    then show ?thesis using False by (simp add: abs_mult sgn_mult)
  qed
  then show ?thesis
    using False sum_scroll_loop [OF m(1)] length_scroll_loop [OF assms m]
    by (simp add: scroll_increments_def list_all_iff MAX_SCROLL_PX_def)
qed

theorem scroll_lands_witness:
  "sum_list (scroll_increments (\<lambda>k. 1 / 3) (- 250)) = - 250
   \<and> length (scroll_increments (\<lambda>k. 1 / 3) (- 250)) \<le> 267"
  using scroll_lands [of "\<lambda>k. 1 / 3" "- 250"] by (simp add: fair_draws_def)

text \<open>Above the cap the notches do not add up to the distance.\<close>

lemma scroll_capped: "sum_list (scroll_increments (\<lambda>k. 1 / 2) 30000) = 20000"
  by (simp add: scroll_increments_def sum_scroll_loop MAX_SCROLL_PX_def)

text \<open>A resting hand stays within two and a half pixels of where it rests.\<close>

lemma idle_drift_near:
  assumes "fair_draws draw" "p \<in> set (idle_drift draw a n)"
  shows "\<bar>pt_x p - pt_x a\<bar> \<le> IDLE_DRIFT_PX \<and> \<bar>pt_y p - pt_y a\<bar> \<le> IDLE_DRIFT_PX"
proof -
  obtain i where "p = \<lparr>pt_x = pt_x a + (draw (2 * i) - 1 / 2) * 2 * IDLE_DRIFT_PX,
      pt_y = pt_y a + (draw (2 * i + 1) - 1 / 2) * 2 * IDLE_DRIFT_PX\<rparr>"
    using assms(2) by (auto simp: idle_drift_def)
  moreover have "\<bar>draw k * 2 - 1\<bar> \<le> 1" for k
  proof -
    have "0 \<le> draw k" "draw k < 1" using assms(1) by (simp_all add: fair_draws_def)
    then show ?thesis unfolding abs_le_iff by linarith
  qed
  moreover have "\<bar>x * 2 - 1\<bar> \<le> 1 \<Longrightarrow> \<bar>(x - 1 / 2) * 2 * IDLE_DRIFT_PX\<bar> \<le> IDLE_DRIFT_PX" for x
    by (simp add: IDLE_DRIFT_PX_def abs_le_iff)
  ultimately show ?thesis by simp
qed

end
