(* ===== verification/Stateful.thy ===== *)
theory Stateful
  imports Effects
begin

text \<open>
  Actions over the state of a component and the world, for the code that holds its state behind a
  mutex or a mutable reference: an error leaves the state as it was when the error struck. The locale
  \<open>step_relation\<close> is what a property of every run needs to be checked operation by operation.
\<close>

type_synonym ('s, 'e, 'a) sact = "'s \<Rightarrow> 'e world \<Rightarrow> ((error + 'a) \<times> 's \<times> 'e world) option"

definition sret :: "'a \<Rightarrow> ('s, 'e, 'a) sact" where "sret a s w = Some (Inr a, s, w)"
definition sfail :: "error \<Rightarrow> ('s, 'e, 'a) sact" where "sfail e s w = Some (Inl e, s, w)"
definition sget :: "('s, 'e, 's) sact" where "sget s w = Some (Inr s, s, w)"
definition smodify :: "('s \<Rightarrow> 's) \<Rightarrow> ('s, 'e, unit) sact" where
  "smodify f s w = Some (Inr (), f s, w)"

definition sbind :: "('s, 'e, 'a) sact \<Rightarrow> ('a \<Rightarrow> ('s, 'e, 'b) sact) \<Rightarrow> ('s, 'e, 'b) sact" where
  "sbind m f s w =
     (case m s w of
        None \<Rightarrow> None
      | Some (Inl e, s', w') \<Rightarrow> Some (Inl e, s', w')
      | Some (Inr a, s', w') \<Rightarrow> f a s' w')"

definition stry :: "('s, 'e, 'a) sact \<Rightarrow> ('s, 'e, error + 'a) sact" where
  "stry m s w = (case m s w of None \<Rightarrow> None | Some (r, s', w') \<Rightarrow> Some (Inr r, s', w'))"

text \<open>An action on the world alone, a fallible result, and an action on a part of the state.\<close>

definition slift :: "('e, 'a) act \<Rightarrow> ('s, 'e, 'a) sact" where
  "slift m s w = (case m w of None \<Rightarrow> None | Some (r, w') \<Rightarrow> Some (r, s, w'))"

definition sresult :: "error + 'a \<Rightarrow> ('s, 'e, 'a) sact" where
  "sresult r s w = Some (r, s, w)"

definition spart :: "('s \<Rightarrow> 'p) \<Rightarrow> ('p \<Rightarrow> 's \<Rightarrow> 's) \<Rightarrow> ('p, 'e, 'a) sact \<Rightarrow> ('s, 'e, 'a) sact" where
  "spart get put m s w =
     (case m (get s) w of None \<Rightarrow> None | Some (r, p, w') \<Rightarrow> Some (r, put p s, w'))"

definition swhen :: "bool \<Rightarrow> ('s, 'e, unit) sact \<Rightarrow> ('s, 'e, unit) sact" where
  "swhen b m = (if b then m else sret ())"

lemma sact_simps [simp]:
  "sret a s w = Some (Inr a, s, w)" "sfail e s w = Some (Inl e, s, w)" "sget s w = Some (Inr s, s, w)"
  "smodify f s w = Some (Inr (), f s, w)" "sresult r s w = Some (r, s, w)"
  by (simp_all add: sret_def sfail_def sget_def smodify_def sresult_def)

lemma sbind_Some:
  "sbind m f s w = Some (r, s', w') \<longleftrightarrow>
     (\<exists>e. m s w = Some (Inl e, s', w') \<and> r = Inl e) \<or>
     (\<exists>a s1 w1. m s w = Some (Inr a, s1, w1) \<and> f a s1 w1 = Some (r, s', w'))"
  by (auto simp: sbind_def split: option.splits sum.splits)

lemma slift_Some:
  "slift m s w = Some (r, s', w') \<longleftrightarrow> m w = Some (r, w') \<and> s' = s"
  by (auto simp: slift_def split: option.splits)

lemma stry_Some:
  "stry m s w = Some (r, s', w') \<longleftrightarrow> (\<exists>q. m s w = Some (q, s', w') \<and> r = Inr q)"
  by (auto simp: stry_def split: option.splits)

section \<open>Properties of every run\<close>

locale step_relation =
  fixes R :: "'s \<times> 'e world \<Rightarrow> 's \<times> 'e world \<Rightarrow> bool"
  assumes refl: "R x x"
    and trans: "R x y \<Longrightarrow> R y z \<Longrightarrow> R x z"
begin

definition runs_in :: "('s, 'e, 'a) sact \<Rightarrow> bool" where
  "runs_in m \<longleftrightarrow> (\<forall>s w r s' w'. m s w = Some (r, s', w') \<longrightarrow> R (s, w) (s', w'))"

lemma runs_inI: "(\<And>s w r s' w'. m s w = Some (r, s', w') \<Longrightarrow> R (s, w) (s', w')) \<Longrightarrow> runs_in m"
  by (simp add: runs_in_def)

lemma runs_inD: "runs_in m \<Longrightarrow> m s w = Some (r, s', w') \<Longrightarrow> R (s, w) (s', w')"
  by (simp add: runs_in_def)

lemma run_pure: "runs_in (sret a)" "runs_in (sfail e)" "runs_in sget" "runs_in (sresult r)"
  by (simp_all add: runs_in_def refl)

lemma run_bind:
  assumes "runs_in m" "\<And>a. runs_in (f a)"
  shows "runs_in (sbind m f)"
proof (rule runs_inI)
  fix s w r s' w'
  assume "sbind m f s w = Some (r, s', w')"
  then consider e where "m s w = Some (Inl e, s', w')"
    | a s1 w1 where "m s w = Some (Inr a, s1, w1)" "f a s1 w1 = Some (r, s', w')"
    unfolding sbind_Some by blast
  then show "R (s, w) (s', w')"
  proof cases
    case 1
    then show ?thesis by (rule runs_inD [OF assms(1)])
  next
    case 2
    then show ?thesis using trans runs_inD [OF assms(1) 2(1)] runs_inD [OF assms(2) 2(2)] by blast
  qed
qed

text \<open>After reading the state, what follows may depend on the state read.\<close>

lemma run_get:
  assumes "\<And>s w r s' w'. f s s w = Some (r, s', w') \<Longrightarrow> R (s, w) (s', w')"
  shows "runs_in (sbind sget f)"
  by (rule runs_inI) (auto simp: sbind_Some intro: assms)

lemma run_try: "runs_in m \<Longrightarrow> runs_in (stry m)"
  by (auto simp: runs_in_def stry_Some)

lemma run_if: "(b \<Longrightarrow> runs_in m) \<Longrightarrow> (\<not> b \<Longrightarrow> runs_in n) \<Longrightarrow> runs_in (if b then m else n)"
  by simp

lemma run_when: "(b \<Longrightarrow> runs_in m) \<Longrightarrow> runs_in (swhen b m)"
  by (simp add: swhen_def run_pure)

lemma run_option:
  "runs_in m \<Longrightarrow> (\<And>a. x = Some a \<Longrightarrow> runs_in (f a)) \<Longrightarrow> runs_in (case x of None \<Rightarrow> m | Some a \<Rightarrow> f a)"
  by (cases x) auto

lemma run_sum:
  "(\<And>e. runs_in (g e)) \<Longrightarrow> (\<And>a. runs_in (f a)) \<Longrightarrow> runs_in (case x of Inl e \<Rightarrow> g e | Inr a \<Rightarrow> f a)"
  by (cases x) auto

lemma run_modify: "(\<And>s w. R (s, w) (f s, w)) \<Longrightarrow> runs_in (smodify f)"
  by (rule runs_inI) auto

lemma run_lift:
  "(\<And>s w r w'. m w = Some (r, w') \<Longrightarrow> R (s, w) (s, w')) \<Longrightarrow> runs_in (slift m)"
  by (rule runs_inI) (auto simp: slift_Some)

text \<open>The same from one state, where what is known of the state counts.\<close>

lemma at_bind:
  assumes "sbind m f s w = Some (r, s', w')"
    and "\<And>q s1 w1. m s w = Some (q, s1, w1) \<Longrightarrow> R (s, w) (s1, w1)"
    and "\<And>a s1 w1. m s w = Some (Inr a, s1, w1) \<Longrightarrow> f a s1 w1 = Some (r, s', w')
           \<Longrightarrow> R (s, w) (s1, w1) \<Longrightarrow> R (s1, w1) (s', w')"
  shows "R (s, w) (s', w')"
  using assms(1) unfolding sbind_Some
proof (elim disjE exE conjE)
  fix e assume "m s w = Some (Inl e, s', w')"
  then show ?thesis by (rule assms(2))
next
  fix a s1 w1 assume m: "m s w = Some (Inr a, s1, w1)" and f: "f a s1 w1 = Some (r, s', w')"
  show ?thesis by (rule trans [OF assms(2) [OF m] assms(3) [OF m f assms(2) [OF m]]])
qed

lemmas run_intros = run_pure run_bind run_try run_if run_when run_option run_sum

end

section \<open>Actions that return\<close>

definition sreturns :: "('s, 'e, 'a) sact \<Rightarrow> bool" where
  "sreturns m \<longleftrightarrow> (\<forall>s w. m s w \<noteq> None)"

named_theorems sreturns_intros \<open>stateful actions that always return\<close>

lemma sreturns_pure [sreturns_intros]:
  "sreturns (sret a)" "sreturns (sfail e)" "sreturns sget" "sreturns (smodify f)" "sreturns (sresult r)"
  by (simp_all add: sreturns_def)

lemma sreturns_bind [sreturns_intros]:
  "sreturns m \<Longrightarrow> (\<And>a. sreturns (f a)) \<Longrightarrow> sreturns (sbind m f)"
  by (auto simp: sreturns_def sbind_def split: option.splits sum.splits)

lemma sreturns_try [sreturns_intros]: "sreturns m \<Longrightarrow> sreturns (stry m)"
  by (auto simp: sreturns_def stry_def split: option.splits)

lemma sreturns_lift [sreturns_intros]: "returns m \<Longrightarrow> sreturns (slift m)"
  by (auto simp: sreturns_def returns_def slift_def split: option.splits)

lemma sreturns_part [sreturns_intros]: "sreturns m \<Longrightarrow> sreturns (spart g p m)"
  by (auto simp: sreturns_def spart_def split: option.splits)

lemma sreturns_cases [sreturns_intros]:
  "sreturns m \<Longrightarrow> sreturns n \<Longrightarrow> sreturns (if b then m else n)"
  "sreturns k \<Longrightarrow> sreturns (swhen b k)"
  "sreturns m \<Longrightarrow> (\<And>a. sreturns (f a)) \<Longrightarrow> sreturns (case x of None \<Rightarrow> m | Some a \<Rightarrow> f a)"
  "(\<And>e. sreturns (h e)) \<Longrightarrow> (\<And>a. sreturns (f a)) \<Longrightarrow> sreturns (case y of Inl e \<Rightarrow> h e | Inr a \<Rightarrow> f a)"
  by (auto simp: swhen_def sreturns_pure split: option.splits sum.splits)

end
