(* ===== verification/Net.thy ===== *)
theory Net
  imports Stateful Behavior
begin

text \<open>
  The environment of the scraper and of the session: beside the browser's protocol (\<open>nt_host\<close>), the
  URL parser, the HTTP library, the browser launch, the local proxy, the Public Suffix List, the
  stealth script and the random generators, each an argument of the model. The library's errors are
  carried as their text.
\<close>

record 'e net =
  nt_host :: "'e host"
  nt_url :: "string \<Rightarrow> string + url"
  nt_send :: "http_client \<Rightarrow> http_request \<Rightarrow> 'e \<Rightarrow> (string + http_reply) \<times> 'e"
  nt_proxy_ok :: "string \<Rightarrow> string option"
  nt_client_ok :: "http_client \<Rightarrow> string option"
  nt_psl :: "string \<Rightarrow> string option"
  nt_launch :: "launch_config \<Rightarrow> 'e \<Rightarrow> error option \<times> 'e"
  nt_start_proxy :: "http_client \<Rightarrow> bool \<Rightarrow> 'e \<Rightarrow> (error + u16 \<times> (error + string)) \<times> 'e"
  nt_profile :: "'e \<Rightarrow> profile_draws \<times> 'e"
  nt_pick :: "nat \<Rightarrow> nat"
  nt_draws :: "'e \<Rightarrow> (nat \<Rightarrow> rat) \<times> 'e"
  nt_sqrt :: "rat \<Rightarrow> rat"
  nt_keystroke :: "'e \<Rightarrow> (rat \<times> u64 option) \<times> 'e"
  nt_stealth_js :: "browser_profile \<Rightarrow> string list \<Rightarrow> string"

text \<open>Drawing from a generator of the environment.\<close>

definition draw_from :: "('e \<Rightarrow> 'a \<times> 'e) \<Rightarrow> ('e, 'a) act" where
  "draw_from g w = (case g (w_env w) of (a, e) \<Rightarrow> Some (Inr a, w\<lparr>w_env := e\<rparr>))"

text \<open>Sending a request, launching a browser and starting the proxy; what was asked is recorded.\<close>

definition http_send :: "'e net \<Rightarrow> http_client \<Rightarrow> http_request \<Rightarrow> ('e, http_reply) act" where
  "http_send N c req w =
     (case nt_send N c req (w_env w) of
        (r, e) \<Rightarrow> Some (case r of Inl t \<Rightarrow> Inl (HttpClientError t) | Inr reply \<Rightarrow> Inr reply,
                       w\<lparr>w_env := e, w_sent := w_sent w @ [(c, req)]\<rparr>))"

definition start_browser :: "'e net \<Rightarrow> launch_config \<Rightarrow> ('e, unit) act" where
  "start_browser N cfg w =
     (case nt_launch N cfg (w_env w) of
        (r, e) \<Rightarrow> Some (case r of Some x \<Rightarrow> Inl x | None \<Rightarrow> Inr (),
                       w\<lparr>w_env := e, w_launched := w_launched w @ [cfg]\<rparr>))"

definition start_mitm :: "'e net \<Rightarrow> http_client \<Rightarrow> bool \<Rightarrow> ('e, u16 \<times> (error + string)) act" where
  "start_mitm N c debug w =
     (case nt_start_proxy N c debug (w_env w) of (r, e) \<Rightarrow> Some (r, w\<lparr>w_env := e\<rparr>))"

definition make_client ::
    "'e net \<Rightarrow> browser_profile \<Rightarrow> string option \<Rightarrow> error + http_client" where
  "make_client N = build_impersonation_client (nt_proxy_ok N) (nt_client_ok N)"

lemma returns_net [returns_intros]:
  "returns (draw_from g)" "returns (http_send N c r)" "returns (start_browser N cfg)"
  "returns (start_mitm N c d)"
  by (auto simp: returns_def draw_from_def http_send_def start_browser_def start_mitm_def
      split: prod.splits)

lemma make_client_Inr:
  "make_client N p u = Inr c \<Longrightarrow>
     c = \<lparr>hc_emulation = for_kind (browser_kind p), hc_proxy = u, hc_timeout = UPSTREAM_TIMEOUT\<rparr>"
  by (simp add: make_client_def build_client_Inr)

section \<open>What an action leaves of the record of the world\<close>

text \<open>
  \<open>keeps f m\<close>: running \<open>m\<close> does not change what \<open>f\<close> reads of the world; \<open>frame f\<close>: \<open>f\<close> reads nothing of
  the environment, the calls and the domains, which is what talking to the browser changes.
\<close>

definition keeps :: "('e world \<Rightarrow> 'x) \<Rightarrow> ('e, 'a) act \<Rightarrow> bool" where
  "keeps f m \<longleftrightarrow> (\<forall>w r w'. m w = Some (r, w') \<longrightarrow> f w' = f w)"

definition frame :: "('e world \<Rightarrow> 'x) \<Rightarrow> bool" where
  "frame f \<longleftrightarrow> (\<forall>w e cs en. f (w\<lparr>w_env := e\<rparr>) = f w \<and> f (w\<lparr>w_env := e, w_calls := cs\<rparr>) = f w
                          \<and> f (w\<lparr>w_enabled := en\<rparr>) = f w)"

definition net_trace :: "'e world \<Rightarrow> (http_client \<times> http_request) list \<times> launch_config list" where
  "net_trace w = (w_sent w, w_launched w)"

lemma frames [simp]: "frame w_log" "frame net_trace"
  by (simp_all add: frame_def net_trace_def)

named_theorems keeps_intros \<open>what actions leave unchanged\<close>

lemma keeps_pure [keeps_intros]:
  "keeps f (aret a)" "keeps f (afail e)" "keeps f (alift x)" "keeps f (now_unix H)" "keeps f (instant H)"
  by (simp_all add: keeps_def)

lemma keeps_frame [keeps_intros]:
  assumes "frame f"
  shows "keeps f (sleep H d)" "keeps f (cdp_send H s mt p)" "keeps f (draw_from g)"
    "keeps f (start_mitm N c b)"
  using assms
  by (auto simp: frame_def keeps_def cdp_send_def draw_from_def start_mitm_def split: prod.splits)

lemma keeps_emit [keeps_intros]: "keeps net_trace (emit ev)"
  by (auto simp: keeps_def net_trace_def)

lemma keeps_bind [keeps_intros]:
  assumes "keeps f m" "\<And>a. keeps f (g a)"
  shows "keeps f (abind m g)"
  unfolding keeps_def abind_Some
proof (intro allI impI)
  fix w r w'
  assume "(\<exists>e. m w = Some (Inl e, w') \<and> r = Inl e) \<or> (\<exists>a w1. m w = Some (Inr a, w1) \<and> g a w1 = Some (r, w'))"
  then show "f w' = f w" using assms unfolding keeps_def by metis
qed

lemma keeps_try [keeps_intros]: "keeps f m \<Longrightarrow> keeps f (atry m)"
  unfolding keeps_def atry_def by (auto split: option.splits prod.splits)

lemma keeps_each [keeps_intros]: "(\<And>x. keeps f (g x)) \<Longrightarrow> keeps f (aeach g xs)"
  by (induction xs) (auto intro: keeps_intros)

lemma keeps_cases [keeps_intros]:
  "keeps f m \<Longrightarrow> keeps f n \<Longrightarrow> keeps f (if b then m else n)"
  "keeps f m \<Longrightarrow> (\<And>a. keeps f (g a)) \<Longrightarrow> keeps f (case x of None \<Rightarrow> m | Some a \<Rightarrow> g a)"
  "(\<And>e. keeps f (h e)) \<Longrightarrow> (\<And>a. keeps f (g a)) \<Longrightarrow> keeps f (case y of Inl e \<Rightarrow> h e | Inr a \<Rightarrow> g a)"
  "(\<And>a b. keeps f (k a b)) \<Longrightarrow> keeps f (case z of (a, b) \<Rightarrow> k a b)"
  by (auto split: option.splits sum.splits prod.splits)

lemma keepsD: "keeps f m \<Longrightarrow> m w = Some (r, w') \<Longrightarrow> f w' = f w"
  by (simp add: keeps_def)

section \<open>A concrete environment\<close>

text \<open>
  An environment in which everything works: one host, one page, a clock that advances by what is
  slept. It shows that the hypotheses of the theorems above it can hold.
\<close>

definition plain_answer :: "string \<Rightarrow> json" where
  "plain_answer m =
     (if m = ''Target.createTarget'' then JObj [(''targetId'', JStr ''T1'')]
      else if m = ''Target.attachToTarget'' then JObj [(''sessionId'', JStr ''S1'')]
      else if m = ''Storage.getCookies'' then JObj [(''cookies'', JArr [])]
      else if m = ''Runtime.evaluate'' then JObj [(''result'', JObj [(''value'', JStr ''ok'')])]
      else JObj [])"

definition plain_host :: "nat host" where
  "plain_host =
     \<lparr>ho_reply = (\<lambda>(s, m, p) e. (Inr (plain_answer m), e)),
      ho_recv = (\<lambda>since t e.
        ([GotEvent \<lparr>ev_method = ''Page.loadEventFired'', ev_params = JNull, ev_session = Some ''S1''\<rparr>], e)),
      ho_sleep = (\<lambda>d e. e + nanos_of d), ho_instant = (\<lambda>e. e), ho_now = (\<lambda>e. 1700000000),
      ho_quote = (\<lambda>s. CHR 0x22 # s @ [CHR 0x22]), ho_fuel = 100\<rparr>"

definition plain_url :: url where
  "plain_url =
     \<lparr>u_scheme = ''https'', u_host = Some ''h'', u_path = ''/'', u_username = [], u_password = None,
      u_settable = True, u_text = (\<lambda>n p. ''https://h/'')\<rparr>"

definition plain_net :: "nat net" where
  "plain_net =
     \<lparr>nt_host = plain_host, nt_url = (\<lambda>s. Inr plain_url),
      nt_send = (\<lambda>c r e.
        (Inr \<lparr>rp_status = 200, rp_headers = [(''set-cookie'', Some ''a=1'')], rp_body = Inr ''ok''\<rparr>, e)),
      nt_proxy_ok = (\<lambda>s. None), nt_client_ok = (\<lambda>c. None), nt_psl = (\<lambda>d. None),
      nt_launch = (\<lambda>c e. (None, e)), nt_start_proxy = (\<lambda>c d e. (Inr (8080, Inr ''pin''), e)),
      nt_profile = (\<lambda>e. (\<lparr>d_ua = 1, d_coin = True, d_dims = 0, d_cores = 0, d_memory = 0\<rparr>, e)),
      nt_pick = (\<lambda>n. 0), nt_draws = (\<lambda>e. (\<lambda>k. 1 / 2, e)), nt_sqrt = (\<lambda>x. x),
      nt_keystroke = (\<lambda>e. ((50, None), e)), nt_stealth_js = (\<lambda>p ls. ''void 0'')\<rparr>"

definition plain_world :: "nat world" where
  "plain_world = \<lparr>w_env = 0, w_calls = [], w_enabled = {}, w_log = [], w_sent = [], w_launched = []\<rparr>"

end
