(* ===== verification/HttpScraper.thy ===== *)
theory HttpScraper
  imports Net Identity Client
begin

text \<open>
  Models \<open>src/src/http_scraper.rs\<close>: the plain HTTP transport over the identity it shares with the
  session. The state of its actions is that identity; the request is what the HTTP library was asked
  to send. Reading a header value that is not visible text yields nothing, as in the source.
\<close>

definition REQUEST_TIMEOUT :: duration where "REQUEST_TIMEOUT = from_secs 30"

record http_response =
  rs_status :: u16
  rs_body :: string
  rs_signal :: challenge_signal

definition response_is_challenge :: "http_response \<Rightarrow> bool" where
  "response_is_challenge r = is_challenge (rs_signal r)"

definition scraper_new :: "'e net \<Rightarrow> string option \<Rightarrow> (stealth_identity, 'e, http_client) sact" where
  "scraper_new N upstream =
     sbind sget (\<lambda>i. sresult (make_client N (id_profile i) upstream))"

definition identity_request ::
    "stealth_identity \<Rightarrow> bool \<Rightarrow> string \<Rightarrow> string \<Rightarrow> u64 \<Rightarrow> string \<Rightarrow> http_request" where
  "identity_request i secure host path now url =
     \<lparr>hr_url = url, hr_timeout = REQUEST_TIMEOUT,
      hr_headers =
        [(''User-Agent'', user_agent (id_profile i))]
        @ (case for_profile (id_profile i) of
             None \<Rightarrow> []
           | Some h \<Rightarrow> [(''Sec-CH-UA'', sec_ch_ua h), (''Sec-CH-UA-Mobile'', sec_ch_ua_mobile h),
                       (''Sec-CH-UA-Platform'', sec_ch_ua_platform h)])
        @ [(''Accept-Language'', identity_accept_language i)]
        @ (case cookie_header (id_cookies i) secure host path now of
             None \<Rightarrow> []
           | Some h \<Rightarrow> [(''Cookie'', h)])\<rparr>"

definition header_value :: "http_reply \<Rightarrow> string \<Rightarrow> string option" where
  "header_value reply name = Option.bind (map_of (rp_headers reply) name) (\<lambda>v. v)"

definition set_cookie_headers :: "http_reply \<Rightarrow> string list" where
  "set_cookie_headers reply =
     List.map_filter (\<lambda>(k, v). if k = ''set-cookie'' then v else None) (rp_headers reply)"

definition same_cookie :: "cookie \<Rightarrow> cookie \<Rightarrow> bool" where
  "same_cookie a b \<longleftrightarrow> c_name a = c_name b \<and> c_domain a = c_domain b \<and> c_path a = c_path b"

definition absorb_one ::
    "(string \<Rightarrow> string option) \<Rightarrow> string \<Rightarrow> string \<Rightarrow> u64 \<Rightarrow> string \<Rightarrow> cookie list \<Rightarrow> cookie list" where
  "absorb_one psl host path now header jar =
     (case parse_set_cookie psl header host path of
        None \<Rightarrow> jar
      | Some parsed \<Rightarrow>
          (let c = anchor_max_age parsed now; kept = filter (\<lambda>x. \<not> same_cookie x c) jar
           in if is_expired c now then kept else kept @ [c]))"

definition absorb_cookies ::
    "(string \<Rightarrow> string option) \<Rightarrow> string list \<Rightarrow> string \<Rightarrow> string \<Rightarrow> u64
       \<Rightarrow> stealth_identity \<Rightarrow> stealth_identity" where
  "absorb_cookies psl headers host path now i =
     (if headers = [] then i
      else i\<lparr>id_cookies := fold (absorb_one psl host path now) headers (id_cookies i)\<rparr>)"

definition classify :: "http_reply \<Rightarrow> string \<Rightarrow> challenge_signal" where
  "classify reply body =
     detect \<lparr>di_status = Some (rp_status reply), di_server = header_value reply ''server'',
             di_cf_mitigated = header_value reply ''cf-mitigated'',
             di_cf_ray = header_value reply ''cf-ray'', di_body = body\<rparr>"

definition parse_target :: "'e net \<Rightarrow> string \<Rightarrow> error + (url \<times> string)" where
  "parse_target N url =
     (case nt_url N url of
        Inl e \<Rightarrow> Inl (ConfigError (''invalid URL '' @ url @ '': '' @ e))
      | Inr u \<Rightarrow> (case u_host u of
                    None \<Rightarrow> Inl (ConfigError (''URL has no host: '' @ url))
                  | Some host \<Rightarrow> Inr (u, host)))"

definition read_body :: "http_reply \<Rightarrow> error + string" where
  "read_body reply = (case rp_body reply of Inl e \<Rightarrow> Inl (HttpClientError e) | Inr b \<Rightarrow> Inr b)"

definition http_fetch ::
    "'e net \<Rightarrow> http_client \<Rightarrow> string \<Rightarrow> (stealth_identity, 'e, http_response) sact" where
  "http_fetch N client url =
     sbind (sresult (parse_target N url)) (\<lambda>(u, host).
     sbind sget (\<lambda>i.
     sbind (slift (now_unix (nt_host N))) (\<lambda>now.
     sbind (slift (http_send N client
              (identity_request i (u_scheme u = ''https'') host (u_path u) now url))) (\<lambda>reply.
     sbind (sresult (read_body reply)) (\<lambda>body.
     sbind (slift (now_unix (nt_host N))) (\<lambda>later.
     sbind (smodify (absorb_cookies (nt_psl N) (set_cookie_headers reply) host (u_path u) later)) (\<lambda>_.
     sret \<lparr>rs_status = rp_status reply, rs_body = body, rs_signal = classify reply body\<rparr>)))))))"

section \<open>The jar is a map\<close>

text \<open>A cookie is identified by its name, its domain and its path.\<close>

definition cookie_key :: "cookie \<Rightarrow> string \<times> string \<times> string" where
  "cookie_key c = (c_name c, c_domain c, c_path c)"

definition jar_map :: "cookie list \<Rightarrow> (string \<times> string \<times> string) \<rightharpoonup> cookie" where
  "jar_map jar = map_of (map (\<lambda>c. (cookie_key c, c)) jar)"

definition jar_inv :: "cookie list \<Rightarrow> bool" where
  "jar_inv jar \<longleftrightarrow> distinct (map cookie_key jar)"

definition update_one ::
    "(string \<Rightarrow> string option) \<Rightarrow> string \<Rightarrow> string \<Rightarrow> u64 \<Rightarrow> string
       \<Rightarrow> ((string \<times> string \<times> string) \<rightharpoonup> cookie) \<Rightarrow> ((string \<times> string \<times> string) \<rightharpoonup> cookie)" where
  "update_one psl host path now header m =
     (case parse_set_cookie psl header host path of
        None \<Rightarrow> m
      | Some parsed \<Rightarrow>
          (let c = anchor_max_age parsed now
           in m(cookie_key c := if is_expired c now then None else Some c)))"

lemma same_cookie_key: "same_cookie a b \<longleftrightarrow> cookie_key a = cookie_key b"
  by (simp add: same_cookie_def cookie_key_def)

lemma jar_map_filter:
  "jar_map (filter (\<lambda>x. cookie_key x \<noteq> k) jar) = (jar_map jar)(k := None)"
  by (induction jar) (auto simp: jar_map_def fun_eq_iff)

lemma jar_map_snoc: "jar_map jar (cookie_key c) = None \<Longrightarrow> jar_map (jar @ [c]) = (jar_map jar)(cookie_key c \<mapsto> c)"
  by (auto simp: jar_map_def map_add_def fun_eq_iff split: option.splits)

lemma jar_inv_filter: "jar_inv jar \<Longrightarrow> jar_inv (filter P jar)"
  by (simp add: jar_inv_def distinct_map_filter)

lemma absorb_one_refines:
  assumes "jar_inv jar"
  shows "jar_inv (absorb_one psl host path now h jar)
    \<and> jar_map (absorb_one psl host path now h jar) = update_one psl host path now h (jar_map jar)"
proof (cases "parse_set_cookie psl h host path")
  case None
  then show ?thesis using assms by (simp add: absorb_one_def update_one_def)
next
  case (Some parsed)
  let ?c = "anchor_max_age parsed now"
  let ?k = "filter (\<lambda>x. cookie_key x \<noteq> cookie_key ?c) jar"
  have k: "jar_inv ?k" "jar_map ?k = (jar_map jar)(cookie_key ?c := None)"
    using assms by (simp_all add: jar_inv_filter jar_map_filter)
  then have "jar_map (?k @ [?c]) = (jar_map jar)(cookie_key ?c \<mapsto> ?c)"
    by (simp add: jar_map_snoc)
  moreover have "jar_inv (?k @ [?c])" using k(1) by (auto simp: jar_inv_def)
  ultimately show ?thesis
    using Some k by (simp add: absorb_one_def update_one_def Let_def same_cookie_key)
qed

lemma fold_absorb_refines:
  "jar_inv jar \<Longrightarrow>
     jar_inv (fold (absorb_one psl host path now) hs jar)
     \<and> jar_map (fold (absorb_one psl host path now) hs jar)
         = fold (update_one psl host path now) hs (jar_map jar)"
  by (induction hs arbitrary: jar) (simp_all add: absorb_one_refines)

text \<open>C17. The cookie jar is a map from name, domain and path: absorbing the \<open>Set-Cookie\<close> headers of a
response keeps one cookie per triple and does to the jar what the same headers, in order, do to a
map: a live cookie replaces the one of its triple, an expired one removes it, and a header that does
not parse changes nothing.\<close>

theorem absorb_refines_map:
  assumes "jar_inv (id_cookies i)"
  shows "jar_inv (id_cookies (absorb_cookies psl hs host path now i))
    \<and> jar_map (id_cookies (absorb_cookies psl hs host path now i))
        = fold (update_one psl host path now) hs (jar_map (id_cookies i))"
  using fold_absorb_refines [OF assms] assms by (simp add: absorb_cookies_def)

definition sample_identity :: stealth_identity where
  "sample_identity =
     identity_new (random_profile \<lparr>d_ua = 1, d_coin = True, d_dims = 0, d_cores = 0, d_memory = 0\<rparr>)"

theorem absorb_refines_map_witness:
  "jar_map (id_cookies (absorb_cookies sample_psl [''a=1''] ''h'' ''/'' 5 sample_identity))
     = fold (update_one sample_psl ''h'' ''/'' 5) [''a=1''] Map.empty"
  using absorb_refines_map [of sample_identity sample_psl "[''a=1'']" "''h''" "''/''" 5]
  by (simp add: sample_identity_def identity_new_def jar_inv_def jar_map_def)

section \<open>What a fetch does\<close>

lemma http_send_run:
  "http_send N c req w = Some (r, w') \<Longrightarrow>
     w_sent w' = w_sent w @ [(c, req)] \<and> w_calls w' = w_calls w \<and> w_launched w' = w_launched w
     \<and> w_log w' = w_log w \<and> w_enabled w' = w_enabled w"
  by (auto simp: http_send_def split: prod.splits)

lemma http_send_total: "\<exists>q w'. http_send N c req w = Some (q, w')"
  by (simp add: http_send_def split: prod.split)

lemma absorb_only_cookies: "absorb_cookies psl hs h p now i = i\<lparr>id_cookies := id_cookies (absorb_cookies psl hs h p now i)\<rparr>"
  by (cases i) (simp add: absorb_cookies_def)

text \<open>The outcome of a fetch whose target parsed, from the outcome of the send.\<close>

definition fetch_outcome ::
    "'e net \<Rightarrow> string \<Rightarrow> string \<Rightarrow> u64 \<Rightarrow> stealth_identity \<Rightarrow> error + http_reply
       \<Rightarrow> (error + http_response) \<times> stealth_identity" where
  "fetch_outcome N host path later i q =
     (case q of
        Inl e \<Rightarrow> (Inl e, i)
      | Inr reply \<Rightarrow>
          (case read_body reply of
             Inl e \<Rightarrow> (Inl e, i)
           | Inr body \<Rightarrow>
               (Inr \<lparr>rs_status = rp_status reply, rs_body = body, rs_signal = classify reply body\<rparr>,
                absorb_cookies (nt_psl N) (set_cookie_headers reply) host path later i)))"

lemma http_fetch_bad_target:
  "parse_target N url = Inl e \<Longrightarrow> http_fetch N client url i w = Some (Inl e, i, w)"
  by (simp add: http_fetch_def sbind_def)

lemma http_fetch_target:
  assumes "parse_target N url = Inr (u, host)"
    and "http_send N client (identity_request i (u_scheme u = ''https'') host (u_path u)
           (ho_now (nt_host N) (w_env w)) url) w = Some (q, w')"
  shows "http_fetch N client url i w
    = (case fetch_outcome N host (u_path u) (ho_now (nt_host N) (w_env w')) i q of
         (r, i') \<Rightarrow> Some (r, i', w'))"
  using assms
  by (auto simp: http_fetch_def sbind_def slift_def fetch_outcome_def split: sum.split)

lemma fetch_outcome_frame:
  "fetch_outcome N host path later i q = (r, i') \<Longrightarrow>
     i' = i\<lparr>id_cookies := id_cookies i'\<rparr> \<and> (is_ok r \<or> i' = i) \<and> (jar_inv (id_cookies i) \<longrightarrow> jar_inv (id_cookies i'))"
  using fold_absorb_refines absorb_only_cookies [of "nt_psl N"]
  by (auto simp: fetch_outcome_def absorb_cookies_def split: sum.splits)

lemma http_fetch_run:
  assumes "http_fetch N client url i w = Some (r, i', w')"
  shows "(case parse_target N url of
            Inl e \<Rightarrow> r = Inl e \<and> w' = w
          | Inr (u, host) \<Rightarrow>
              w_sent w' = w_sent w @ [(client, identity_request i (u_scheme u = ''https'') host (u_path u)
                                        (ho_now (nt_host N) (w_env w)) url)])
    \<and> w_calls w' = w_calls w \<and> w_launched w' = w_launched w \<and> w_log w' = w_log w
    \<and> i' = i\<lparr>id_cookies := id_cookies i'\<rparr> \<and> (is_ok r \<or> i' = i)"
proof (cases "parse_target N url")
  case (Inl e)
  then show ?thesis using assms by (auto simp: http_fetch_bad_target)
next
  case (Inr t)
  obtain u host where t: "t = (u, host)" by (cases t)
  obtain q w1 where send: "http_send N client (identity_request i (u_scheme u = ''https'') host (u_path u)
           (ho_now (nt_host N) (w_env w)) url) w = Some (q, w1)"
    using http_send_total by blast
  obtain r1 i1 where o: "fetch_outcome N host (u_path u) (ho_now (nt_host N) (w_env w1)) i q = (r1, i1)"
    by force
  then have "r = r1" "i' = i1" "w' = w1"
    using assms http_fetch_target [OF Inr [unfolded t] send] by simp_all
  then show ?thesis using fetch_outcome_frame [OF o] http_send_run [OF send] Inr t by simp
qed

text \<open>C35. A fetch over HTTP is one request of the identity's own making: a URL that does not name a
host is refused before anything is sent; otherwise exactly one request goes out, built from the
identity's profile, language and applicable cookies, nothing else of the world is touched, the
identity keeps everything but its cookies, and a failure leaves even those alone.\<close>

theorem fetch_contract:
  assumes "http_fetch N client url i w = Some (r, i', w')"
  shows "(case parse_target N url of
            Inl e \<Rightarrow> r = Inl e \<and> w' = w
          | Inr (u, host) \<Rightarrow>
              w_sent w' = w_sent w @ [(client, identity_request i (u_scheme u = ''https'') host (u_path u)
                                        (ho_now (nt_host N) (w_env w)) url)])
    \<and> w_calls w' = w_calls w \<and> w_launched w' = w_launched w \<and> w_log w' = w_log w
    \<and> i' = i\<lparr>id_cookies := id_cookies i'\<rparr> \<and> (is_ok r \<or> i' = i)"
  by (rule http_fetch_run [OF assms])

theorem fetch_contract_witness:
  "\<exists>r i' w' client. http_fetch plain_net client ''u'' sample_identity plain_world = Some (r, i', w')
     \<and> length (w_sent w') = 1 \<and> w_launched w' = []"
proof -
  let ?c = "\<lparr>hc_emulation = chrome, hc_proxy = None, hc_timeout = UPSTREAM_TIMEOUT\<rparr>"
  have t: "parse_target plain_net ''u'' = Inr (plain_url, ''h'')"
    by (simp add: parse_target_def plain_net_def plain_url_def)
  obtain q w1 where send: "http_send plain_net ?c
      (identity_request sample_identity (u_scheme plain_url = ''https'') ''h'' (u_path plain_url)
         (ho_now (nt_host plain_net) (w_env plain_world)) ''u'') plain_world = Some (q, w1)"
    using http_send_total by blast
  obtain r i' where f: "http_fetch plain_net ?c ''u'' sample_identity plain_world = Some (r, i', w1)"
    using http_fetch_target [OF t send] by (auto split: prod.splits)
  show ?thesis
    using fetch_contract [OF f] f t
    by (intro exI [of _ r] exI [of _ i'] exI [of _ w1] exI [of _ ?c]) (simp add: plain_world_def)
qed

end
