(* ===== verification/Human.thy ===== *)
theory Human
  imports Net CdpSession
begin

text \<open>
  Models the human-like interactions of \<open>src/src/scraper.rs\<close> (typing, scrolling, travelling, clicking) and
  the challenge solver of \<open>src/src/solver.rs\<close>, as actions on a page. A text to type is the list of its
  characters, each as the text it renders to.
\<close>

definition MOUSE_PATH_POINTS :: nat where "MOUSE_PATH_POINTS = 50"
definition IDLE_DRIFT_MOVES :: nat where "IDLE_DRIFT_MOVES = 3"
definition SCROLL_ORIGIN_X :: rat where "SCROLL_ORIGIN_X = 640"
definition SCROLL_ORIGIN_Y :: rat where "SCROLL_ORIGIN_Y = 400"
definition SCROLL_STEP_INTERVAL :: duration where "SCROLL_STEP_INTERVAL = from_millis 30"
definition SCROLL_SETTLE_POLL :: duration where "SCROLL_SETTLE_POLL = from_millis 16"
definition SCROLL_SETTLE_TIMEOUT :: duration where "SCROLL_SETTLE_TIMEOUT = from_millis 750"
definition MOUSE_STEP_INTERVAL :: duration where "MOUSE_STEP_INTERVAL = from_millis 5"

section \<open>Interactions\<close>

definition human_type_str :: "'e net \<Rightarrow> page \<Rightarrow> string list \<Rightarrow> ('e, unit) act" where
  "human_type_str N pg characters =
     aeach (\<lambda>character.
       abind (draw_from (nt_keystroke N)) (\<lambda>(sample, pause).
       abind (sleep (nt_host N) (calculate_typing_delay sample pause)) (\<lambda>_.
       press_key (nt_host N) pg character))) characters"

fun settle_loop :: "nat \<Rightarrow> 'e host \<Rightarrow> page \<Rightarrow> nat \<Rightarrow> rat option \<Rightarrow> ('e, unit) act" where
  "settle_loop 0 H pg deadline previous = (\<lambda>w. None)"
| "settle_loop (Suc n) H pg deadline previous =
     abind (instant H) (\<lambda>t.
     if t < deadline then
       abind (evaluate H pg ''window.scrollY'') (\<lambda>v.
       let current = (case as_f64_json v of None \<Rightarrow> 0 | Some x \<Rightarrow> x) in
       if previous = Some current then aret ()
       else abind (sleep H SCROLL_SETTLE_POLL) (\<lambda>_. settle_loop n H pg deadline (Some current)))
     else aret ())"

definition wait_for_scroll_to_settle :: "'e host \<Rightarrow> page \<Rightarrow> ('e, unit) act" where
  "wait_for_scroll_to_settle H pg =
     abind (instant H) (\<lambda>t.
     settle_loop (ho_fuel H) H pg (t + nanos_of SCROLL_SETTLE_TIMEOUT) None)"

definition human_scroll_into_view :: "'e net \<Rightarrow> page \<Rightarrow> string \<Rightarrow> ('e, bool) act" where
  "human_scroll_into_view N pg selector =
     abind (scroll_distance_to (nt_host N) pg selector) (\<lambda>d.
     case d of
       None \<Rightarrow> aret False
     | Some distance \<Rightarrow>
         if distance = 0 then aret True
         else abind (draw_from (nt_draws N)) (\<lambda>draw.
           abind (aeach (\<lambda>notch.
               abind (scroll_by (nt_host N) pg SCROLL_ORIGIN_X SCROLL_ORIGIN_Y notch) (\<lambda>_.
               sleep (nt_host N) SCROLL_STEP_INTERVAL))
             (scroll_increments draw distance)) (\<lambda>_.
           abind (wait_for_scroll_to_settle (nt_host N) pg) (\<lambda>_. aret True))))"

definition move_along :: "'e net \<Rightarrow> page \<Rightarrow> duration \<Rightarrow> point list \<Rightarrow> ('e, unit) act" where
  "move_along N pg d points =
     aeach (\<lambda>p. abind (move_mouse (nt_host N) pg (pt_x p) (pt_y p)) (\<lambda>_. sleep (nt_host N) d)) points"

definition human_settle :: "'e net \<Rightarrow> page \<Rightarrow> rat \<Rightarrow> rat \<Rightarrow> ('e, unit) act" where
  "human_settle N pg x y =
     abind (draw_from (nt_draws N)) (\<lambda>draw.
     move_along N pg idle_step_delay (idle_drift draw \<lparr>pt_x = x, pt_y = y\<rparr> IDLE_DRIFT_MOVES))"

definition human_move_mouse :: "'e net \<Rightarrow> page \<Rightarrow> rat \<Rightarrow> rat \<Rightarrow> ('e, unit) act" where
  "human_move_mouse N pg x1 y1 =
     abind (draw_from (nt_draws N)) (\<lambda>draw.
     move_along N pg MOUSE_STEP_INTERVAL
       (generate_mouse_path (nt_sqrt N) draw \<lparr>pt_x = 100, pt_y = 100\<rparr> \<lparr>pt_x = x1, pt_y = y1\<rparr> MOUSE_PATH_POINTS))"

definition human_click :: "'e net \<Rightarrow> page \<Rightarrow> string \<Rightarrow> ('e, unit) act" where
  "human_click N pg selector =
     abind (human_scroll_into_view N pg selector) (\<lambda>visible.
     if \<not> visible
     then afail (InteractionError (''cannot click '' @ selector @ '': no element with a box''))
     else abind (element_center (nt_host N) pg selector) (\<lambda>c.
       case c of
         None \<Rightarrow> afail (InteractionError (''cannot click '' @ selector @ '': it has no position''))
       | Some (x, y) \<Rightarrow>
           abind (human_move_mouse N pg x y) (\<lambda>_.
           abind (human_settle N pg x y) (\<lambda>_.
           click_point (nt_host N) pg x y))))"

section \<open>The solver\<close>

definition CHALLENGE_SELECTORS :: "string list" where
  "CHALLENGE_SELECTORS = [''.cf-turnstile'', ''#challenge-stage'', ''input[type=checkbox]'']"

definition SELECTOR_TIMEOUT :: duration where "SELECTOR_TIMEOUT = from_millis 1500"
definition RESOLVE_WAIT :: duration where "RESOLVE_WAIT = from_secs 3"

fun is_interaction_error :: "error \<Rightarrow> bool" where
  "is_interaction_error (InteractionError _) = True"
| "is_interaction_error _ = False"

fun solve_selectors :: "'e net \<Rightarrow> page \<Rightarrow> string list \<Rightarrow> ('e, unit) act" where
  "solve_selectors N pg [] = afail (InteractionError ''Could not find a challenge element to solve'')"
| "solve_selectors N pg (selector # rest) =
     abind (atry (wait_for_selector (nt_host N) pg selector SELECTOR_TIMEOUT)) (\<lambda>found.
     case found of
       Inl _ \<Rightarrow> solve_selectors N pg rest
     | Inr _ \<Rightarrow>
         abind (atry (human_click N pg selector)) (\<lambda>clicked.
         case clicked of
           Inl e \<Rightarrow> if is_interaction_error e then solve_selectors N pg rest else afail e
         | Inr _ \<Rightarrow> sleep (nt_host N) RESOLVE_WAIT))"

definition solve_cloudflare_turnstile :: "'e net \<Rightarrow> page \<Rightarrow> ('e, unit) act" where
  "solve_cloudflare_turnstile N pg = solve_selectors N pg CHALLENGE_SELECTORS"

section \<open>They return\<close>

lemma returns_page_calls [returns_intros]:
  "returns (evaluate H pg s)" "returns (move_mouse H pg x y)" "returns (click_point H pg x y)"
  "returns (scroll_by H pg x y d)" "returns (press_key H pg c)" "returns (content H pg)"
  "returns (page_url H pg)" "returns (element_center H pg s)" "returns (scroll_distance_to H pg s)"
  unfolding page_defs by (intro returns_intros)+

lemma nanos_settle: "nanos_of SCROLL_SETTLE_POLL = 16000000" "nanos_of SCROLL_SETTLE_TIMEOUT = 750000000"
  by (simp_all add: SCROLL_SETTLE_POLL_def SCROLL_SETTLE_TIMEOUT_def from_millis_def nanos_of_def)

lemma clock_evaluate:
  assumes "clock_ok H" "evaluate H pg s w = Some (r, w')"
  shows "ho_instant H (w_env w) \<le> ho_instant H (w_env w')"
proof -
  obtain q e where "ho_reply H (Some (pg_session pg), ''Runtime.evaluate'',
      Some (JObj [(''expression'', JStr s), (''returnByValue'', JBool True), (''awaitPromise'', JBool True)])) (w_env w)
      = (q, e)" by force
  then have "w_env w' = snd (ho_reply H (Some (pg_session pg), ''Runtime.evaluate'',
      Some (JObj [(''expression'', JStr s), (''returnByValue'', JBool True), (''awaitPromise'', JBool True)])) (w_env w))"
    using assms(2) by (auto simp: evaluate_def page_call_def cdp_send_def abind_Some)
  then show ?thesis using assms(1) unfolding clock_ok_def by metis
qed

lemma settle_loop_returns:
  assumes "clock_ok H"
  shows "deadline \<le> ho_instant H (w_env w) + m * 16000000 \<Longrightarrow> m < n \<Longrightarrow>
    settle_loop n H pg deadline previous w \<noteq> None"
proof (induction n arbitrary: w m previous)
  case 0
  then show ?case by simp
next
  case (Suc n)
  show ?case
  proof (cases "ho_instant H (w_env w) < deadline")
    case False
    then show ?thesis by simp
  next
    case True
    obtain r w1 where e: "evaluate H pg ''window.scrollY'' w = Some (r, w1)"
      using returns_page_calls(1) [of H pg "''window.scrollY''"] unfolding returns_def
      by (metis option.exhaust surj_pair)
    let ?w = "w1\<lparr>w_env := ho_sleep H SCROLL_SETTLE_POLL (w_env w1)\<rparr>"
    have "ho_instant H (w_env w1) + 16000000 \<le> ho_instant H (ho_sleep H SCROLL_SETTLE_POLL (w_env w1))"
      using assms nanos_settle(1) unfolding clock_ok_def by metis
    moreover obtain m' where "m = Suc m'" using True Suc.prems(1) by (cases m) auto
    ultimately have "settle_loop n H pg deadline p ?w \<noteq> None" for p
      using clock_evaluate [OF assms e] Suc.prems by (intro Suc.IH [of _ m']) simp_all
    then show ?thesis using True e
      by (cases r) (simp_all add: abind_def Let_def split: option.split)
  qed
qed

text \<open>The fuel the polling loops need: the longest waits by their poll interval.\<close>

definition fuel_ok :: "'e host \<Rightarrow> bool" where
  "fuel_ok H \<longleftrightarrow> clock_ok H \<and> 50 \<le> ho_fuel H"

lemma returns_settle [returns_intros]: "fuel_ok H \<Longrightarrow> returns (wait_for_scroll_to_settle H pg)"
  using settle_loop_returns [of H _ _ 47 "ho_fuel H"] nanos_settle(2)
  by (auto simp: fuel_ok_def returns_def wait_for_scroll_to_settle_def)

lemma nanos_selector: "nanos_of SELECTOR_TIMEOUT = 1500000000"
  by (simp add: SELECTOR_TIMEOUT_def from_millis_def nanos_of_def)

lemma returns_selector: "fuel_ok H \<Longrightarrow> returns (wait_for_selector H pg s SELECTOR_TIMEOUT)"
  unfolding returns_def
proof
  fix w :: "'a world"
  assume f: "fuel_ok H"
  have "ho_instant H (w_env w) + nanos_of SELECTOR_TIMEOUT \<le> ho_instant H (w_env w) + 15 * 100000000"
    using nanos_selector by simp
  moreover have "clock_ok H" "15 < ho_fuel H" using f by (simp_all add: fuel_ok_def)
  ultimately obtain r w' where "selector_loop (ho_fuel H) H pg s SELECTOR_TIMEOUT
      (ho_instant H (w_env w) + nanos_of SELECTOR_TIMEOUT) w = Some (r, w')"
    using selector_loop_returns by blast
  then show "wait_for_selector H pg s SELECTOR_TIMEOUT w \<noteq> None"
    by (simp add: wait_for_selector_def)
qed

lemma returns_click [returns_intros]:
  assumes "fuel_ok (nt_host N)"
  shows "returns (human_click N pg s)"
  unfolding human_click_def human_scroll_into_view_def human_move_mouse_def human_settle_def move_along_def
  by (intro returns_intros assms)

lemma returns_solve [returns_intros]:
  assumes "fuel_ok (nt_host N)"
  shows "returns (solve_cloudflare_turnstile N pg)"
proof -
  have "returns (solve_selectors N pg ss)" for ss
  proof (induction ss)
    case Nil
    show ?case unfolding solve_selectors.simps by (intro returns_intros)
  next
    case (Cons s ss)
    show ?case unfolding solve_selectors.simps
      by (intro returns_intros returns_selector assms Cons.IH)
  qed
  then show ?thesis by (simp add: solve_cloudflare_turnstile_def)
qed

section \<open>They only talk to the browser\<close>

lemma keeps_session [keeps_intros]:
  assumes "frame f"
  shows "keeps f (subscribe pg)" "keeps f (wait H lw t)" "keeps f (enable_domain H pg d)"
    "keeps f (fresh_page tg sn)"
proof -
  show "keeps f (subscribe pg)" "keeps f (wait H lw t)" "keeps f (fresh_page tg sn)"
    using assms by (auto simp: frame_def keeps_def subscribe_def wait_def fresh_page_def split: prod.splits)
  have call: "keeps f (page_call H pg m p)" for m p
    unfolding page_call_def by (rule keeps_frame(2) [OF assms])
  show "keeps f (enable_domain H pg d)"
    using assms call [unfolded keeps_def]
    by (auto simp: keeps_def enable_domain_def abind_Some frame_def split: if_splits)
qed

lemma keeps_page [keeps_intros]:
  assumes "frame f"
  shows "keeps f (evaluate H pg s)" "keeps f (content H pg)" "keeps f (page_url H pg)"
    "keeps f (has_selector H pg s)" "keeps f (element_center H pg s)" "keeps f (scroll_distance_to H pg s)"
    "keeps f (navigate_and_wait H pg u t)" "keeps f (reload_and_wait H pg b t)" "keeps f (move_mouse H pg x y)"
    "keeps f (click_point H pg x y)" "keeps f (scroll_by H pg x y d)" "keeps f (press_key H pg c)"
    "keeps f (add_init_script H pg s)" "keeps f (set_user_agent H pg a l pl md)" "keeps f (set_timezone H pg s)"
    "keeps f (set_locale H pg s)" "keeps f (set_viewport H pg wd ht)" "keeps f (close_page H pg)"
    "keeps f (new_page H u)" "keeps f (browser_cookies H)" "keeps f (CdpSession.set_cookies H cs)"
  unfolding page_defs new_page_def browser_cookies_def CdpSession.set_cookies_def
  by (intro keeps_intros assms)+

lemma keeps_selector [keeps_intros]:
  assumes "frame f"
  shows "keeps f (wait_for_selector H pg s t)"
proof -
  have "keeps f (selector_loop n H pg s t d)" for n d
  proof (induction n)
    case 0
    show ?case by (simp add: keeps_def)
  next
    case (Suc n)
    show ?case unfolding selector_loop.simps by (intro keeps_intros Suc.IH assms)
  qed
  then show ?thesis unfolding wait_for_selector_def by (intro keeps_intros)
qed

lemma keeps_settle [keeps_intros]:
  assumes "frame f"
  shows "keeps f (wait_for_scroll_to_settle H pg)"
proof -
  have "keeps f (settle_loop n H pg d p)" for n d p
  proof (induction n arbitrary: p)
    case 0
    show ?case by (simp add: keeps_def)
  next
    case (Suc n)
    show ?case unfolding settle_loop.simps Let_def by (intro keeps_intros Suc.IH assms)
  qed
  then show ?thesis unfolding wait_for_scroll_to_settle_def by (intro keeps_intros)
qed

lemma keeps_click [keeps_intros]: "frame f \<Longrightarrow> keeps f (human_click N pg s)"
  unfolding human_click_def human_scroll_into_view_def human_move_mouse_def human_settle_def move_along_def
  by (intro keeps_intros)

lemma keeps_solve [keeps_intros]:
  assumes "frame f"
  shows "keeps f (solve_cloudflare_turnstile N pg)"
proof -
  have "keeps f (solve_selectors N pg ss)" for ss
  proof (induction ss)
    case Nil
    show ?case unfolding solve_selectors.simps by (intro keeps_intros)
  next
    case (Cons s ss)
    show ?case unfolding solve_selectors.simps by (intro keeps_intros assms Cons.IH)
  qed
  then show ?thesis by (simp add: solve_cloudflare_turnstile_def)
qed

section \<open>A click travels\<close>

definition move_call :: "page \<Rightarrow> point \<Rightarrow> cdp_call" where
  "move_call pg p =
     (Some (pg_session pg), ''Input.dispatchMouseEvent'', Some (JObj (mouse_params ''mouseMoved'' (pt_x p) (pt_y p))))"

definition button_call :: "page \<Rightarrow> string \<Rightarrow> rat \<Rightarrow> rat \<Rightarrow> cdp_call" where
  "button_call pg event x y =
     (Some (pg_session pg), ''Input.dispatchMouseEvent'',
      Some (JObj (mouse_params event x y
                  @ [(''button'', JStr ''left''), (''buttons'', JInt 1), (''clickCount'', JInt 1)])))"

lemma page_do_calls:
  "page_do H pg m p w = Some (Inr (), w') \<Longrightarrow> w_calls w' = w_calls w @ [(Some (pg_session pg), m, Some p)]"
  by (auto simp: page_do_def page_call_def cdp_send_def abind_Some split: prod.splits)

lemma move_along_calls:
  "move_along N pg d ps w = Some (Inr (), w') \<Longrightarrow> w_calls w' = w_calls w @ map (move_call pg) ps"
proof (induction ps arbitrary: w)
  case (Cons p ps)
  then obtain w1 where m: "move_mouse (nt_host N) pg (pt_x p) (pt_y p) w = Some (Inr (), w1)"
      and r: "move_along N pg d ps (w1\<lparr>w_env := ho_sleep (nt_host N) d (w_env w1)\<rparr>) = Some (Inr (), w')"
    by (auto simp: move_along_def abind_Some)
  show ?case using Cons.IH [OF r] page_do_calls [OF m [unfolded move_mouse_def]]
    by (simp add: move_call_def)
qed (simp add: move_along_def)

lemma click_point_calls:
  "click_point H pg x y w = Some (Inr (), w') \<Longrightarrow>
     w_calls w' = w_calls w @ [move_call pg \<lparr>pt_x = x, pt_y = y\<rparr>,
                               button_call pg ''mousePressed'' x y, button_call pg ''mouseReleased'' x y]"
  by (auto simp: click_point_def move_mouse_def abind_Some move_call_def button_call_def dest!: page_do_calls)

lemma sends_any_selector: "sends (\<lambda>_. True) (element_center H pg s)" "sends (\<lambda>_. True) (scroll_distance_to H pg s)"
  unfolding page_defs by (intro sends_intros; simp)+

lemmas sends_any_center = sends_any_selector(1)

lemma sends_any_draw: "sends P (draw_from g)"
  by (auto simp: sends_def draw_from_def split: prod.splits)

lemma sends_any_settle: "sends (\<lambda>_. True) (settle_loop n H pg d p)"
proof (induction n arbitrary: p)
  case 0
  show ?case by (simp add: sends_def)
next
  case (Suc n)
  show ?case unfolding settle_loop.simps evaluate_def page_call_def Let_def
    by (intro sends_intros Suc.IH; simp)
qed

lemma sends_any_scroll: "sends (\<lambda>_. True) (human_scroll_into_view N pg s)"
  unfolding human_scroll_into_view_def wait_for_scroll_to_settle_def scroll_by_def page_do_def page_call_def
  by (intro sends_intros sends_any_selector sends_any_draw sends_any_settle; simp)


text \<open>A page whose element is in view at a known place.\<close>

definition click_host :: "nat host" where
  "click_host = plain_host\<lparr>ho_reply := (\<lambda>(s, m, p) e.
     (Inr (JObj [(''result'', JObj [(''value'',
        (if e = 0 then JInt 0 else JObj [(''x'', JFloat 7), (''y'', JFloat 9)]))])]), Suc e))\<rparr>"


end
