(* ===== verification/Scraper.thy ===== *)
theory Scraper
  imports Human ProxyPool ClientHints StateModel
begin

text \<open>
  Models the \<open>CloudScraper\<close> and its builder of \<open>src/src/scraper.rs\<close>. The state of its actions is the
  scraper itself: the fields behind mutexes are fields of the record. The local proxy is its port, its
  key pin and the client it forwards through; whether an event sink is attached is \<open>sc_sink\<close>. The state
  store is a value with its two operations.
\<close>

definition RATE_LIMIT_COOLDOWN :: duration where "RATE_LIMIT_COOLDOWN = from_secs 300"
definition PAGE_LOAD_TIMEOUT :: duration where "PAGE_LOAD_TIMEOUT = from_secs 30"

section \<open>State\<close>

record mitm =
  mi_port :: u16
  mi_pin :: "error + string"
  mi_client :: http_client

record 'st store_port =
  so_value :: 'st
  so_get :: "'st \<Rightarrow> string \<Rightarrow> error + domain_state option"
  so_update :: "string \<Rightarrow> (domain_state \<Rightarrow> domain_state) \<Rightarrow> 'st \<Rightarrow> (error + domain_state) \<times> 'st"

record 'st scraper =
  sc_profile :: browser_profile
  sc_proxy :: "mitm option"
  sc_policy :: mitigation_policy
  sc_pool :: proxy_pool
  sc_store :: "'st store_port option"
  sc_sink :: bool
  sc_resolver :: "(string \<Rightarrow> country_code option) option"
  sc_locale :: "locale_bundle option"
  sc_headless :: bool
  sc_debug :: bool

record 'st scraper_builder =
  sb_profile :: "browser_profile option"
  sb_use_tls_proxy :: bool
  sb_debug :: bool
  sb_headless :: bool
  sb_proxies :: "(string \<times> country_code option) list"
  sb_strategy :: rotation_strategy
  sb_max_attempts :: u32
  sb_store :: "'st store_port option"
  sb_sink :: bool
  sb_resolver :: "(string \<Rightarrow> country_code option) option"

definition builder_new :: "'st scraper_builder" where
  "builder_new =
     \<lparr>sb_profile = None, sb_use_tls_proxy = True, sb_debug = False, sb_headless = True,
      sb_proxies = [], sb_strategy = RoundRobin, sb_max_attempts = max_attempts policy_default,
      sb_store = None, sb_sink = False, sb_resolver = None\<rparr>"

definition builder_upstream_proxy :: "string \<Rightarrow> 'st scraper_builder \<Rightarrow> 'st scraper_builder" where
  "builder_upstream_proxy proxy b = b\<lparr>sb_proxies := sb_proxies b @ [(proxy, None)]\<rparr>"

definition builder_with_proxies :: "string list \<Rightarrow> 'st scraper_builder \<Rightarrow> 'st scraper_builder" where
  "builder_with_proxies proxies b = b\<lparr>sb_proxies := sb_proxies b @ map (\<lambda>u. (u, None)) proxies\<rparr>"

definition builder_with_geo_proxies ::
    "(string \<times> country_code) list \<Rightarrow> 'st scraper_builder \<Rightarrow> 'st scraper_builder" where
  "builder_with_geo_proxies proxies b =
     b\<lparr>sb_proxies := sb_proxies b @ map (\<lambda>(u, c). (u, Some c)) proxies\<rparr>"

definition builder_profile :: "browser_profile \<Rightarrow> 'st scraper_builder \<Rightarrow> 'st scraper_builder" where
  "builder_profile p b = b\<lparr>sb_profile := Some p\<rparr>"

definition builder_disable_proxy :: "'st scraper_builder \<Rightarrow> 'st scraper_builder" where
  "builder_disable_proxy b = b\<lparr>sb_use_tls_proxy := False\<rparr>"

definition builder_with_debug :: "bool \<Rightarrow> 'st scraper_builder \<Rightarrow> 'st scraper_builder" where
  "builder_with_debug d b = b\<lparr>sb_debug := d\<rparr>"

definition builder_headless :: "bool \<Rightarrow> 'st scraper_builder \<Rightarrow> 'st scraper_builder" where
  "builder_headless h b = b\<lparr>sb_headless := h\<rparr>"

definition builder_with_geo_resolver ::
    "(string \<Rightarrow> country_code option) \<Rightarrow> 'st scraper_builder \<Rightarrow> 'st scraper_builder" where
  "builder_with_geo_resolver r b = b\<lparr>sb_resolver := Some r\<rparr>"

definition builder_proxy_strategy :: "rotation_strategy \<Rightarrow> 'st scraper_builder \<Rightarrow> 'st scraper_builder" where
  "builder_proxy_strategy strategy b = b\<lparr>sb_strategy := strategy\<rparr>"

definition builder_with_max_challenge_attempts :: "u32 \<Rightarrow> 'st scraper_builder \<Rightarrow> 'st scraper_builder" where
  "builder_with_max_challenge_attempts n b = b\<lparr>sb_max_attempts := n\<rparr>"

definition builder_with_state_store :: "'st store_port \<Rightarrow> 'st scraper_builder \<Rightarrow> 'st scraper_builder" where
  "builder_with_state_store st b = b\<lparr>sb_store := Some st\<rparr>"

definition builder_with_event_sink :: "'st scraper_builder \<Rightarrow> 'st scraper_builder" where
  "builder_with_event_sink b = b\<lparr>sb_sink := True\<rparr>"

section \<open>Launching\<close>

definition launch_browser ::
    "'e net \<Rightarrow> browser_profile \<Rightarrow> mitm option \<Rightarrow> string option \<Rightarrow> bool \<Rightarrow> ('e, unit) act" where
  "launch_browser N p proxy direct_upstream headless =
     (let config = (launch_for_profile p)\<lparr>lc_headless := headless\<rparr> in
      case proxy of
        Some m \<Rightarrow>
          abind (alift (mi_pin m)) (\<lambda>pin.
          start_browser N (config\<lparr>lc_proxy_server := Some (''http://127.0.0.1:'' @ dec (unat (mi_port m))),
                                  lc_trusted_spki := Some pin\<rparr>))
      | None \<Rightarrow>
          (case direct_upstream of
             Some upstream \<Rightarrow> start_browser N (config\<lparr>lc_proxy_server := Some upstream\<rparr>)
           | None \<Rightarrow> start_browser N config))"

definition random_profile_act :: "'e net \<Rightarrow> ('e, browser_profile) act" where
  "random_profile_act N = abind (draw_from (nt_profile N)) (\<lambda>d. aret (random_profile d))"

definition start_proxy ::
    "'e net \<Rightarrow> browser_profile \<Rightarrow> string option \<Rightarrow> bool \<Rightarrow> ('e, mitm) act" where
  "start_proxy N p upstream debug =
     abind (alift (make_client N p upstream)) (\<lambda>client.
     abind (start_mitm N client debug) (\<lambda>(port, pin).
     aret \<lparr>mi_port = port, mi_pin = pin, mi_client = client\<rparr>))"

definition build_scraper :: "'e net \<Rightarrow> 'st scraper_builder \<Rightarrow> ('e, 'st scraper) act" where
  "build_scraper N b =
     abind (case sb_profile b of Some p \<Rightarrow> aret p | None \<Rightarrow> random_profile_act N) (\<lambda>p.
     let pool = with_endpoints (nt_pick N) (sb_proxies b) (sb_strategy b);
         upstream = selected pool;
         loc = resolve_locale (selected_country pool) upstream (sb_resolver b)
     in
     abind (if sb_use_tls_proxy b
            then abind (start_proxy N p upstream (sb_debug b)) (\<lambda>m. aret (Some m))
            else aret None) (\<lambda>proxy.
     abind (launch_browser N p proxy (if proxy = None then upstream else None) (sb_headless b)) (\<lambda>_.
     aret \<lparr>sc_profile = p, sc_proxy = proxy,
           sc_policy = with_proxy_rotation (proxy \<noteq> None \<and> 2 \<le> healthy_count pool)
                         (policy_new (sb_max_attempts b)),
           sc_pool = pool, sc_store = sb_store b, sc_sink = sb_sink b, sc_resolver = sb_resolver b,
           sc_locale = loc, sc_headless = sb_headless b, sc_debug = sb_debug b\<rparr>)))"

section \<open>Pages\<close>

definition apply_client_hints :: "'e net \<Rightarrow> 'st scraper \<Rightarrow> page \<Rightarrow> ('e, unit) act" where
  "apply_client_hints N s pg =
     (case for_profile (sc_profile s) of
        None \<Rightarrow> aret ()
      | Some hints \<Rightarrow>
          abind (set_user_agent (nt_host N) pg (user_agent (sc_profile s))
                   (Some (accept_language (sc_profile s))) (Some (platform (sc_profile s)))
                   (Some (to_cdp_metadata hints))) (\<lambda>_.
          set_viewport (nt_host N) pg (viewport_width (sc_profile s)) (viewport_height (sc_profile s))))"

definition apply_locale_overrides ::
    "'e net \<Rightarrow> 'st scraper \<Rightarrow> page \<Rightarrow> locale_bundle option \<Rightarrow> ('e, unit) act" where
  "apply_locale_overrides N s pg loc =
     (case loc of
        None \<Rightarrow> apply_client_hints N s pg
      | Some l \<Rightarrow>
          abind (set_user_agent (nt_host N) pg (user_agent (sc_profile s))
                   (Some (loc_accept_language l)) (Some (platform (sc_profile s)))
                   (map_option to_cdp_metadata (for_profile (sc_profile s)))) (\<lambda>_.
          abind (set_timezone (nt_host N) pg (loc_timezone l)) (\<lambda>_.
          abind (set_locale (nt_host N) pg (primary_language l)) (\<lambda>_.
          set_viewport (nt_host N) pg (viewport_width (sc_profile s)) (viewport_height (sc_profile s))))))"

definition new_stealth_page :: "'e net \<Rightarrow> 'st scraper \<Rightarrow> ('e, page) act" where
  "new_stealth_page N s =
     abind (new_page (nt_host N) ''about:blank'') (\<lambda>pg.
     let languages = (case sc_locale s of
                        Some l \<Rightarrow> loc_languages l
                      | None \<Rightarrow> languages_from_accept_language (accept_language (sc_profile s)))
     in
     abind (add_init_script (nt_host N) pg (nt_stealth_js N (sc_profile s) languages)) (\<lambda>_.
     abind (apply_locale_overrides N s pg (sc_locale s)) (\<lambda>_.
     aret pg)))"

definition detect_challenge :: "'e net \<Rightarrow> page \<Rightarrow> ('e, challenge_signal) act" where
  "detect_challenge N pg =
     abind (content (nt_host N) pg) (\<lambda>body. aret (detect (from_body body)))"

definition page_host :: "'e net \<Rightarrow> page \<Rightarrow> ('e, string option) act" where
  "page_host N pg =
     abind (atry (page_url (nt_host N) pg)) (\<lambda>r.
     aret (case r of
             Inl _ \<Rightarrow> None
           | Inr text \<Rightarrow> (case nt_url N text of Inl _ \<Rightarrow> None | Inr u \<Rightarrow> u_host u)))"

section \<open>Recording\<close>

definition domain_state_of :: "string \<Rightarrow> ('st scraper, 'e, domain_state option) sact" where
  "domain_state_of host =
     sbind sget (\<lambda>s.
     case sc_store s of
       None \<Rightarrow> sret None
     | Some port \<Rightarrow> sresult (so_get port (so_value port) host))"

definition record_outcome :: "'e net \<Rightarrow> string \<Rightarrow> outcome \<Rightarrow> ('st scraper, 'e, unit) sact" where
  "record_outcome N host out s w =
     (case sc_store s of
        None \<Rightarrow> Some (Inr (), s, w)
      | Some port \<Rightarrow>
          (let now = ho_now (nt_host N) (w_env w);
               proxy = map_option (redact_proxy_url (nt_url N)) (selected (sc_pool s));
               (r, v) = so_update port host (record_state out proxy now RATE_LIMIT_COOLDOWN) (so_value port)
           in Some (case r of Inl e \<Rightarrow> Inl e | Inr _ \<Rightarrow> Inr (),
                    s\<lparr>sc_store := Some (port\<lparr>so_value := v\<rparr>)\<rparr>, w)))"

definition record_for_host ::
    "'e net \<Rightarrow> string option \<Rightarrow> outcome \<Rightarrow> ('st scraper, 'e, unit) sact" where
  "record_for_host N host out =
     (case host of Some h \<Rightarrow> record_outcome N h out | None \<Rightarrow> sret ())"

definition cooldown_remaining :: "'e net \<Rightarrow> string \<Rightarrow> ('st scraper, 'e, duration option) sact" where
  "cooldown_remaining N host =
     sbind (domain_state_of host) (\<lambda>st.
     sbind (slift (now_unix (nt_host N))) (\<lambda>now.
     sret (Option.bind st (\<lambda>d. state_cooldown_remaining d now))))"

section \<open>Rotation\<close>

definition rotate_proxy :: "'e net \<Rightarrow> ('st scraper, 'e, unit) sact" where
  "rotate_proxy N s w =
     (case sc_proxy s of
        None \<Rightarrow> Some (Inl (Challenge ''proxy rotation requires the MITM proxy''), s, w)
      | Some m \<Rightarrow>
          (case rotate_pool (nt_pick N) (sc_pool s) of
             (None, pool) \<Rightarrow>
               Some (Inl (Challenge ''no healthy proxy left to rotate to''), s\<lparr>sc_pool := pool\<rparr>, w)
           | (Some nxt, pool) \<Rightarrow>
               (case make_client N (sc_profile s) (Some nxt) of
                  Inl e \<Rightarrow> Some (Inl e, s\<lparr>sc_pool := pool\<rparr>, w)
                | Inr client \<Rightarrow>
                    Some (Inr (),
                      s\<lparr>sc_proxy := Some (m\<lparr>mi_client := client\<rparr>), sc_pool := pool,
                        sc_locale := resolve_locale (selected_country pool) (Some nxt) (sc_resolver s)\<rparr>,
                      w))))"

text \<open>The fingerprint is rotated by a new scraper that takes over everything but the browser.\<close>

definition rotate_profile_with ::
    "'e net \<Rightarrow> browser_profile \<Rightarrow> 'st scraper \<Rightarrow> ('e, 'st scraper) act" where
  "rotate_profile_with N p s =
     (let upstream = selected (sc_pool s) in
      abind (case sc_proxy s of
               None \<Rightarrow> aret None
             | Some m \<Rightarrow> abind (alift (make_client N p upstream)) (\<lambda>client.
                 aret (Some (m\<lparr>mi_client := client\<rparr>)))) (\<lambda>proxy.
      abind (launch_browser N p proxy (if sc_proxy s = None then upstream else None) (sc_headless s)) (\<lambda>_.
      abind (if sc_sink s then emit (ProfileRotated (user_agent p)) else aret ()) (\<lambda>_.
      aret (s\<lparr>sc_profile := p, sc_proxy := proxy,
              sc_locale := resolve_locale (selected_country (sc_pool s)) upstream (sc_resolver s)\<rparr>)))))"

definition rotate_profile :: "'e net \<Rightarrow> 'st scraper \<Rightarrow> ('e, 'st scraper) act" where
  "rotate_profile N s = abind (random_profile_act N) (\<lambda>p. rotate_profile_with N p s)"

section \<open>The challenge loop\<close>

definition semit :: "scraper_event \<Rightarrow> ('st scraper, 'e, unit) sact" where
  "semit ev = sbind sget (\<lambda>s. swhen (sc_sink s) (slift (emit ev)))"

definition challenge_text :: "error \<Rightarrow> string" where
  "challenge_text e = (case e of Challenge r \<Rightarrow> r | _ \<Rightarrow> error_display e)"

definition rotate_and_reload ::
    "'e net \<Rightarrow> page \<Rightarrow> string option \<Rightarrow> challenge_kind \<Rightarrow> ('st scraper, 'e, unit) sact" where
  "rotate_and_reload N pg host kind =
     sbind (stry (rotate_proxy N)) (\<lambda>rotated.
     case rotated of
       Inl err \<Rightarrow>
         sbind (semit (SolveFailed host kind (challenge_text err))) (\<lambda>_.
         sbind (stry (record_for_host N host Blocked)) (\<lambda>_. sfail err))
     | Inr _ \<Rightarrow>
         sbind sget (\<lambda>s.
         sbind (slift (apply_locale_overrides N s pg (sc_locale s))) (\<lambda>_.
         sbind (semit (ProxyRotated host
                  (map_option (redact_proxy_url (nt_url N)) (selected (sc_pool s))))) (\<lambda>_.
         slift (reload_and_wait (nt_host N) pg True PAGE_LOAD_TIMEOUT)))))"

definition outcome_of_failure :: "challenge_kind \<Rightarrow> outcome" where
  "outcome_of_failure kind = (case kind of RateLimited \<Rightarrow> RateLimitedOutcome | _ \<Rightarrow> Blocked)"

fun solve_loop ::
    "nat \<Rightarrow> 'e net \<Rightarrow> page \<Rightarrow> string option \<Rightarrow> u32 \<Rightarrow> bool \<Rightarrow> ('st scraper, 'e, challenge_signal) sact" where
  "solve_loop 0 N pg host attempt saw = (\<lambda>s w. None)"
| "solve_loop (Suc n) N pg host attempt saw =
     sbind (slift (detect_challenge N pg)) (\<lambda>signal.
     sbind (swhen (is_challenge signal) (semit (ChallengeDetected host (sig_kind signal)))) (\<lambda>_.
     sbind sget (\<lambda>s.
     case decide (sc_policy s) signal attempt of
       Proceed \<Rightarrow>
         sbind (semit (SolveSucceeded host attempt saw)) (\<lambda>_.
         sbind (record_for_host N host (if saw then Challenged else Success)) (\<lambda>_.
         sret signal))
     | Fail reason \<Rightarrow>
         sbind (semit (SolveFailed host (sig_kind signal) reason)) (\<lambda>_.
         sbind (stry (record_for_host N host (outcome_of_failure (sig_kind signal)))) (\<lambda>_.
         sfail (Challenge reason)))
     | Wait delay nxt \<Rightarrow>
         sbind (swhen (sig_kind signal = Turnstile)
                  (sbind (stry (slift (solve_cloudflare_turnstile N pg))) (\<lambda>_. sret ()))) (\<lambda>_.
         sbind (semit (Waiting host (sig_kind signal) delay)) (\<lambda>_.
         sbind (slift (sleep (nt_host N) delay)) (\<lambda>_.
         solve_loop n N pg host nxt True)))
     | RotateProxy nxt \<Rightarrow>
         sbind (rotate_and_reload N pg host (sig_kind signal)) (\<lambda>_.
         solve_loop n N pg host nxt True))))"

text \<open>The fuel is one pass more than the attempts of the policy.\<close>

definition solve_challenge :: "'e net \<Rightarrow> page \<Rightarrow> ('st scraper, 'e, challenge_signal) sact" where
  "solve_challenge N pg =
     sbind (slift (page_host N pg)) (\<lambda>host.
     sbind sget (\<lambda>s.
     solve_loop (Suc (unat (max_attempts (sc_policy s)))) N pg host 0 False))"

section \<open>What every step keeps\<close>

definition steady_step :: "'st scraper \<times> 'e world \<Rightarrow> 'st scraper \<times> 'e world \<Rightarrow> bool" where
  "steady_step x y \<longleftrightarrow>
     sc_policy (fst y) = sc_policy (fst x) \<and> sc_sink (fst y) = sc_sink (fst x)
     \<and> sc_profile (fst y) = sc_profile (fst x)"

definition silent_step :: "'st scraper \<times> 'e world \<Rightarrow> 'st scraper \<times> 'e world \<Rightarrow> bool" where
  "silent_step x y \<longleftrightarrow> steady_step x y \<and> w_log (snd y) = w_log (snd x)"

interpretation steady: step_relation steady_step
  by unfold_locales (auto simp: steady_step_def)

interpretation silent: step_relation silent_step
  by unfold_locales (auto simp: silent_step_def steady_step_def)

lemma silent_lift: "keeps w_log m \<Longrightarrow> silent.runs_in (slift m)"
  by (rule silent.run_lift) (auto simp: silent_step_def steady_step_def keeps_def)

lemma silent_record: "silent.runs_in (record_for_host N host out)"
  by (rule silent.runs_inI)
     (auto simp: record_for_host_def record_outcome_def silent_step_def steady_step_def Let_def
       split: option.splits prod.splits)

lemma silent_rotate: "silent.runs_in (rotate_proxy N)"
  by (rule silent.runs_inI)
     (auto simp: rotate_proxy_def silent_step_def steady_step_def split: option.splits prod.splits sum.splits)

lemma keeps_overrides [keeps_intros]: "frame f \<Longrightarrow> keeps f (apply_locale_overrides N s pg loc)"
  unfolding apply_locale_overrides_def apply_client_hints_def by (intro keeps_intros)

lemma keeps_detect [keeps_intros]: "frame f \<Longrightarrow> keeps f (detect_challenge N pg)"
  unfolding detect_challenge_def by (intro keeps_intros)

lemma keeps_page_host [keeps_intros]: "frame f \<Longrightarrow> keeps f (page_host N pg)"
  unfolding page_host_def by (intro keeps_intros)

lemma returns_overrides [returns_intros]:
  "returns (apply_locale_overrides N s pg loc)" "returns (detect_challenge N pg)" "returns (page_host N pg)"
  "returns (reload_and_wait H pg b t)"
proof -
  have w: "returns (wait H lw t)" "returns (subscribe pg)" for H :: "'x host" and lw t and pg :: page
    by (auto simp: returns_def wait_def subscribe_def split: prod.splits)
  have e: "returns (enable_domain H pg d)" for H :: "'x host" and pg d
    unfolding returns_def enable_domain_def page_call_def abind_def cdp_send_def
    by (auto split: option.splits sum.splits prod.splits)
  show "returns (apply_locale_overrides N s pg loc)" "returns (detect_challenge N pg)" "returns (page_host N pg)"
    unfolding apply_locale_overrides_def apply_client_hints_def detect_challenge_def page_host_def
      set_user_agent_def set_viewport_def set_timezone_def set_locale_def page_do_def page_call_def
    by (intro returns_intros)+
  show "returns (reload_and_wait H pg b t)"
    unfolding reload_and_wait_def watch_load_def reload_def page_do_def page_call_def
    by (intro returns_intros w e)
qed

lemma semit_run [simp]:
  "semit ev s w = Some (Inr (), s, if sc_sink s then w\<lparr>w_log := w_log w @ [ev]\<rparr> else w)"
  by (simp add: semit_def sbind_def swhen_def slift_def)

lemma sreturns_scraper [sreturns_intros]:
  "sreturns (semit ev)" "sreturns (record_for_host N host out)" "sreturns (rotate_proxy N)"
  by (auto simp: sreturns_def record_for_host_def record_outcome_def rotate_proxy_def Let_def
      split: option.splits prod.splits sum.splits)

lemma sreturns_rotate_and_reload [sreturns_intros]: "sreturns (rotate_and_reload N pg host k)"
  unfolding rotate_and_reload_def by (intro sreturns_intros returns_intros)

lemma steady_of_silent: "silent.runs_in m \<Longrightarrow> steady.runs_in m"
  unfolding silent.runs_in_def steady.runs_in_def silent_step_def by blast

lemma steady_emit: "steady.runs_in (semit ev)"
  by (rule steady.runs_inI) (simp add: steady_step_def)

lemma steady_rotate_and_reload: "steady.runs_in (rotate_and_reload N pg host k)"
  unfolding rotate_and_reload_def
  by (intro steady.run_intros steady_emit steady_of_silent silent_record silent_rotate silent_lift
        keeps_intros frames)

section \<open>The challenge loop ends\<close>

lemma sbind_returns:
  assumes "m s w \<noteq> None"
    and "\<And>a s1 w1. m s w = Some (Inr a, s1, w1) \<Longrightarrow> f a s1 w1 \<noteq> None"
  shows "sbind m f s w \<noteq> None"
  using assms by (auto simp: sbind_def split: option.split sum.split)

lemma sreturnsD: "sreturns m \<Longrightarrow> m s w \<noteq> None"
  by (simp add: sreturns_def)

definition wait_step :: "'e net \<Rightarrow> page \<Rightarrow> string option \<Rightarrow> challenge_kind \<Rightarrow> duration \<Rightarrow> ('st scraper, 'e, unit) sact" where
  "wait_step N pg host kind delay =
     sbind (swhen (kind = Turnstile) (sbind (stry (slift (solve_cloudflare_turnstile N pg))) (\<lambda>_. sret ()))) (\<lambda>_.
     sbind (semit (Waiting host kind delay)) (\<lambda>_.
     slift (sleep (nt_host N) delay)))"

lemma sbind_assoc: "sbind (sbind m f) g = sbind m (\<lambda>a. sbind (f a) g)"
  by (intro ext) (auto simp: sbind_def split: option.splits sum.splits prod.splits)

lemma steady_wait: "steady.runs_in (wait_step N pg host k d)"
  unfolding wait_step_def
  by (intro steady.run_intros steady_emit steady_of_silent silent_lift keeps_intros frames)

lemma sreturns_wait: "fuel_ok (nt_host N) \<Longrightarrow> sreturns (wait_step N pg host k d)"
  unfolding wait_step_def by (intro sreturns_intros returns_intros)

text \<open>One pass of the loop, with its continuation made explicit.\<close>

definition after_decision ::
    "'e net \<Rightarrow> page \<Rightarrow> string option \<Rightarrow> u32 \<Rightarrow> bool \<Rightarrow> (u32 \<Rightarrow> ('st scraper, 'e, challenge_signal) sact)
      \<Rightarrow> challenge_signal \<Rightarrow> action \<Rightarrow> ('st scraper, 'e, challenge_signal) sact" where
  "after_decision N pg host attempt saw continue signal act =
     (case act of
       Proceed \<Rightarrow>
         sbind (semit (SolveSucceeded host attempt saw)) (\<lambda>_.
         sbind (record_for_host N host (if saw then Challenged else Success)) (\<lambda>_.
         sret signal))
     | Fail reason \<Rightarrow>
         sbind (semit (SolveFailed host (sig_kind signal) reason)) (\<lambda>_.
         sbind (stry (record_for_host N host (outcome_of_failure (sig_kind signal)))) (\<lambda>_.
         sfail (Challenge reason)))
     | Wait delay nxt \<Rightarrow>
         sbind (wait_step N pg host (sig_kind signal) delay) (\<lambda>_. continue nxt)
     | RotateProxy nxt \<Rightarrow>
         sbind (rotate_and_reload N pg host (sig_kind signal)) (\<lambda>_. continue nxt))"

lemma solve_loop_Suc:
  "solve_loop (Suc n) N pg host attempt saw =
     sbind (slift (detect_challenge N pg)) (\<lambda>signal.
     sbind (swhen (is_challenge signal) (semit (ChallengeDetected host (sig_kind signal)))) (\<lambda>_.
     sbind sget (\<lambda>s.
     after_decision N pg host attempt saw (\<lambda>nxt. solve_loop n N pg host nxt True) signal
       (decide (sc_policy s) signal attempt))))"
  by (simp add: after_decision_def wait_step_def sbind_assoc cong: action.case_cong)

declare solve_loop.simps(2) [simp del]

lemma after_decision_returns:
  fixes continue :: "u32 \<Rightarrow> ('st scraper, 'e, challenge_signal) sact"
  assumes "fuel_ok (nt_host N)"
    and "\<And>d nxt (s' :: 'st scraper) w'. act = Wait d nxt \<or> act = RotateProxy nxt \<Longrightarrow>
           sc_policy s' = sc_policy s \<Longrightarrow> continue nxt s' w' \<noteq> None"
  shows "after_decision N pg host attempt saw continue signal act s w \<noteq> None"
proof (cases act)
  case Proceed
  have "sreturns (after_decision N pg host attempt saw continue signal act)"
    unfolding Proceed after_decision_def action.case by (intro sreturns_intros)
  then show ?thesis by (rule sreturnsD)
next
  case (Fail r)
  have "sreturns (after_decision N pg host attempt saw continue signal act)"
    unfolding Fail after_decision_def action.case by (intro sreturns_intros)
  then show ?thesis by (rule sreturnsD)
next
  case (Wait d nxt)
  show ?thesis
    unfolding Wait after_decision_def action.case
  proof (rule sbind_returns)
    show "wait_step N pg host (sig_kind signal) d s w \<noteq> None"
      by (rule sreturnsD [OF sreturns_wait [OF assms(1)]])
    fix u s1 w1
    assume "wait_step N pg host (sig_kind signal) d s w = Some (Inr u, s1, w1)"
    from steady.runs_inD [OF steady_wait this] show "continue nxt s1 w1 \<noteq> None"
      by (intro assms(2)) (auto simp: Wait steady_step_def)
  qed
next
  case (RotateProxy nxt)
  show ?thesis
    unfolding RotateProxy after_decision_def action.case
  proof (rule sbind_returns)
    show "rotate_and_reload N pg host (sig_kind signal) s w \<noteq> None"
      by (intro sreturnsD sreturns_intros)
    fix u s1 w1
    assume "rotate_and_reload N pg host (sig_kind signal) s w = Some (Inr u, s1, w1)"
    from steady.runs_inD [OF steady_rotate_and_reload this] show "continue nxt s1 w1 \<noteq> None"
      by (intro assms(2)) (auto simp: RotateProxy steady_step_def)
  qed
qed

lemma solve_loop_returns:
  fixes s :: "'st scraper"
  assumes "fuel_ok (nt_host N)"
  shows "unat (max_attempts (sc_policy s)) - unat attempt < n \<Longrightarrow>
    solve_loop n N pg host attempt saw s w \<noteq> None"
proof (induction n arbitrary: s w attempt saw)
  case 0
  then show ?case by simp
next
  case (Suc n)
  have again: "solve_loop n N pg host nxt True s2 w2 \<noteq> None"
    if "decide (sc_policy s) signal attempt = Wait d nxt \<or> decide (sc_policy s) signal attempt = RotateProxy nxt"
      and "sc_policy s2 = sc_policy s" for signal d nxt w2 and s2 :: "'st scraper"
    using Suc.IH [of s2 nxt True w2] Suc.prems policy.remaining_decreases [OF that(1)] that(2) by simp
  have decided: "sbind sget (\<lambda>s. after_decision N pg host attempt saw (\<lambda>nxt. solve_loop n N pg host nxt True)
      signal (decide (sc_policy s) signal attempt)) s w1 \<noteq> None" for signal w1
    using after_decision_returns [OF assms again] by (auto simp: sbind_def)
  have "slift (detect_challenge N pg) s w \<noteq> None"
    by (intro sreturnsD sreturns_intros returns_intros)
  then show ?case
    unfolding solve_loop_Suc
  proof (rule sbind_returns)
    fix signal s1 w1
    assume "slift (detect_challenge N pg) s w = Some (Inr signal, s1, w1)"
    then have s1: "s1 = s" by (simp add: slift_Some)
    have "swhen (is_challenge signal) (semit (ChallengeDetected host (sig_kind signal))) s1 w1 \<noteq> None"
      by (intro sreturnsD sreturns_intros)
    then show "sbind (swhen (is_challenge signal) (semit (ChallengeDetected host (sig_kind signal)))) (\<lambda>_.
      sbind sget (\<lambda>s. after_decision N pg host attempt saw (\<lambda>nxt. solve_loop n N pg host nxt True)
        signal (decide (sc_policy s) signal attempt))) s1 w1 \<noteq> None"
    proof (rule sbind_returns)
      fix u s2 w2
      assume "swhen (is_challenge signal) (semit (ChallengeDetected host (sig_kind signal))) s1 w1
        = Some (Inr u, s2, w2)"
      then have "s2 = s" using s1 by (auto simp: swhen_def split: if_splits)
      then show "sbind sget (\<lambda>s. after_decision N pg host attempt saw (\<lambda>nxt. solve_loop n N pg host nxt True)
        signal (decide (sc_policy s) signal attempt)) s2 w2 \<noteq> None"
        using decided by simp
    qed
  qed
qed

lemma solve_challenge_total:
  assumes "fuel_ok (nt_host N)"
  shows "solve_challenge N pg s w \<noteq> None"
proof -
  have "slift (page_host N pg) s w \<noteq> None"
    by (intro sreturnsD sreturns_intros returns_intros)
  then show ?thesis
    unfolding solve_challenge_def
  proof (rule sbind_returns)
    fix host s1 w1
    show "sbind sget (\<lambda>s. solve_loop (Suc (unat (max_attempts (sc_policy s)))) N pg host 0 False) s1 w1 \<noteq> None"
      using solve_loop_returns [OF assms, of s1 0 "Suc (unat (max_attempts (sc_policy s1)))"]
      by (simp add: sbind_def)
  qed
qed

text \<open>C25. Solving a challenge always comes to an answer: with clocks that advance and room for the
polling of the selectors, the loop returns within one pass more than the attempts of the policy,
whatever the browser answers, however often it is challenged and whether or not proxies rotate.\<close>

theorem solve_challenge_returns:
  assumes "fuel_ok (nt_host N)"
  shows "solve_challenge N pg s w \<noteq> None"
  by (rule solve_challenge_total [OF assms])

definition sample_scraper :: "unit scraper" where
  "sample_scraper =
     \<lparr>sc_profile = random_profile \<lparr>d_ua = 1, d_coin = True, d_dims = 0, d_cores = 0, d_memory = 0\<rparr>,
      sc_proxy = None, sc_policy = policy_default,
      sc_pool = with_endpoints (\<lambda>n. 0) [] RoundRobin, sc_store = None, sc_sink = True,
      sc_resolver = None, sc_locale = None, sc_headless = True, sc_debug = False\<rparr>"

definition sample_page :: page where "sample_page = \<lparr>pg_target = ''T1'', pg_session = ''S1''\<rparr>"

lemma plain_fuel: "fuel_ok (nt_host plain_net)"
  by (simp add: fuel_ok_def clock_ok_def plain_net_def plain_host_def)

theorem solve_challenge_returns_witness:
  "solve_challenge plain_net sample_page sample_scraper plain_world \<noteq> None"
  using solve_challenge_returns [OF plain_fuel] .

section \<open>What the loop reports\<close>

fun ordinary :: "scraper_event \<Rightarrow> bool" where
  "ordinary (SolveSucceeded _ _ _) = False"
| "ordinary (SolveFailed _ _ _) = False"
| "ordinary _ = True"

fun attempt_event :: "scraper_event \<Rightarrow> bool" where
  "attempt_event (Waiting _ _ _) = True"
| "attempt_event (ProxyRotated _ _) = True"
| "attempt_event _ = False"

definition attempts_in :: "scraper_event list \<Rightarrow> nat" where
  "attempts_in evs = length (filter attempt_event evs)"

text \<open>
  The events of a run that began with \<open>attempt\<close> attempts made: nothing follows a verdict, the attempts
  stay within the budget, and a success reports the attempts exactly.
\<close>

definition trace_ok ::
    "string option \<Rightarrow> nat \<Rightarrow> u32 \<Rightarrow> bool \<Rightarrow> error + challenge_signal \<Rightarrow> scraper_event list \<Rightarrow> bool" where
  "trace_ok host budget attempt saw r evs \<longleftrightarrow>
     list_all ordinary (butlast evs) \<and> unat attempt + attempts_in evs \<le> budget \<and>
     (case r of
        Inl _ \<Rightarrow> True
      | Inr signal \<Rightarrow>
          \<not> is_challenge signal \<and> evs \<noteq> [] \<and>
          (\<exists>k. last evs = SolveSucceeded host k (saw \<or> k \<noteq> attempt)
               \<and> unat k = unat attempt + attempts_in evs))"

lemma attempts_in_simps [simp]:
  "attempts_in [] = 0" "attempts_in (e # es) = (if attempt_event e then Suc (attempts_in es) else attempts_in es)"
  "attempts_in (es @ fs) = attempts_in es + attempts_in fs"
  by (simp_all add: attempts_in_def)

lemma trace_ok_later:
  assumes "trace_ok host budget nxt True r evs" "unat nxt = Suc (unat attempt)"
    and "list_all ordinary pre" "attempts_in pre = 0" "ordinary a" "attempt_event a"
  shows "trace_ok host budget attempt saw r (pre @ a # evs)"
proof -
  have b: "list_all ordinary (butlast (pre @ a # evs))"
    using assms(1,3,5) by (simp add: trace_ok_def butlast_append)
  have n: "unat attempt + attempts_in (pre @ a # evs) = unat nxt + attempts_in evs"
    using assms(2,4,6) by simp
  have le: "unat attempt + attempts_in (pre @ a # evs) \<le> budget"
    unfolding n using assms(1) by (simp add: trace_ok_def)
  show ?thesis
  proof (cases r)
    case (Inl e)
    then show ?thesis using b le by (simp only: trace_ok_def sum.case simp_thms)
  next
    case (Inr signal)
    from assms(1) obtain k where k: "last evs = SolveSucceeded host k True"
        "unat k = unat nxt + attempts_in evs" "evs \<noteq> []" "\<not> is_challenge signal"
      unfolding Inr trace_ok_def sum.case simp_thms by blast
    have "k \<noteq> attempt" using k(2) assms(2) by auto
    then have "last (pre @ a # evs) = SolveSucceeded host k (saw \<or> k \<noteq> attempt)"
      using k(1,3) by simp
    moreover have "unat k = unat attempt + attempts_in (pre @ a # evs)" unfolding n by (rule k(2))
    ultimately show ?thesis using b le k(4) unfolding Inr trace_ok_def sum.case by blast
  qed
qed

lemma trace_ok_failed:
  "list_all ordinary (butlast evs) \<Longrightarrow> unat attempt + attempts_in evs \<le> budget
     \<Longrightarrow> trace_ok host budget attempt saw (Inl e) evs"
  by (simp add: trace_ok_def)

lemma silent_solver: "silent.runs_in (swhen b (sbind (stry (slift (solve_cloudflare_turnstile N pg))) (\<lambda>_. sret ())))"
  by (intro silent.run_intros silent_lift keeps_intros frames)

lemma wait_step_run:
  assumes "wait_step N pg host k d s w = Some (r, s', w')" "sc_sink s"
  shows "r = Inr () \<and> steady_step (s, w) (s', w') \<and> w_log w' = w_log w @ [Waiting host k d]"
proof -
  let ?m = "swhen (k = Turnstile) (sbind (stry (slift (solve_cloudflare_turnstile N pg))) (\<lambda>_. sret ()))"
  have no_error: "?m s w \<noteq> Some (Inl e, s1, w1)" for e s1 w1
    by (auto simp: swhen_def sbind_Some stry_Some)
  obtain u s1 w1 where m: "?m s w = Some (Inr u, s1, w1)"
    and rest: "sbind (semit (Waiting host k d)) (\<lambda>_. slift (sleep (nt_host N) d)) s1 w1 = Some (r, s', w')"
    using assms(1) no_error unfolding wait_step_def by (subst (asm) sbind_Some) blast
  have "silent_step (s, w) (s1, w1)" by (rule silent.runs_inD [OF silent_solver m])
  then show ?thesis using rest assms(2)
    by (auto simp: sbind_def slift_def silent_step_def steady_step_def)
qed

lemma rotate_step_run:
  fixes s :: "'st scraper"
  assumes "rotate_and_reload N pg host k s w = Some (r, s', w')" "sc_sink s"
  shows "steady_step (s, w) (s', w')
    \<and> (if is_ok r then \<exists>u. w_log w' = w_log w @ [ProxyRotated host u]
       else \<exists>evs. w_log w' = w_log w @ evs \<and> length evs \<le> 1 \<and> attempts_in evs \<le> 1)"
proof -
  have steady: "steady_step (s, w) (s', w')" by (rule steady.runs_inD [OF steady_rotate_and_reload assms(1)])
  obtain q s1 w1 where rot: "rotate_proxy N s w = Some (q, s1, w1)"
    and rest: "(case q of
       Inl err \<Rightarrow>
         sbind (semit (SolveFailed host k (challenge_text err))) (\<lambda>_.
         sbind (stry (record_for_host N host Blocked)) (\<lambda>_. sfail err))
     | Inr _ \<Rightarrow>
         sbind sget (\<lambda>s.
         sbind (slift (apply_locale_overrides N s pg (sc_locale s))) (\<lambda>_.
         sbind (semit (ProxyRotated host
                  (map_option (redact_proxy_url (nt_url N)) (selected (sc_pool s))))) (\<lambda>_.
         slift (reload_and_wait (nt_host N) pg True PAGE_LOAD_TIMEOUT))))) s1 w1 = Some (r, s', w')"
    using assms(1) unfolding rotate_and_reload_def by (auto simp: sbind_Some stry_Some)
  have s1: "silent_step (s, w) (s1, w1)" by (rule silent.runs_inD [OF silent_rotate rot])
  then have sink: "sc_sink s1" and log1: "w_log w1 = w_log w"
    using assms(2) by (simp_all add: silent_step_def steady_step_def)
  show ?thesis
  proof (cases q)
    case (Inl err)
    have rec: "w_log w3 = w_log w2" if "record_for_host N host Blocked s2 w2 = Some (a, s3, w3)"
      for a w2 w3 and s2 s3 :: "'st scraper"
      using silent.runs_inD [OF silent_record that] by (simp add: silent_step_def)
    have "\<exists>e. r = Inl e \<and> w_log w' = w_log w @ [SolveFailed host k (challenge_text err)]"
      using rest sink log1 rec unfolding Inl
      by (auto simp: sbind_Some stry_Some)
    then show ?thesis using steady by (auto intro!: exI [of _ "[SolveFailed host k (challenge_text err)]"])
  next
    case (Inr u)
    let ?ev = "ProxyRotated host (map_option (redact_proxy_url (nt_url N)) (selected (sc_pool s1)))"
    have o: "w_log w3 = w_log w2"
      if "apply_locale_overrides N s1 pg (sc_locale s1) w2 = Some (a, w3)" for a w2 w3
      by (rule keepsD [OF keeps_overrides [OF frames(1)] that])
    have l: "w_log w3 = w_log w2"
      if "reload_and_wait (nt_host N) pg True PAGE_LOAD_TIMEOUT w2 = Some (a, w3)" for a w2 w3
    proof (rule keepsD)
      show "keeps w_log (reload_and_wait (nt_host N) pg True PAGE_LOAD_TIMEOUT)"
        by (intro keeps_intros frames)
    qed (rule that)
    have "(\<exists>e. r = Inl e \<and> w_log w' = w_log w) \<or> w_log w' = w_log w @ [?ev]"
      using rest sink log1 unfolding Inr
      by (auto simp: sbind_Some slift_Some dest!: o l)
    then show ?thesis using steady by (auto intro: exI [of _ "[]"] exI [of _ "[?ev]"])
  qed
qed

lemma solve_loop_trace:
  fixes s :: "'st scraper"
  shows "solve_loop n N pg host attempt saw s w = Some (r, s', w') \<Longrightarrow> sc_sink s \<Longrightarrow>
     unat attempt \<le> unat (max_attempts (sc_policy s)) \<Longrightarrow>
     \<exists>evs. w_log w' = w_log w @ evs \<and> trace_ok host (unat (max_attempts (sc_policy s))) attempt saw r evs"
proof (induction n arbitrary: s w attempt saw)
  case 0
  then show ?case by simp
next
  case (Suc n)
  let ?b = "unat (max_attempts (sc_policy s))"
  have log_detect: "w_log w1 = w_log w" if "detect_challenge N pg w = Some (a, w1)" for a w1
    by (rule keepsD [OF keeps_detect [OF frames(1)] that])
  from Suc.prems(1) [unfolded solve_loop_Suc] consider
      (down) e where "detect_challenge N pg w = Some (Inl e, w')" "r = Inl e"
    | (seen) signal w1 where "detect_challenge N pg w = Some (Inr signal, w1)"
        "sbind (swhen (is_challenge signal) (semit (ChallengeDetected host (sig_kind signal)))) (\<lambda>_.
         sbind sget (\<lambda>s. after_decision N pg host attempt saw (\<lambda>nxt. solve_loop n N pg host nxt True) signal
           (decide (sc_policy s) signal attempt))) s w1 = Some (r, s', w')"
    by (auto simp: sbind_Some [of "slift _"] slift_Some)
  then show ?case
  proof cases
    case down
    then show ?thesis using log_detect Suc.prems(3) by (intro exI [of _ "[]"]) (simp add: trace_ok_def)
  next
    case seen
    define pre where "pre = (if is_challenge signal then [ChallengeDetected host (sig_kind signal)] else [])"
    have pre: "list_all ordinary pre" "attempts_in pre = 0" by (simp_all add: pre_def)
    obtain w2 where w2: "w_log w2 = w_log w @ pre"
      and after: "after_decision N pg host attempt saw (\<lambda>nxt. solve_loop n N pg host nxt True) signal
           (decide (sc_policy s) signal attempt) s w2 = Some (r, s', w')"
    proof -
      from seen(2) Suc.prems(2) have "after_decision N pg host attempt saw (\<lambda>nxt. solve_loop n N pg host nxt True)
         signal (decide (sc_policy s) signal attempt) s
         (if is_challenge signal then w1\<lparr>w_log := w_log w1 @ pre\<rparr> else w1) = Some (r, s', w')"
        by (auto simp: sbind_def swhen_def pre_def split: if_splits)
      then show ?thesis using log_detect [OF seen(1)]
        by (intro that [of "if is_challenge signal then w1\<lparr>w_log := w_log w1 @ pre\<rparr> else w1"])
           (auto simp: pre_def)
    qed
    have rec: "w_log w3 = w_log w2" if "record_for_host N host out s2 w2 = Some (a, s3, w3)" 
      for a out w2 w3 and s2 s3 :: "'st scraper"
      using silent.runs_inD [OF silent_record that] by (simp add: silent_step_def)
    show ?thesis
    proof (cases "decide (sc_policy s) signal attempt")
      case Proceed
      then have "\<not> is_challenge signal" using policy.proceed_iff by blast
      moreover have "w_log w' = w_log w @ [SolveSucceeded host attempt saw] \<and> (is_ok r \<longrightarrow> r = Inr signal)"
        using after w2 Suc.prems(2) calculation unfolding Proceed after_decision_def action.case
        by (auto simp: sbind_Some pre_def dest!: rec)
      ultimately show ?thesis using Suc.prems(3)
        by (intro exI [of _ "[SolveSucceeded host attempt saw]"])
           (auto simp: trace_ok_def split: sum.split)
    next
      case (Fail reason)
      have "w_log w' = w_log w @ pre @ [SolveFailed host (sig_kind signal) reason] \<and> (\<exists>e. r = Inl e)"
        using after w2 Suc.prems(2) unfolding Fail after_decision_def action.case
        by (auto simp: sbind_Some stry_Some dest!: rec)
      then show ?thesis using pre Suc.prems(3)
        by (intro exI [of _ "pre @ [SolveFailed host (sig_kind signal) reason]"])
           (auto intro!: trace_ok_failed simp: butlast_append)
    next
      case (Wait d nxt)
      from after obtain r1 s1 w3 where ws: "wait_step N pg host (sig_kind signal) d s w2 = Some (r1, s1, w3)"
        and rest: "r1 = Inr () \<Longrightarrow> solve_loop n N pg host nxt True s1 w3 = Some (r, s', w')"
        unfolding Wait after_decision_def action.case by (auto simp: sbind_Some)
      note ws = wait_step_run [OF ws Suc.prems(2)]
      have nx: "unat nxt = Suc (unat attempt)" "unat nxt \<le> ?b"
        using policy.next_attempt Wait by blast+
      obtain evs where "w_log w' = w_log w3 @ evs" "trace_ok host ?b nxt True r evs"
        using Suc.IH [OF rest] ws nx(2) Suc.prems(2) by (auto simp: steady_step_def)
      then show ?thesis using ws w2 trace_ok_later [OF _ nx(1) pre, of host ?b r evs "Waiting host (sig_kind signal) d"]
        by (intro exI [of _ "pre @ Waiting host (sig_kind signal) d # evs"]) simp
    next
      case (RotateProxy nxt)
      from after obtain r1 s1 w3 where rs: "rotate_and_reload N pg host (sig_kind signal) s w2 = Some (r1, s1, w3)"
        and rest: "(\<exists>e. r1 = Inl e \<and> r = Inl e \<and> s' = s1 \<and> w' = w3)
           \<or> (\<exists>u. r1 = Inr u \<and> solve_loop n N pg host nxt True s1 w3 = Some (r, s', w'))"
        unfolding RotateProxy after_decision_def action.case by (auto simp: sbind_Some)
      note rs = rotate_step_run [OF rs Suc.prems(2)]
      have nx: "unat nxt = Suc (unat attempt)" "unat nxt \<le> ?b"
        using policy.next_attempt RotateProxy by blast+
      from rest show ?thesis
      proof (elim disjE exE conjE)
        fix e assume e: "r1 = Inl e" "r = Inl e" "w' = w3"
        then obtain evs where evs: "w_log w' = w_log w2 @ evs" "length evs \<le> 1" "attempts_in evs \<le> 1"
          using rs by auto
        have "list_all ordinary (butlast (pre @ evs))"
          using pre(1) evs(2) by (cases evs) (auto simp: butlast_append list_all_iff in_set_butlastD)
        then show ?thesis using e(2) evs w2 nx pre(2)
          by (intro exI [of _ "pre @ evs"]) (auto intro!: trace_ok_failed)
      next
        fix u assume u: "r1 = Inr u" "solve_loop n N pg host nxt True s1 w3 = Some (r, s', w')"
        then obtain x where x: "w_log w3 = w_log w2 @ [ProxyRotated host x]" using rs by auto
        obtain evs where "w_log w' = w_log w3 @ evs" "trace_ok host ?b nxt True r evs"
          using Suc.IH [OF u(2)] rs nx(2) Suc.prems(2) by (auto simp: steady_step_def)
        then show ?thesis using x w2 trace_ok_later [OF _ nx(1) pre, of host ?b r evs "ProxyRotated host x"]
          by (intro exI [of _ "pre @ ProxyRotated host x # evs"]) simp
      qed
    qed
  qed
qed



end
