(* ===== verification/Egress.thy ===== *)
theory Egress
  imports Scraper
begin

text \<open>
  The egress of a scraper: the proxy its traffic leaves by, the client that speaks through it and the
  locale the pages claim must tell one story. The invariant \<open>egress_agrees\<close> says so; the builder
  establishes it, the challenge loop and a change of profile keep it, and the pages are prepared from
  it. A rotation that fails in the middle is the exception, shown at the end.
\<close>

section \<open>The invariant\<close>

definition egress_agrees :: "'e net \<Rightarrow> 'st scraper \<Rightarrow> bool" where
  "egress_agrees N s \<longleftrightarrow>
     (case sc_proxy s of
        None \<Rightarrow> True
      | Some m \<Rightarrow> make_client N (sc_profile s) (selected (sc_pool s)) = Inr (mi_client m)) \<and>
     sc_locale s = resolve_locale (selected_country (sc_pool s)) (selected (sc_pool s)) (sc_resolver s)"

text \<open>What a browser is launched with: the profile's agent, and the one way out it is given.\<close>

definition launched_for :: "launch_config \<Rightarrow> browser_profile \<Rightarrow> mitm option \<Rightarrow> string option \<Rightarrow> bool" where
  "launched_for cfg p proxy upstream \<longleftrightarrow>
     lc_user_agent cfg = Some (user_agent p) \<and>
     (case proxy of
        Some m \<Rightarrow> lc_proxy_server cfg = Some (''http://127.0.0.1:'' @ dec (unat (mi_port m)))
                  \<and> Inr (the (lc_trusted_spki cfg)) = mi_pin m \<and> lc_trusted_spki cfg \<noteq> None
      | None \<Rightarrow> lc_proxy_server cfg = upstream \<and> lc_trusted_spki cfg = None)"

lemma start_browser_run: "start_browser N cfg w = Some (r, w') \<Longrightarrow> w_launched w' = w_launched w @ [cfg]"
  by (cases "nt_launch N cfg (w_env w)") (auto simp: start_browser_def)

lemma start_mitm_run: "start_mitm N c d w = Some (r, w') \<Longrightarrow> w_launched w' = w_launched w"
  by (cases "nt_start_proxy N c d (w_env w)") (auto simp: start_mitm_def)

lemma launch_browser_run:
  assumes "launch_browser N p proxy up hl w = Some (Inr (), w')"
  shows "\<exists>cfg. w_launched w' = w_launched w @ [cfg] \<and> launched_for cfg p proxy up"
  using assms
  by (cases proxy; cases up)
     (auto simp: launch_browser_def launch_for_profile_def launch_config_default_def
      launched_for_def abind_Some Let_def dest!: start_browser_run)

lemma start_proxy_run:
  assumes "start_proxy N p up debug w = Some (Inr m, w')"
  shows "make_client N p up = Inr (mi_client m) \<and> w_launched w' = w_launched w"
  using assms by (auto simp: start_proxy_def abind_Some dest: start_mitm_run)

lemma profile_run:
  assumes "(case q of Some p \<Rightarrow> aret p | None \<Rightarrow> random_profile_act N) w = Some (Inr p, w')"
  shows "w_launched w' = w_launched w"
  using assms
  by (auto simp: random_profile_act_def draw_from_def abind_Some split: option.splits prod.splits)

lemma build_scraper_run:
  assumes "build_scraper N b w = Some (Inr s, w')"
  obtains cfg where "w_launched w' = w_launched w @ [cfg]"
    "launched_for cfg (sc_profile s) (sc_proxy s) (if sc_proxy s = None then selected (sc_pool s) else None)"
    "egress_agrees N s"
proof -
  let ?pool = "with_endpoints (nt_pick N) (sb_proxies b) (sb_strategy b)"
  from assms obtain p w1 proxy w2 where
      p: "(case sb_profile b of Some p \<Rightarrow> aret p | None \<Rightarrow> random_profile_act N) w = Some (Inr p, w1)"
    and x: "(if sb_use_tls_proxy b
         then abind (start_proxy N p (selected ?pool) (sb_debug b)) (\<lambda>m. aret (Some m))
         else aret None) w1 = Some (Inr proxy, w2)"
    and l: "launch_browser N p proxy (if proxy = None then selected ?pool else None) (sb_headless b) w2
         = Some (Inr (), w')"
    and s: "sc_profile s = p" "sc_proxy s = proxy" "sc_pool s = ?pool" "sc_resolver s = sb_resolver b"
       "sc_locale s = resolve_locale (selected_country ?pool) (selected ?pool) (sb_resolver b)"
    unfolding build_scraper_def Let_def abind_Some [of "case _ of Some p \<Rightarrow> _ p | None \<Rightarrow> _"]
      abind_Some [of "if _ then _ else _"] abind_Some [of "launch_browser _ _ _ _ _"]
    by (auto simp del: not_None_eq)
  have x': "w_launched w2 = w_launched w1"
    "\<And>m. proxy = Some m \<Longrightarrow> make_client N p (selected ?pool) = Inr (mi_client m)"
    using x by (auto simp: abind_Some dest: start_proxy_run split: if_splits)
  obtain cfg where "w_launched w' = w_launched w2 @ [cfg]"
      "launched_for cfg p proxy (if proxy = None then selected ?pool else None)"
    using launch_browser_run [OF l] by blast
  moreover have "egress_agrees N s"
    using x'(2) unfolding egress_agrees_def s by (simp split: option.split)
  ultimately show ?thesis using that x'(1) profile_run [OF p] unfolding s by metis
qed

text \<open>C19. A scraper that was built has one way out and one story: exactly one browser was launched, for
the scraper's own User-Agent; when there is a local proxy the browser uses that and trusts its key alone,
and the client it forwards through is the one of the profile and the selected proxy; without it the browser
goes through the selected proxy itself; the locale is that of the selected proxy's country.\<close>

theorem built_scraper_agrees:
  assumes "build_scraper N b w = Some (Inr s, w')"
  shows "egress_agrees N s
    \<and> (\<exists>cfg. w_launched w' = w_launched w @ [cfg]
         \<and> launched_for cfg (sc_profile s) (sc_proxy s)
              (if sc_proxy s = None then selected (sc_pool s) else None))"
  using build_scraper_run [OF assms] by metis

lemma plain_build:
  "\<exists>s w'. build_scraper plain_net (builder_new :: unit scraper_builder) plain_world = Some (Inr s, w')
     \<and> sc_proxy s \<noteq> None"
  by (simp add: build_scraper_def builder_new_def random_profile_act_def draw_from_def plain_net_def
      plain_world_def start_proxy_def make_client_def build_impersonation_client_def start_mitm_def
      launch_browser_def start_browser_def abind_def Let_def)

theorem built_scraper_agrees_witness:
  "\<exists>s w'. build_scraper plain_net (builder_new :: unit scraper_builder) plain_world = Some (Inr s, w')
     \<and> egress_agrees plain_net s \<and> length (w_launched w') = 1"
proof -
  obtain s w' where run: "build_scraper plain_net (builder_new :: unit scraper_builder) plain_world
      = Some (Inr s, w')"
    using plain_build by blast
  have "w_launched plain_world = []" by (simp add: plain_world_def)
  then show ?thesis using run built_scraper_agrees [OF run] by auto
qed

section \<open>Rotation keeps it\<close>

lemma rotate_pool_selected: "rotate_pool draw p = (r, q) \<Longrightarrow> selected q = r"
  by (auto simp: rotate_pool_def Let_def selected_def)

lemma rotate_proxy_agrees:
  assumes "rotate_proxy N s w = Some (Inr u, s', w')"
  shows "egress_agrees N s'"
  using assms rotate_pool_selected [of "nt_pick N" "sc_pool s"]
  by (auto simp: rotate_proxy_def egress_agrees_def split: option.splits prod.splits sum.splits)

text \<open>Recording an outcome touches the store alone.\<close>

definition store_step :: "'st scraper \<times> 'e world \<Rightarrow> 'st scraper \<times> 'e world \<Rightarrow> bool" where
  "store_step x y \<longleftrightarrow> fst x\<lparr>sc_store := None\<rparr> = fst y\<lparr>sc_store := None\<rparr>"

interpretation store: step_relation store_step
  by unfold_locales (simp_all add: store_step_def)

lemma store_lift: "store.runs_in (slift m)"
  by (rule store.run_lift) (simp add: store_step_def)

lemma store_emit: "store.runs_in (semit ev)"
  by (rule store.runs_inI) (simp add: store_step_def)

lemma store_record: "store.runs_in (record_for_host N host out)"
  by (rule store.runs_inI)
     (auto simp: record_for_host_def record_outcome_def store_step_def Let_def
       split: option.splits prod.splits)

lemma store_wait: "store.runs_in (wait_step N pg host k d)"
  unfolding wait_step_def by (intro store.run_intros store_lift store_emit)

lemma store_step_agrees:
  assumes "store_step (s, w) (s', w')"
  shows "egress_agrees N s' = egress_agrees N s"
proof -
  have "sc_proxy (s\<lparr>sc_store := None\<rparr>) = sc_proxy (s'\<lparr>sc_store := None\<rparr>)"
    "sc_profile (s\<lparr>sc_store := None\<rparr>) = sc_profile (s'\<lparr>sc_store := None\<rparr>)"
    "sc_pool (s\<lparr>sc_store := None\<rparr>) = sc_pool (s'\<lparr>sc_store := None\<rparr>)"
    "sc_locale (s\<lparr>sc_store := None\<rparr>) = sc_locale (s'\<lparr>sc_store := None\<rparr>)"
    "sc_resolver (s\<lparr>sc_store := None\<rparr>) = sc_resolver (s'\<lparr>sc_store := None\<rparr>)"
    using assms by (simp_all only: store_step_def fst_conv)
  then have "sc_proxy s' = sc_proxy s" "sc_profile s' = sc_profile s" "sc_pool s' = sc_pool s"
    "sc_locale s' = sc_locale s" "sc_resolver s' = sc_resolver s" by simp_all
  then show ?thesis by (simp only: egress_agrees_def)
qed

lemma rotate_and_reload_agrees:
  fixes s :: "'st scraper"
  assumes "rotate_and_reload N pg host k s w = Some (Inr u, s', w')"
  shows "egress_agrees N s'"
proof -
  obtain q s1 w1 where rot: "rotate_proxy N s w = Some (q, s1, w1)"
    and rest: "(case q of
       Inl err \<Rightarrow>
         sbind (semit (SolveFailed host k (challenge_text err))) (\<lambda>_.
         sbind (stry (record_for_host N host Blocked)) (\<lambda>_. sfail err))
     | Inr _ \<Rightarrow>
         sbind sget (\<lambda>s.
         sbind (slift (apply_locale_overrides N s pg (sc_locale s))) (\<lambda>_.
         sbind (semit (ProxyRotated host
                  (map_option (redact_proxy_url (nt_url N)) (selected (sc_pool s))))) (\<lambda>_.
         slift (reload_and_wait (nt_host N) pg True PAGE_LOAD_TIMEOUT))))) s1 w1 = Some (Inr u, s', w')"
    using assms(1) unfolding rotate_and_reload_def by (auto simp: sbind_Some stry_Some)
  show ?thesis
  proof (cases q)
    case (Inl err)
    then show ?thesis using rest by (auto simp: sbind_Some stry_Some)
  next
    case (Inr v)
    have "s' = s1" using rest unfolding Inr by (auto simp: sbind_Some slift_Some)
    then show ?thesis using rotate_proxy_agrees rot unfolding Inr by blast
  qed
qed

lemma solve_loop_agrees:
  fixes s :: "'st scraper" and w :: "'e world"
  shows "solve_loop n N pg host attempt saw s w = Some (Inr signal, s', w') \<Longrightarrow> egress_agrees N s
    \<Longrightarrow> egress_agrees N s'"
proof (induction n arbitrary: s w attempt saw)
  case (Suc n)
  let ?before = "\<lambda>sg. swhen (is_challenge sg) (semit (ChallengeDetected host (sig_kind sg)))"
  from Suc.prems(1) [unfolded solve_loop_Suc] obtain sg w1 s2 w2
    where b: "?before sg s w1 = Some (Inr (), s2, w2)"
      and after: "after_decision N pg host attempt saw (\<lambda>nxt. solve_loop n N pg host nxt True) sg
         (decide (sc_policy s2) sg attempt) s2 w2 = Some (Inr signal, s', w')"
    by (auto simp: sbind_Some [of "slift _"] sbind_Some [of "swhen _ _"] sbind_Some [of sget] slift_Some)
  have "store.runs_in (?before sg :: ('st scraper, 'e, unit) sact)" by (intro store.run_when store_emit)
  from store_step_agrees [OF store.runs_inD [OF this b]] Suc.prems(2) have s2: "egress_agrees N s2" by blast
  show ?case
  proof (cases "decide (sc_policy s2) sg attempt")
    case Proceed
    have "store.runs_in (sbind (semit (SolveSucceeded host attempt saw)) (\<lambda>_.
         sbind (record_for_host N host (if saw then Challenged else Success)) (\<lambda>_. sret sg))
         :: ('st scraper, 'e, challenge_signal) sact)"
      by (intro store.run_intros store_emit store_record)
    from store_step_agrees [OF store.runs_inD [OF this after [unfolded Proceed after_decision_def action.case]]]
    show ?thesis using s2 by blast
  next
    case (Fail reason)
    then show ?thesis using after by (auto simp: after_decision_def sbind_Some stry_Some)
  next
    case (Wait d nxt)
    from after obtain u s3 w3 where ws: "wait_step N pg host (sig_kind sg) d s2 w2 = Some (Inr u, s3, w3)"
      and rest: "solve_loop n N pg host nxt True s3 w3 = Some (Inr signal, s', w')"
      unfolding Wait after_decision_def action.case by (auto simp: sbind_Some)
    from Suc.IH [OF rest] store_step_agrees [OF store.runs_inD [OF store_wait ws]] s2 show ?thesis by blast
  next
    case (RotateProxy nxt)
    from after obtain u s3 w3 where "rotate_and_reload N pg host (sig_kind sg) s2 w2 = Some (Inr u, s3, w3)"
      and rest: "solve_loop n N pg host nxt True s3 w3 = Some (Inr signal, s', w')"
      unfolding RotateProxy after_decision_def action.case by (auto simp: sbind_Some)
    with Suc.IH [OF rest] rotate_and_reload_agrees show ?thesis by blast
  qed
qed simp

text \<open>C8. Solving a challenge keeps the story straight: when it ends with a signal, however many proxies
were retired on the way, the client still is that of the profile and the proxy now selected, and the
locale that of its country.\<close>

theorem solve_challenge_agrees:
  assumes "egress_agrees N s" and "solve_challenge N pg s w = Some (Inr signal, s', w')"
  shows "egress_agrees N s'"
  using assms solve_loop_agrees
  by (auto simp: solve_challenge_def sbind_Some slift_Some)

lemma sample_agrees: "egress_agrees plain_net sample_scraper"
  by (simp add: egress_agrees_def sample_scraper_def resolve_locale_def with_endpoints_def Let_def
      selected_def selected_country_def)

lemma plain_detect: "\<not> is_challenge (detect (from_body ''ok''))"
  by code_simp

lemma plain_evaluate: "\<exists>w1. evaluate plain_host pg e w = Some (Inr (JStr ''ok''), w1)"
  by (simp add: evaluate_def page_call_def cdp_send_def plain_host_def abind_def plain_answer_def
      evaluated_def jget_def)

lemma plain_nt_host [simp]: "nt_host plain_net = plain_host"
  by (simp add: plain_net_def)

lemma plain_detect_run: "\<exists>w1. detect_challenge plain_net pg w = Some (Inr (detect (from_body ''ok'')), w1)"
proof -
  obtain w1 where "evaluate plain_host pg (''document.documentElement ? document.documentElement.outerHTML : ''
      @ [CHR 0x27, CHR 0x27]) w = Some (Inr (JStr ''ok''), w1)"
    using plain_evaluate by blast
  then show ?thesis
    unfolding detect_challenge_def content_def plain_nt_host by (simp add: ok_or_def)
qed

lemma plain_page_host: "\<exists>h w1. page_host plain_net pg w = Some (Inr h, w1)"
proof -
  obtain w1 where "evaluate plain_host pg ''document.location.href'' w = Some (Inr (JStr ''ok''), w1)"
    using plain_evaluate by blast
  then show ?thesis
    unfolding page_host_def page_url_def plain_nt_host by (simp add: ok_or_def atry_def)
qed

lemma plain_solve:
  "\<exists>signal s' w'. solve_challenge plain_net sample_page sample_scraper plain_world = Some (Inr signal, s', w')"
proof -
  obtain h w1 where h: "page_host plain_net sample_page plain_world = Some (Inr h, w1)"
    using plain_page_host by blast
  obtain w2 where d: "detect_challenge plain_net sample_page w1 = Some (Inr (detect (from_body ''ok'')), w2)"
    using plain_detect_run by blast
  have "decide (sc_policy sample_scraper) (detect (from_body ''ok'')) 0 = Proceed"
    using policy.proceed_iff plain_detect by blast
  moreover have "sc_store sample_scraper = None" by (simp add: sample_scraper_def)
  ultimately show ?thesis using h d plain_detect
    by (simp add: solve_challenge_def sbind_def slift_def solve_loop_Suc swhen_def after_decision_def
        record_for_host_def record_outcome_def split: option.split)
qed

theorem solve_challenge_agrees_witness:
  "\<exists>signal s' w'. solve_challenge plain_net sample_page sample_scraper plain_world = Some (Inr signal, s', w')
     \<and> egress_agrees plain_net s'"
  using plain_solve solve_challenge_agrees [OF sample_agrees] by blast

text \<open>A new profile keeps the way out: the pool, the port and the key of the local proxy are the
old ones, while the client is renewed for the new profile and the same selected proxy, so that the story
is straight again whatever it was before.\<close>

theorem rotate_profile_agrees:
  assumes "rotate_profile_with N p s w = Some (Inr s', w')"
  shows "egress_agrees N s' \<and> sc_pool s' = sc_pool s \<and> sc_profile s' = p
    \<and> map_option mi_port (sc_proxy s') = map_option mi_port (sc_proxy s)
    \<and> map_option mi_pin (sc_proxy s') = map_option mi_pin (sc_proxy s)"
  using assms
  by (auto simp: rotate_profile_with_def egress_agrees_def abind_Some Let_def
      split: option.splits if_splits)

theorem rotate_profile_agrees_witness:
  "\<exists>p s' w'. rotate_profile_with plain_net p sample_scraper plain_world = Some (Inr s', w')
     \<and> egress_agrees plain_net s' \<and> sc_profile s' = p"
proof -
  have "\<exists>s' w'. rotate_profile_with plain_net (sc_profile sample_scraper) sample_scraper plain_world
      = Some (Inr s', w')"
    by (simp add: rotate_profile_with_def sample_scraper_def launch_browser_def start_browser_def abind_def
        Let_def plain_net_def plain_world_def split: option.split)
  then show ?thesis using rotate_profile_agrees by blast
qed

section \<open>Pages\<close>

definition create_calls :: "string \<Rightarrow> page \<Rightarrow> cdp_call list" where
  "create_calls url pg =
     [(None, ''Target.createTarget'', Some (JObj [(''url'', JStr url)])),
      (None, ''Target.attachToTarget'',
         Some (JObj [(''targetId'', JStr (pg_target pg)), (''flatten'', JBool True)]))]"

definition script_call :: "page \<Rightarrow> string \<Rightarrow> cdp_call" where
  "script_call pg source =
     (Some (pg_session pg), ''Page.addScriptToEvaluateOnNewDocument'', Some (JObj [(''source'', JStr source)]))"

text \<open>What preparing a page may send after the script: overrides, and the agent only as the profile's.\<close>

definition override_ok :: "page \<Rightarrow> browser_profile \<Rightarrow> cdp_call \<Rightarrow> bool" where
  "override_ok pg p call =
     (case call of (sess, mt, params) \<Rightarrow>
        sess = Some (pg_session pg)
        \<and> (mt = ''Emulation.setUserAgentOverride''
              \<and> Option.bind params (jget ''userAgent'') = Some (JStr (user_agent p))
           \<or> mt \<in> {''Emulation.setTimezoneOverride'', ''Emulation.setLocaleOverride'',
                    ''Emulation.setDeviceMetricsOverride''}))"

lemma cdp_send_calls: "cdp_send H se mt p w = Some (r, w') \<Longrightarrow> w_calls w' = w_calls w @ [(se, mt, p)]"
  by (cases "ho_reply H (se, mt, p) (w_env w)") (auto simp: cdp_send_def)

lemma new_page_calls:
  assumes "new_page H url w = Some (Inr pg, w')"
  shows "w_calls w' = w_calls w @ create_calls url pg"
  using assms
  by (auto simp: new_page_def browser_call_def abind_Some fresh_page_def create_calls_def dest!: cdp_send_calls)

lemma map_of_replace: "map_of (filter (\<lambda>kv. fst kv \<noteq> j) kvs @ [(j, x)]) = (map_of kvs)(j \<mapsto> x)"
  by (induction kvs) (auto simp: fun_eq_iff)

lemma jget_jset: "jget k (jset j x (JObj kvs)) = (if k = j then Some x else jget k (JObj kvs))"
  by (simp add: jget_def jset_def map_of_replace del: map_of_append)

lemma user_agent_params_agent:
  "jget ''userAgent'' (user_agent_params ua lang plat metadata) = Some (JStr ua)"
proof -
  have obj: "\<exists>kvs. jset j x (JObj kvs0) = JObj kvs" for j x kvs0 by (simp add: jset_def)
  have keep: "(\<exists>kvs. v = JObj kvs \<and> jget ''userAgent'' v = Some a) \<Longrightarrow> j \<noteq> ''userAgent'' \<Longrightarrow>
      (\<exists>kvs. jset j x v = JObj kvs \<and> jget ''userAgent'' (jset j x v) = Some a)" for v a j x
    using obj by (auto simp: jget_jset)
  let ?p0 = "JObj [(''userAgent'', JStr ua)]"
  let ?p1 = "case lang of None \<Rightarrow> ?p0 | Some a \<Rightarrow> jset ''acceptLanguage'' (JStr a) ?p0"
  let ?p2 = "case plat of None \<Rightarrow> ?p1 | Some p \<Rightarrow> jset ''platform'' (JStr p) ?p1"
  have 0: "\<exists>kvs. ?p0 = JObj kvs \<and> jget ''userAgent'' ?p0 = Some (JStr ua)" by (simp add: jget_def)
  have 1: "\<exists>kvs. ?p1 = JObj kvs \<and> jget ''userAgent'' ?p1 = Some (JStr ua)"
    using keep [OF 0] 0 by (cases lang) simp_all
  have 2: "\<exists>kvs. ?p2 = JObj kvs \<and> jget ''userAgent'' ?p2 = Some (JStr ua)"
    using keep [OF 1] 1 by (cases plat) simp_all
  show ?thesis
    using keep [OF 2, of "''userAgentMetadata''"] 2
    by (cases metadata) (simp_all add: user_agent_params_def Let_def)
qed

lemmas override_defs = set_user_agent_def set_timezone_def set_locale_def set_viewport_def

lemma overrides_calls:
  assumes "apply_locale_overrides N s pg loc w = Some (Inr (), w')"
  shows "\<exists>cs. w_calls w' = w_calls w @ cs \<and> list_all (override_ok pg (sc_profile s)) cs
    \<and> (\<forall>l. loc = Some l \<longrightarrow>
         (Some (pg_session pg), ''Emulation.setTimezoneOverride'',
            Some (JObj [(''timezoneId'', JStr (loc_timezone l))])) \<in> set cs)
    \<and> (loc = None \<longrightarrow> list_all (\<lambda>(se, mt, p). mt \<noteq> ''Emulation.setTimezoneOverride''
                               \<and> mt \<noteq> ''Emulation.setLocaleOverride'') cs)"
proof (cases loc)
  case None
  show ?thesis
  proof (cases "for_profile (sc_profile s)")
    case none: None
    then show ?thesis using assms None
      by (intro exI [of _ "[]"]) (simp add: apply_locale_overrides_def apply_client_hints_def)
  next
    case (Some h)
    then obtain w1 where
        a: "set_user_agent (nt_host N) pg (user_agent (sc_profile s)) (Some (accept_language (sc_profile s)))
              (Some (platform (sc_profile s))) (Some (to_cdp_metadata h)) w = Some (Inr (), w1)"
      and b: "set_viewport (nt_host N) pg (viewport_width (sc_profile s)) (viewport_height (sc_profile s)) w1
              = Some (Inr (), w')"
      using assms None by (auto simp: apply_locale_overrides_def apply_client_hints_def abind_Some)
    show ?thesis
      unfolding page_do_calls [OF b [unfolded set_viewport_def]] page_do_calls [OF a [unfolded set_user_agent_def]]
        append_assoc
      by (intro exI conjI refl) (auto simp: None override_ok_def user_agent_params_agent list_all_iff)
  qed
next
  case (Some l)
  then obtain w1 w2 w3 where
      a: "set_user_agent (nt_host N) pg (user_agent (sc_profile s)) (Some (loc_accept_language l))
            (Some (platform (sc_profile s))) (map_option to_cdp_metadata (for_profile (sc_profile s))) w
            = Some (Inr (), w1)"
    and b: "set_timezone (nt_host N) pg (loc_timezone l) w1 = Some (Inr (), w2)"
    and c: "set_locale (nt_host N) pg (primary_language l) w2 = Some (Inr (), w3)"
    and d: "set_viewport (nt_host N) pg (viewport_width (sc_profile s)) (viewport_height (sc_profile s)) w3
            = Some (Inr (), w')"
    using assms by (auto simp: apply_locale_overrides_def abind_Some)
  show ?thesis
    unfolding page_do_calls [OF d [unfolded set_viewport_def]] page_do_calls [OF c [unfolded set_locale_def]]
      page_do_calls [OF b [unfolded set_timezone_def]] page_do_calls [OF a [unfolded set_user_agent_def]]
      append_assoc
    by (intro exI conjI refl) (auto simp: Some override_ok_def user_agent_params_agent list_all_iff)
qed


lemma plain_stealth_page: "\<exists>pg w'. new_stealth_page plain_net sample_scraper plain_world = Some (Inr pg, w')"
  by (simp add: new_stealth_page_def sample_scraper_def new_page_def browser_call_def cdp_send_def plain_net_def
      plain_host_def plain_answer_def string_field_def jget_def ok_or_def fresh_page_def add_init_script_def
      page_do_def page_call_def apply_locale_overrides_def apply_client_hints_def override_defs abind_def Let_def
      split: option.split)


section \<open>Where the stories part\<close>

text \<open>
  A rotation that cannot build its client has already moved the pool on: the scraper goes on forwarding
  through the old client while the pool, and with it what is recorded as the last proxy, names another.
\<close>

lemma failed_rotation_parts:
  assumes "sc_proxy s = Some m" and "rotate_pool (nt_pick N) (sc_pool s) = (Some nxt, pool)"
    and "make_client N (sc_profile s) (Some nxt) = Inl e"
  shows "\<exists>s'. rotate_proxy N s w = Some (Inl e, s', w) \<and> sc_proxy s' = Some m
    \<and> selected (sc_pool s') = Some nxt \<and> sc_locale s' = sc_locale s"
  using assms rotate_pool_selected [OF assms(2)] by (simp add: rotate_proxy_def)

text \<open>
  A page prepared for a country keeps its time zone when the next proxy has no known country: in that
  case nothing that is sent touches the time zone or the locale.
\<close>

lemma unknown_country_keeps_timezone:
  assumes "apply_locale_overrides N s pg None w = Some (Inr (), w')"
  shows "\<exists>cs. w_calls w' = w_calls w @ cs
    \<and> list_all (\<lambda>(se, mt, p). mt \<noteq> ''Emulation.setTimezoneOverride''
                               \<and> mt \<noteq> ''Emulation.setLocaleOverride'') cs"
  using overrides_calls [OF assms] by blast

text \<open>A profile that sends no client hints gets no viewport either, without a locale.\<close>

lemma safari_without_locale:
  "for_profile (sc_profile s) = None \<Longrightarrow> apply_locale_overrides N s pg None w = Some (Inr (), w)"
  by (simp add: apply_locale_overrides_def apply_client_hints_def)

section \<open>Without rotation\<close>

text \<open>
  A scraper that may not rotate, such as that of a session, only writes to its store when it solves a
  challenge, and neither sends requests nor launches browsers.
\<close>

definition still_step :: "'st scraper \<times> 'e world \<Rightarrow> 'st scraper \<times> 'e world \<Rightarrow> bool" where
  "still_step x y \<longleftrightarrow> store_step x y \<and> net_trace (snd y) = net_trace (snd x)"

interpretation still: step_relation still_step
  by unfold_locales (simp_all add: still_step_def store_step_def)

lemma still_lift: "keeps net_trace m \<Longrightarrow> still.runs_in (slift m)"
  by (rule still.run_lift) (auto simp: still_step_def store_step_def keeps_def)

lemma still_emit: "still.runs_in (semit ev)"
  by (rule still.runs_inI) (simp add: still_step_def store_step_def net_trace_def)

lemma still_record: "still.runs_in (record_for_host N host out)"
  by (rule still.runs_inI)
     (auto simp: record_for_host_def record_outcome_def still_step_def store_step_def Let_def
       split: option.splits prod.splits)

lemma still_wait: "still.runs_in (wait_step N pg host k d)"
  unfolding wait_step_def by (intro still.run_intros still_lift still_emit keeps_intros frames)

lemma no_rotation: "\<not> can_rotate_proxy p \<Longrightarrow> decide p signal attempt \<noteq> RotateProxy k"
  by (auto simp: decide_def split: challenge_kind.splits if_splits)

lemma store_step_policy:
  assumes "store_step (s, w) (s', w')"
  shows "sc_policy s' = sc_policy s"
proof -
  have "sc_policy (s\<lparr>sc_store := None\<rparr>) = sc_policy (s'\<lparr>sc_store := None\<rparr>)"
    using assms by (simp only: store_step_def fst_conv)
  then show ?thesis by simp
qed

lemma solve_loop_still:
  fixes s :: "'st scraper" and w :: "'e world"
  shows "solve_loop n N pg host attempt saw s w = Some (r, s', w') \<Longrightarrow> \<not> can_rotate_proxy (sc_policy s)
    \<Longrightarrow> still_step (s, w) (s', w')"
proof (induction n arbitrary: s w attempt saw)
  case (Suc n)
  let ?go = "\<lambda>nxt. solve_loop n N pg host nxt True :: ('st scraper, 'e, challenge_signal) sact"
  have after: "still_step (s, w2) (s', w')"
    if "after_decision N pg host attempt saw ?go signal (decide (sc_policy s) signal attempt) s w2
          = Some (r, s', w')" for signal w2
  proof (cases "decide (sc_policy s) signal attempt")
    case Proceed
    have "still.runs_in (after_decision N pg host attempt saw ?go signal Proceed)"
      unfolding after_decision_def action.case by (intro still.run_intros still_emit still_record)
    from still.runs_inD [OF this that [unfolded Proceed]] show ?thesis .
  next
    case (Fail reason)
    have "still.runs_in (after_decision N pg host attempt saw ?go signal (Fail reason))"
      unfolding after_decision_def action.case by (intro still.run_intros still_emit still_record)
    from still.runs_inD [OF this that [unfolded Fail]] show ?thesis .
  next
    case (Wait d nxt)
    from that obtain q s3 w3 where ws: "wait_step N pg host (sig_kind signal) d s w2 = Some (q, s3, w3)"
      and rest: "(\<exists>e. q = Inl e \<and> s' = s3 \<and> w' = w3) \<or> ?go nxt s3 w3 = Some (r, s', w')"
      unfolding Wait after_decision_def action.case by (auto simp: sbind_Some)
    have st: "still_step (s, w2) (s3, w3)" by (rule still.runs_inD [OF still_wait ws])
    then have "sc_policy s3 = sc_policy s" by (simp add: still_step_def store_step_policy [of s w2 s3 w3])
    then have "\<not> can_rotate_proxy (sc_policy s3)" using Suc.prems(2) by simp
    from rest show ?thesis
    proof (elim disjE exE conjE)
      show ?thesis if "s' = s3" "w' = w3" using st unfolding that .
      show ?thesis if "?go nxt s3 w3 = Some (r, s', w')"
        by (rule still.trans [OF st Suc.IH [OF that]]) fact
    qed
  next
    case (RotateProxy nxt)
    then show ?thesis using no_rotation [OF Suc.prems(2)] by blast
  qed
  from Suc.prems(1) [unfolded solve_loop_Suc] show ?case
  proof (rule still.at_bind)
    fix q s1 w1
    assume "slift (detect_challenge N pg) s w = Some (q, s1, w1)"
    from still.runs_inD [OF still_lift [OF keeps_detect [OF frames(2)]] this]
    show "still_step (s, w) (s1, w1)" .
  next
    fix sg s1 w1
    let ?before = "swhen (is_challenge sg) (semit (ChallengeDetected host (sig_kind sg)))
      :: ('st scraper, 'e, unit) sact"
    assume "slift (detect_challenge N pg) s w = Some (Inr sg, s1, w1)"
    then have s1: "s1 = s" by (simp add: slift_Some)
    assume "sbind ?before (\<lambda>_. sbind sget (\<lambda>s. after_decision N pg host attempt saw ?go sg
        (decide (sc_policy s) sg attempt))) s1 w1 = Some (r, s', w')"
    then show "still_step (s1, w1) (s', w')"
    proof (rule still.at_bind)
      fix q s2 w2
      assume b: "?before s1 w1 = Some (q, s2, w2)"
      have "still.runs_in ?before" by (intro still.run_when still_emit)
      from still.runs_inD [OF this b] show "still_step (s1, w1) (s2, w2)" .
    next
      fix u s2 w2
      assume "?before s1 w1 = Some (Inr u, s2, w2)"
      then have "s2 = s" using s1 by (auto simp: swhen_def split: if_splits)
      moreover assume "sbind sget (\<lambda>s. after_decision N pg host attempt saw ?go sg
        (decide (sc_policy s) sg attempt)) s2 w2 = Some (r, s', w')"
      ultimately show "still_step (s2, w2) (s', w')" using after by (simp add: sbind_def)
    qed
  qed
qed simp

lemma solve_challenge_still:
  assumes "solve_challenge N pg s w = Some (r, s', w')" and "\<not> can_rotate_proxy (sc_policy s)"
  shows "still_step (s, w) (s', w')"
proof -
  have h: "still_step (s, w) (s, w1)" if "page_host N pg w = Some (q, w1)" for q w1
    using keepsD [OF keeps_page_host [OF frames(2)] that] by (simp add: still_step_def store_step_def)
  from assms(1) consider e where "page_host N pg w = Some (Inl e, w')" "s' = s"
    | host w1 where "page_host N pg w = Some (Inr host, w1)"
        "solve_loop (Suc (unat (max_attempts (sc_policy s)))) N pg host 0 False s w1 = Some (r, s', w')"
    unfolding solve_challenge_def by (auto simp: sbind_Some slift_Some)
  then show ?thesis
  proof cases
    case 1
    then show ?thesis using h by blast
  next
    case 2
    then show ?thesis using h solve_loop_still [OF 2(2) assms(2)] still.trans by blast
  qed
qed

end
