(* ===== verification/Session.thy ===== *)
theory Session
  imports Egress HttpScraper
begin

text \<open>
  Models \<open>src/src/session.rs\<close>: the session that moves between a browser and plain HTTP. The state of its
  actions is the session: the identity behind its mutex, the browser while there is one and the HTTP
  client once built. The browser of a session has no state
  store, no event sink and no resolver, as the builder that makes it sets none.
\<close>

definition SESSION_LOAD_TIMEOUT :: duration where "SESSION_LOAD_TIMEOUT = from_secs 30"

section \<open>State\<close>

record session_builder =
  ss_profile :: "browser_profile option"
  ss_policy :: session_policy
  ss_upstream :: "string option"
  ss_headless :: bool
  ss_debug :: bool
  ss_sink :: bool

definition session_builder_new :: session_builder where
  "session_builder_new =
     \<lparr>ss_profile = None, ss_policy = session_policy_default, ss_upstream = None, ss_headless = True,
      ss_debug = False, ss_sink = False\<rparr>"

definition session_profile :: "browser_profile \<Rightarrow> session_builder \<Rightarrow> session_builder" where
  "session_profile p b = b\<lparr>ss_profile := Some p\<rparr>"

definition session_policy_set :: "session_policy \<Rightarrow> session_builder \<Rightarrow> session_builder" where
  "session_policy_set policy b = b\<lparr>ss_policy := policy\<rparr>"

definition session_upstream_proxy :: "string \<Rightarrow> session_builder \<Rightarrow> session_builder" where
  "session_upstream_proxy u b = b\<lparr>ss_upstream := Some u\<rparr>"

definition session_headless :: "bool \<Rightarrow> session_builder \<Rightarrow> session_builder" where
  "session_headless h b = b\<lparr>ss_headless := h\<rparr>"

definition session_with_debug :: "bool \<Rightarrow> session_builder \<Rightarrow> session_builder" where
  "session_with_debug d b = b\<lparr>ss_debug := d\<rparr>"

definition session_with_event_sink :: "session_builder \<Rightarrow> session_builder" where
  "session_with_event_sink b = b\<lparr>ss_sink := True\<rparr>"

record session =
  se_identity :: stealth_identity
  se_policy :: session_policy
  se_upstream :: "string option"
  se_headless :: bool
  se_debug :: bool
  se_sink :: bool
  se_browser :: "unit scraper option"
  se_http :: "http_client option"

definition build_session :: "'e net \<Rightarrow> session_builder \<Rightarrow> ('e, session) act" where
  "build_session N b =
     abind (case ss_profile b of Some p \<Rightarrow> aret p | None \<Rightarrow> random_profile_act N) (\<lambda>p.
     aret \<lparr>se_identity = (identity_new p)\<lparr>id_egress := map_option egress_new (ss_upstream b)\<rparr>,
           se_policy = ss_policy b, se_upstream = ss_upstream b, se_headless = ss_headless b,
           se_debug = ss_debug b, se_sink = ss_sink b, se_browser = None, se_http = None\<rparr>)"

definition session_mode_of :: "session \<Rightarrow> session_mode" where
  "session_mode_of s = (if se_browser s \<noteq> None then BrowserMode else HttpMode)"

definition browser_is_running :: "session \<Rightarrow> bool" where
  "browser_is_running s \<longleftrightarrow> se_browser s \<noteq> None"

fun escalate_reason_label :: "escalate_reason \<Rightarrow> string" where
  "escalate_reason_label ChallengeSeen = ''challenge seen over HTTP''"
| "escalate_reason_label ClearanceExpiring = ''clearance expiring''"
| "escalate_reason_label NoClearance = ''no clearance held''"

fun demote_reason_label :: "demote_reason \<Rightarrow> string" where
  "demote_reason_label Cleared = ''page cleared''"
| "demote_reason_label IdentityReplaced = ''identity replaced''"

section \<open>Transitions\<close>

definition session_emit :: "scraper_event \<Rightarrow> (session, 'e, unit) sact" where
  "session_emit ev = sbind sget (\<lambda>s. swhen (se_sink s) (slift (emit ev)))"

definition session_choose :: "'e net \<Rightarrow> bool \<Rightarrow> (session, 'e, transition) sact" where
  "session_choose N challenged =
     sbind sget (\<lambda>s.
     sbind (slift (now_unix (nt_host N))) (\<lambda>now.
     sret (session_decide (se_policy s) (session_mode_of s) (se_identity s) challenged now)))"

definition escalation_builder :: "session \<Rightarrow> unit scraper_builder" where
  "escalation_builder s =
     (let b = builder_with_debug (se_debug s) (builder_headless (se_headless s)
                (builder_profile (id_profile (se_identity s)) builder_new)) in
      case se_upstream s of None \<Rightarrow> b | Some u \<Rightarrow> builder_upstream_proxy u b)"

definition escalate_for :: "'e net \<Rightarrow> escalate_reason \<Rightarrow> (session, 'e, unit) sact" where
  "escalate_for N reason =
     sbind sget (\<lambda>s.
     if se_browser s \<noteq> None then sret ()
     else
       sbind (slift (build_scraper N (escalation_builder s))) (\<lambda>sc.
       sbind sget (\<lambda>s.
       sbind (slift (CdpSession.set_cookies (nt_host N) (id_cookies (se_identity s)))) (\<lambda>_.
       sbind (session_emit (SessionEscalated (escalate_reason_label reason))) (\<lambda>_.
       smodify (\<lambda>s. s\<lparr>se_browser := Some sc\<rparr>))))))"

definition demote_for :: "demote_reason \<Rightarrow> (session, 'e, unit) sact" where
  "demote_for reason =
     sbind sget (\<lambda>s.
     sbind (smodify (\<lambda>s. s\<lparr>se_browser := None\<rparr>)) (\<lambda>_.
     swhen (se_browser s \<noteq> None) (session_emit (SessionDemoted (demote_reason_label reason)))))"

definition escalate :: "'e net \<Rightarrow> (session, 'e, unit) sact" where
  "escalate N = escalate_for N NoClearance"

definition demote :: "(session, 'e, unit) sact" where
  "demote = demote_for Cleared"

definition apply_transition :: "'e net \<Rightarrow> transition \<Rightarrow> (session, 'e, unit) sact" where
  "apply_transition N t =
     (case t of Stay \<Rightarrow> sret () | Escalate reason \<Rightarrow> escalate_for N reason | Demote reason \<Rightarrow> demote_for reason)"

definition restore :: "stealth_identity \<Rightarrow> (session, 'e, unit) sact" where
  "restore identity =
     sbind sget (\<lambda>s.
     if \<not> is_bound_to identity (se_upstream s)
     then sfail (ConfigError
            (''refusing to restore a session earned on ''
             @ (case id_egress identity of Some e \<Rightarrow> egress_text e | None \<Rightarrow> ''no proxy'')
             @ '': its cookies belong to that exit IP, so reusing them from this one would be inconsistent''))
     else
       sbind (smodify (\<lambda>s. s\<lparr>se_identity := identity, se_http := None\<rparr>)) (\<lambda>_.
       demote_for IdentityReplaced))"

section \<open>Clearing with the browser\<close>

text \<open>On a page the state is the scraper and the shared identity.\<close>

definition clear_on_page ::
    "'e net \<Rightarrow> page \<Rightarrow> string \<Rightarrow> (unit scraper \<times> stealth_identity, 'e, challenge_signal) sact" where
  "clear_on_page N pg url =
     sbind (slift (navigate_and_wait (nt_host N) pg url SESSION_LOAD_TIMEOUT)) (\<lambda>_.
     sbind (spart fst (\<lambda>sc (_, i). (sc, i)) (solve_challenge N pg)) (\<lambda>signal.
     sbind (slift (browser_cookies (nt_host N))) (\<lambda>cookies.
     sbind (slift (now_unix (nt_host N))) (\<lambda>now.
     sbind (smodify (\<lambda>(sc, i). (sc, Identity.set_cookies cookies now i))) (\<lambda>_.
     sret signal)))))"

definition clear_with_browser :: "'e net \<Rightarrow> string \<Rightarrow> (session, 'e, challenge_signal) sact" where
  "clear_with_browser N url =
     sbind sget (\<lambda>s.
     case se_browser s of
       None \<Rightarrow> sfail (Internal ''clear_with_browser without a browser'')
     | Some sc \<Rightarrow>
         sbind (slift (new_stealth_page N sc)) (\<lambda>pg.
         sbind (stry (spart (\<lambda>s. (the (se_browser s), se_identity s))
                        (\<lambda>(sc, i) s. s\<lparr>se_browser := Some sc, se_identity := i\<rparr>)
                        (clear_on_page N pg url))) (\<lambda>outcome.
         sbind (stry (slift (close_page (nt_host N) pg))) (\<lambda>_.
         sresult outcome))))"

section \<open>Fetching\<close>

definition on_identity :: "(stealth_identity, 'e, 'a) sact \<Rightarrow> (session, 'e, 'a) sact" where
  "on_identity m = spart se_identity (\<lambda>i s. s\<lparr>se_identity := i\<rparr>) m"

definition http_transport :: "'e net \<Rightarrow> (session, 'e, http_client) sact" where
  "http_transport N =
     sbind sget (\<lambda>s.
     case se_http s of
       Some c \<Rightarrow> sret c
     | None \<Rightarrow>
         sbind (on_identity (scraper_new N (se_upstream s))) (\<lambda>c.
         sbind (smodify (\<lambda>s. s\<lparr>se_http := Some c\<rparr>)) (\<lambda>_.
         sret c)))"

definition http_get :: "'e net \<Rightarrow> string \<Rightarrow> (session, 'e, http_response) sact" where
  "http_get N url =
     sbind (http_transport N) (\<lambda>c. on_identity (http_fetch N c url))"

definition reconsider :: "'e net \<Rightarrow> bool \<Rightarrow> (session, 'e, unit) sact" where
  "reconsider N challenged = sbind (session_choose N challenged) (apply_transition N)"

definition session_fetch :: "'e net \<Rightarrow> string \<Rightarrow> (session, 'e, http_response) sact" where
  "session_fetch N url =
     sbind (reconsider N False) (\<lambda>_.
     sbind sget (\<lambda>s.
     sbind (swhen (se_browser s \<noteq> None)
              (sbind (clear_with_browser N url) (\<lambda>_. reconsider N False))) (\<lambda>_.
     sbind (http_get N url) (\<lambda>response.
     if \<not> response_is_challenge response then sret response
     else
       sbind (reconsider N True) (\<lambda>_.
       sbind sget (\<lambda>s.
       if se_browser s = None then sret response
       else
         sbind (clear_with_browser N url) (\<lambda>_.
         sbind (reconsider N False) (\<lambda>_.
         http_get N url))))))))"

end
