(* ===== verification/SessionSafety.thy ===== *)
theory SessionSafety
  imports Session
begin

text \<open>
  What a session keeps, over every run: the invariant that ties its two transports to one identity and
  one way out, what it lets out to the network, how often, and that its fetches end.
\<close>

section \<open>The invariant\<close>

text \<open>The proxy pool trims its URLs and has no empty one.\<close>

definition browser_upstream :: "string option \<Rightarrow> string option" where
  "browser_upstream u = Option.bind u (\<lambda>t. if trim t = [] then None else Some (trim t))"

definition browser_inv :: "'e net \<Rightarrow> browser_profile \<Rightarrow> string option \<Rightarrow> 'st scraper \<Rightarrow> bool" where
  "browser_inv N p upstream sc \<longleftrightarrow>
     sc_profile sc = p \<and> egress_agrees N sc \<and> sc_proxy sc \<noteq> None
     \<and> selected (sc_pool sc) = browser_upstream upstream \<and> \<not> can_rotate_proxy (sc_policy sc)"

definition session_inv :: "'e net \<Rightarrow> session \<Rightarrow> bool" where
  "session_inv N s \<longleftrightarrow>
     (case se_http s of
        None \<Rightarrow> True
      | Some c \<Rightarrow> make_client N (id_profile (se_identity s)) (se_upstream s) = Inr c) \<and>
     (case se_browser s of
        None \<Rightarrow> True
      | Some sc \<Rightarrow> browser_inv N (id_profile (se_identity s)) (se_upstream s) sc)"

text \<open>What stays for good, restoring aside: all but the cookies and the two transports.\<close>

definition fixed_part :: "session \<Rightarrow> session" where
  "fixed_part s =
     s\<lparr>se_identity := (se_identity s)\<lparr>id_cookies := []\<rparr>, se_browser := None, se_http := None\<rparr>"

text \<open>
  What a session lets out: requests by the one client of its profile and upstream, written from its
  identity with the cookies of the moment; browsers launched for that profile, whose only way out is a
  local proxy forwarding through the client of that profile and upstream.
\<close>

definition request_of :: "'e net \<Rightarrow> session \<Rightarrow> http_client \<times> http_request \<Rightarrow> bool" where
  "request_of N s = (\<lambda>(c, req).
     make_client N (id_profile (se_identity s)) (se_upstream s) = Inr c
     \<and> (\<exists>cookies secure host path now url.
          req = identity_request ((se_identity s)\<lparr>id_cookies := cookies\<rparr>) secure host path now url))"

definition launch_of :: "'e net \<Rightarrow> session \<Rightarrow> launch_config \<Rightarrow> bool" where
  "launch_of N s cfg \<longleftrightarrow>
     (\<exists>m. launched_for cfg (id_profile (se_identity s)) (Some m) None
        \<and> make_client N (id_profile (se_identity s)) (browser_upstream (se_upstream s)) = Inr (mi_client m))"

definition lets_out ::
    "'e net \<Rightarrow> session \<Rightarrow> 'e world \<Rightarrow> 'e world \<Rightarrow> bool" where
  "lets_out N s w w' \<longleftrightarrow>
     (\<exists>rs ls. net_trace w' = (w_sent w @ rs, w_launched w @ ls)
        \<and> list_all (request_of N s) rs \<and> list_all (launch_of N s) ls)"

definition session_step :: "'e net \<Rightarrow> session \<times> 'e world \<Rightarrow> session \<times> 'e world \<Rightarrow> bool" where
  "session_step N x y \<longleftrightarrow>
     (session_inv N (fst x) \<longrightarrow>
        fixed_part (fst y) = fixed_part (fst x) \<and> session_inv N (fst y)
        \<and> lets_out N (fst x) (snd x) (snd y))"

lemma fixed_parts:
  assumes "fixed_part t = fixed_part s"
  shows "se_policy t = se_policy s" "se_upstream t = se_upstream s" "se_headless t = se_headless s"
    "se_debug t = se_debug s" "se_sink t = se_sink s" "id_profile (se_identity t) = id_profile (se_identity s)"
    "id_locale (se_identity t) = id_locale (se_identity s)" "id_egress (se_identity t) = id_egress (se_identity s)"
    "(se_identity t)\<lparr>id_cookies := cs\<rparr> = (se_identity s)\<lparr>id_cookies := cs\<rparr>"
proof -
  have 1: "se_policy (fixed_part t) = se_policy (fixed_part s)"
    "se_upstream (fixed_part t) = se_upstream (fixed_part s)" "se_headless (fixed_part t) = se_headless (fixed_part s)"
    "se_debug (fixed_part t) = se_debug (fixed_part s)" "se_sink (fixed_part t) = se_sink (fixed_part s)"
    "se_identity (fixed_part t) = se_identity (fixed_part s)"
    by (simp_all only: assms)
  then show "se_policy t = se_policy s" "se_upstream t = se_upstream s" "se_headless t = se_headless s"
    "se_debug t = se_debug s" "se_sink t = se_sink s" by (simp_all add: fixed_part_def)
  have i: "(se_identity t)\<lparr>id_cookies := []\<rparr> = (se_identity s)\<lparr>id_cookies := []\<rparr>"
    using 1(6) by (simp add: fixed_part_def)
  show "id_profile (se_identity t) = id_profile (se_identity s)"
    "id_locale (se_identity t) = id_locale (se_identity s)" "id_egress (se_identity t) = id_egress (se_identity s)"
    "(se_identity t)\<lparr>id_cookies := cs\<rparr> = (se_identity s)\<lparr>id_cookies := cs\<rparr>"
    using arg_cong [OF i, of id_profile] arg_cong [OF i, of id_locale] arg_cong [OF i, of id_egress]
      arg_cong [OF i, of "\<lambda>j. j\<lparr>id_cookies := cs\<rparr>"] by simp_all
qed

lemma lets_out_refl: "lets_out N s w w"
  by (simp add: lets_out_def net_trace_def)

lemma lets_out_same: "net_trace w' = net_trace w \<Longrightarrow> lets_out N s w w'"
  by (simp add: lets_out_def net_trace_def)

lemma lets_out_cong: "fixed_part t = fixed_part s \<Longrightarrow> lets_out N t = lets_out N s"
  unfolding lets_out_def request_of_def launch_of_def
  by (intro ext) (simp only: fixed_parts [of t s])

lemma lets_out_trans:
  assumes "lets_out N s w w1" and "lets_out N s w1 w2"
  shows "lets_out N s w w2"
proof -
  obtain rs ls where 1: "net_trace w1 = (w_sent w @ rs, w_launched w @ ls)"
      "list_all (request_of N s) rs" "list_all (launch_of N s) ls"
    using assms(1) unfolding lets_out_def by blast
  obtain rs' ls' where 2: "net_trace w2 = (w_sent w1 @ rs', w_launched w1 @ ls')"
      "list_all (request_of N s) rs'" "list_all (launch_of N s) ls'"
    using assms(2) unfolding lets_out_def by blast
  have "net_trace w2 = (w_sent w @ rs @ rs', w_launched w @ ls @ ls')"
    using 1(1) 2(1) by (simp add: net_trace_def)
  moreover have "list_all (request_of N s) (rs @ rs')" "list_all (launch_of N s) (ls @ ls')"
    using 1(2,3) 2(2,3) by simp_all
  ultimately show ?thesis unfolding lets_out_def by blast
qed

interpretation ses: step_relation "session_step N" for N :: "'e net"
proof unfold_locales
  fix x y z :: "session \<times> 'e world"
  show "session_step N x x" by (simp add: session_step_def lets_out_refl)
  assume xy: "session_step N x y" and yz: "session_step N y z"
  show "session_step N x z"
    unfolding session_step_def
  proof
    assume "session_inv N (fst x)"
    then have 1: "fixed_part (fst y) = fixed_part (fst x)" "session_inv N (fst y)"
        "lets_out N (fst x) (snd x) (snd y)" using xy by (simp_all add: session_step_def)
    then have 2: "fixed_part (fst z) = fixed_part (fst y)" "session_inv N (fst z)"
        "lets_out N (fst y) (snd y) (snd z)" using yz by (simp_all add: session_step_def)
    show "fixed_part (fst z) = fixed_part (fst x) \<and> session_inv N (fst z)
        \<and> lets_out N (fst x) (snd x) (snd z)"
      using 1 2 lets_out_trans unfolding lets_out_cong [OF 1(1)] by metis
  qed
qed

section \<open>The steps of a session\<close>

lemma ses_lift: "keeps net_trace m \<Longrightarrow> ses.runs_in N (slift m)"
  by (rule ses.run_lift) (auto simp: session_step_def lets_out_same keeps_def)

lemma ses_emit: "ses.runs_in N (session_emit ev)"
  unfolding session_emit_def
  by (intro ses.run_intros ses_lift keeps_intros frames)

lemma start_proxy_quiet: "start_proxy N p up d w = Some (r, w') \<Longrightarrow> net_trace w' = net_trace w"
proof -
  assume run: "start_proxy N p up d w = Some (r, w')"
  have "keeps net_trace (start_proxy N p up d)"
    unfolding start_proxy_def by (intro keeps_intros frames)
  from keepsD [OF this run] show ?thesis .
qed

lemma launch_browser_trace:
  assumes "launch_browser N p (Some m) None hl w = Some (r, w')"
  shows "\<exists>ls. net_trace w' = (w_sent w, w_launched w @ ls) \<and> length ls \<le> 1
    \<and> list_all (\<lambda>cfg. launched_for cfg p (Some m) None) ls"
proof -
  have sent: "start_browser N cfg w1 = Some (q, w2) \<Longrightarrow> w_sent w2 = w_sent w1" for cfg q and w1 w2 :: "'a world"
    by (cases "nt_launch N cfg (w_env w1)") (auto simp: start_browser_def)
  let ?cfg = "\<lambda>pin. (launch_for_profile p)
      \<lparr>lc_headless := hl, lc_proxy_server := Some (''http://127.0.0.1:'' @ dec (unat (mi_port m))),
       lc_trusted_spki := Some pin\<rparr>"
  show ?thesis
  proof (cases "mi_pin m")
    case (Inl e)
    then show ?thesis using assms
      by (intro exI [of _ "[]"]) (auto simp: launch_browser_def abind_Some Let_def net_trace_def)
  next
    case (Inr pin)
    then have "start_browser N (?cfg pin) w = Some (r, w')"
      using assms by (simp add: launch_browser_def abind_def Let_def)
    then have "net_trace w' = (w_sent w, w_launched w @ [?cfg pin])"
      using sent start_browser_run by (simp add: net_trace_def)
    moreover have "launched_for (?cfg pin) p (Some m) None"
      using Inr by (simp add: launched_for_def launch_for_profile_def launch_config_default_def)
    ultimately show ?thesis by (intro exI [of _ "[?cfg pin]"]) (simp add: list.pred_inject)
  qed
qed

abbreviation built_pool :: "'e net \<Rightarrow> 'st scraper_builder \<Rightarrow> proxy_pool" where
  "built_pool N b \<equiv> with_endpoints (nt_pick N) (sb_proxies b) (sb_strategy b)"

lemma tls_build:
  assumes "build_scraper N b w = Some (r, w')" and "sb_profile b = Some p" and "sb_use_tls_proxy b"
  shows "\<exists>ls. net_trace w' = (w_sent w, w_launched w @ ls) \<and> length ls \<le> 1
      \<and> list_all (\<lambda>cfg. \<exists>m. launched_for cfg p (Some m) None
             \<and> make_client N p (selected (built_pool N b)) = Inr (mi_client m)) ls"
    and "r = Inr sc \<Longrightarrow> sc_profile sc = p \<and> sc_proxy sc \<noteq> None \<and> sc_pool sc = built_pool N b
      \<and> can_rotate_proxy (sc_policy sc) = (2 \<le> healthy_count (built_pool N b)) \<and> egress_agrees N sc"
proof -
  let ?pool = "built_pool N b"
  from assms consider
      e where "start_proxy N p (selected ?pool) (sb_debug b) w = Some (Inl e, w')" "r = Inl e"
    | m w1 where "start_proxy N p (selected ?pool) (sb_debug b) w = Some (Inr m, w1)"
        "abind (launch_browser N p (Some m) None (sb_headless b)) (\<lambda>_.
           aret \<lparr>sc_profile = p, sc_proxy = Some m,
           sc_policy = with_proxy_rotation (2 \<le> healthy_count ?pool) (policy_new (sb_max_attempts b)),
           sc_pool = ?pool, sc_store = sb_store b, sc_sink = sb_sink b, sc_resolver = sb_resolver b,
           sc_locale = resolve_locale (selected_country ?pool) (selected ?pool) (sb_resolver b),
           sc_headless = sb_headless b, sc_debug = sb_debug b\<rparr>) w1 = Some (r, w')"
    unfolding build_scraper_def Let_def by (auto simp: abind_Some)
  note cases = this
  from cases show "\<exists>ls. net_trace w' = (w_sent w, w_launched w @ ls) \<and> length ls \<le> 1
      \<and> list_all (\<lambda>cfg. \<exists>m. launched_for cfg p (Some m) None
             \<and> make_client N p (selected (built_pool N b)) = Inr (mi_client m)) ls"
  proof cases
    case 1
    then show ?thesis using start_proxy_quiet [OF 1(1)] by (intro exI [of _ "[]"]) (simp add: net_trace_def)
  next
    case 2
    obtain q where l: "launch_browser N p (Some m) None (sb_headless b) w1 = Some (q, w')"
      using 2(2) by (auto simp: abind_Some)
    have w1: "w_sent w1 = w_sent w" "w_launched w1 = w_launched w"
      using start_proxy_quiet [OF 2(1)] by (simp_all add: net_trace_def)
    have c: "make_client N p (selected ?pool) = Inr (mi_client m)" using start_proxy_run [OF 2(1)] by blast
    obtain ls where ls: "net_trace w' = (w_sent w1, w_launched w1 @ ls)" "length ls \<le> 1"
        "list_all (\<lambda>cfg. launched_for cfg p (Some m) None) ls"
      using launch_browser_trace [OF l] by blast
    have "list_all (\<lambda>cfg. \<exists>m. launched_for cfg p (Some m) None
             \<and> make_client N p (selected ?pool) = Inr (mi_client m)) ls"
      using ls(3) c by (auto simp: list_all_iff)
    then show ?thesis using ls(1,2) w1 by (intro exI [of _ ls]) simp
  qed
  assume r: "r = Inr sc"
  from cases show "sc_profile sc = p \<and> sc_proxy sc \<noteq> None \<and> sc_pool sc = ?pool
      \<and> can_rotate_proxy (sc_policy sc) = (2 \<le> healthy_count ?pool) \<and> egress_agrees N sc"
  proof cases
    case 1
    then show ?thesis using r by simp
  next
    case 2
    have sc: "sc = \<lparr>sc_profile = p, sc_proxy = Some m,
           sc_policy = with_proxy_rotation (2 \<le> healthy_count ?pool) (policy_new (sb_max_attempts b)),
           sc_pool = ?pool, sc_store = sb_store b, sc_sink = sb_sink b, sc_resolver = sb_resolver b,
           sc_locale = resolve_locale (selected_country ?pool) (selected ?pool) (sb_resolver b),
           sc_headless = sb_headless b, sc_debug = sb_debug b\<rparr>"
      using 2(2) r by (auto simp: abind_Some)
    have "make_client N p (selected ?pool) = Inr (mi_client m)" using start_proxy_run [OF 2(1)] by blast
    then show ?thesis unfolding sc egress_agrees_def by (simp add: with_proxy_rotation_def)
  qed
qed

section \<open>The browser of a session\<close>

lemmas builder_setters = builder_upstream_proxy_def builder_profile_def builder_headless_def builder_with_debug_def

lemma escalation_pool:
  "selected (built_pool N (escalation_builder s)) = browser_upstream (se_upstream s)"
  "healthy_count (built_pool N (escalation_builder s)) < 2"
  by (auto simp: escalation_builder_def builder_new_def builder_setters with_endpoints_def
      selected_def browser_upstream_def healthy_count_def Let_def split: option.splits)

lemma escalation_builder_simps:
  "sb_profile (escalation_builder s) = Some (id_profile (se_identity s))"
  "sb_use_tls_proxy (escalation_builder s)"
  by (simp_all add: escalation_builder_def builder_new_def builder_setters Let_def split: option.split)

text \<open>At most one browser, and no request.\<close>

definition launches_one :: "'e net \<Rightarrow> session \<Rightarrow> 'e world \<Rightarrow> 'e world \<Rightarrow> bool" where
  "launches_one N s w w' \<longleftrightarrow>
     (\<exists>ls. net_trace w' = (w_sent w, w_launched w @ ls) \<and> length ls \<le> 1 \<and> list_all (launch_of N s) ls)"

lemma launches_one_lets_out: "launches_one N s w w' \<Longrightarrow> lets_out N s w w'"
  unfolding launches_one_def lets_out_def by (elim exE conjE, rule exI [of _ "[]"], rule exI) simp

lemma launches_one_then: "launches_one N s w w1 \<Longrightarrow> net_trace w2 = net_trace w1 \<Longrightarrow> launches_one N s w w2"
  by (simp add: launches_one_def)

lemma escalation_build:
  assumes "build_scraper N (escalation_builder s) w = Some (r, w')"
  shows "launches_one N s w w'"
    and "r = Inr sc \<Longrightarrow> browser_inv N (id_profile (se_identity s)) (se_upstream s) sc"
proof -
  note run = tls_build [OF assms escalation_builder_simps]
  show "launches_one N s w w'"
    using run(1) unfolding escalation_pool(1) launches_one_def launch_of_def .
  show "browser_inv N (id_profile (se_identity s)) (se_upstream s) sc" if "r = Inr sc"
    using run(2) [OF that] escalation_pool [of N s] by (auto simp: browser_inv_def)
qed

lemma ses_modify:
  assumes "\<And>s. fixed_part (f s) = fixed_part s" and "\<And>s. session_inv N s \<Longrightarrow> session_inv N (f s)"
  shows "ses.runs_in N (smodify f)"
  by (rule ses.run_modify) (simp add: session_step_def assms lets_out_refl)

lemma ses_demote: "ses.runs_in N (demote_for reason)"
  unfolding demote_for_def
  by (intro ses.run_intros ses_emit ses_modify) (simp_all add: fixed_part_def session_inv_def split: option.splits)

lemma ses_choose: "ses.runs_in N (session_choose N ch)"
  unfolding session_choose_def by (intro ses.run_intros ses_lift keeps_intros frames)

lemma session_emit_run [simp]:
  "session_emit ev s w = Some (Inr (), s, if se_sink s then w\<lparr>w_log := w_log w @ [ev]\<rparr> else w)"
  by (simp add: session_emit_def sbind_def swhen_def slift_def)

lemma escalate_for_idle:
  assumes "se_browser s = None"
  shows "escalate_for N reason s w =
     (case build_scraper N (escalation_builder s) w of
        None \<Rightarrow> None
      | Some (Inl e, w1) \<Rightarrow> Some (Inl e, s, w1)
      | Some (Inr sc, w1) \<Rightarrow>
          (case CdpSession.set_cookies (nt_host N) (id_cookies (se_identity s)) w1 of
             None \<Rightarrow> None
           | Some (Inl e, w2) \<Rightarrow> Some (Inl e, s, w2)
           | Some (Inr _, w2) \<Rightarrow>
               Some (Inr (), s\<lparr>se_browser := Some sc\<rparr>,
                 if se_sink s then w2\<lparr>w_log := w_log w2 @ [SessionEscalated (escalate_reason_label reason)]\<rparr>
                 else w2)))"
proof (cases "build_scraper N (escalation_builder s) w")
  case None
  then show ?thesis using assms by (simp add: escalate_for_def sbind_def slift_def)
next
  case (Some a)
  obtain q w1 where a: "a = (q, w1)" by (cases a)
  show ?thesis
  proof (cases q)
    case (Inl e)
    then show ?thesis using assms Some a by (simp add: escalate_for_def sbind_def slift_def)
  next
    case (Inr sc)
    then have run: "slift (build_scraper N (escalation_builder s)) s w = Some (Inr sc, s, w1)"
      using Some a by (simp add: slift_def)
    have "escalate_for N reason s w = sbind (slift (CdpSession.set_cookies (nt_host N) (id_cookies (se_identity s)))) (\<lambda>_.
       sbind (session_emit (SessionEscalated (escalate_reason_label reason))) (\<lambda>_.
       smodify (\<lambda>s. s\<lparr>se_browser := Some sc\<rparr>))) s w1"
      using assms run unfolding escalate_for_def by (simp add: sbind_def [of sget] sbind_def [of "slift (build_scraper _ _)"])
    also have "\<dots> = (case CdpSession.set_cookies (nt_host N) (id_cookies (se_identity s)) w1 of
             None \<Rightarrow> None
           | Some (Inl e, w2) \<Rightarrow> Some (Inl e, s, w2)
           | Some (Inr _, w2) \<Rightarrow>
               Some (Inr (), s\<lparr>se_browser := Some sc\<rparr>,
                 if se_sink s then w2\<lparr>w_log := w_log w2 @ [SessionEscalated (escalate_reason_label reason)]\<rparr>
                 else w2))"
      by (simp only: sbind_def slift_def session_emit_run sact_simps split: option.split prod.split sum.split) simp
    finally show ?thesis using Some a Inr by (simp only: option.case prod.case sum.case)
  qed
qed

text \<open>An escalation, step by step: the state it reads is the one it leaves until the end.\<close>

lemma escalate_for_run:
  assumes "escalate_for N reason s w = Some (r, s', w')"
  obtains (running) "se_browser s \<noteq> None" "r = Inr ()" "s' = s" "w' = w"
  | (failed) e where "se_browser s = None" "r = Inl e" "s' = s" "launches_one N s w w'"
  | (launched) sc where "se_browser s = None" "r = Inr ()" "s' = s\<lparr>se_browser := Some sc\<rparr>" "launches_one N s w w'"
      "browser_inv N (id_profile (se_identity s)) (se_upstream s) sc"
proof (cases "se_browser s = None")
  case False
  have "escalate_for N reason s w = Some (Inr (), s, w)"
    using False by (simp add: escalate_for_def sbind_def [of sget])
  then show ?thesis using assms running False by simp
next
  case True
  have cookies: "net_trace w2 = net_trace w1" if "CdpSession.set_cookies (nt_host N) cs w1 = Some (q, w2)" for cs q w1 w2
  proof -
    have "keeps net_trace (CdpSession.set_cookies (nt_host N) cs)"
      unfolding CdpSession.set_cookies_def browser_call_def by (intro keeps_intros frames)
    from keepsD [OF this that] show ?thesis .
  qed
  let ?set = "CdpSession.set_cookies (nt_host N) (id_cookies (se_identity s))"
  note run = assms [unfolded escalate_for_idle [OF True]]
  obtain q w1 where b: "build_scraper N (escalation_builder s) w = Some (q, w1)"
    using run by (cases "build_scraper N (escalation_builder s) w") (simp, metis surj_pair)
  note out = escalation_build(1) [OF b]
  show ?thesis
  proof (cases q)
    case (Inl e)
    have "r = Inl e" "s' = s" "w' = w1" using run [unfolded b Inl] by simp_all
    then show ?thesis using failed [OF True] out by simp
  next
    case (Inr sc)
    note run2 = run [unfolded b Inr option.case prod.case sum.case]
    obtain k w2 where k: "?set w1 = Some (k, w2)"
      using run2 by (cases "?set w1") (simp, metis surj_pair)
    have out2: "launches_one N s w w2" by (rule launches_one_then [OF out cookies [OF k]])
    show ?thesis
    proof (cases k)
      case Inl': (Inl e)
      have "r = Inl e" "s' = s" "w' = w2" using run2 [unfolded k Inl'] by simp_all
      then show ?thesis using failed [OF True] out2 by simp
    next
      case Inr': (Inr u)
      let ?ev = "SessionEscalated (escalate_reason_label reason)"
      have f: "r = Inr ()" "s' = s\<lparr>se_browser := Some sc\<rparr>"
          "w' = (if se_sink s then w2\<lparr>w_log := w_log w2 @ [?ev]\<rparr> else w2)"
        using run2 [unfolded k Inr'] by simp_all
      have "net_trace w' = net_trace w2" by (simp add: f(3) net_trace_def)
      then have "launches_one N s w w'" by (rule launches_one_then [OF out2])
      then show ?thesis using launched [OF True f(1,2) _ escalation_build(2) [OF b Inr]] by simp
    qed
  qed
qed

lemma ses_escalate: "ses.runs_in N (escalate_for N reason)"
proof (rule ses.runs_inI)
  fix s w r s' w'
  assume "escalate_for N reason s w = Some (r, s', w')"
  then show "session_step N (s, w) (s', w')"
  proof (cases rule: escalate_for_run)
    case running
    then show ?thesis by (simp add: ses.refl)
  next
    case failed
    then show ?thesis by (simp add: session_step_def launches_one_lets_out)
  next
    case (launched sc)
    then show ?thesis by (simp add: session_step_def fixed_part_def session_inv_def launches_one_lets_out split: option.split)
  qed
qed

lemma ses_reconsider: "ses.runs_in N (reconsider N ch)"
  unfolding reconsider_def apply_transition_def
  by (intro ses.run_bind ses_choose, split transition.split)
     (intro conjI allI impI ses.run_pure ses_escalate ses_demote)

section \<open>Clearing\<close>

definition clear_step ::
    "('st scraper \<times> stealth_identity) \<times> 'e world \<Rightarrow> ('st scraper \<times> stealth_identity) \<times> 'e world \<Rightarrow> bool" where
  "clear_step x y \<longleftrightarrow>
     still_step (fst (fst x), snd x) (fst (fst y), snd y)
     \<and> (snd (fst y))\<lparr>id_cookies := []\<rparr> = (snd (fst x))\<lparr>id_cookies := []\<rparr>"

interpretation clr: step_relation clear_step
  by unfold_locales (auto simp: clear_step_def intro: still.refl still.trans)

lemma clr_lift: "keeps net_trace m \<Longrightarrow> clr.runs_in (slift m)"
  by (rule clr.run_lift) (auto simp: clear_step_def still_step_def store_step_def keeps_def)

lemma clear_on_page_run:
  fixes sc :: "unit scraper" and w :: "'e world"
  assumes "clear_on_page N pg url (sc, i) w = Some (r, (sc', i'), w')" and "\<not> can_rotate_proxy (sc_policy sc)"
  shows "clear_step ((sc, i), w) ((sc', i'), w')"
  using assms(1) unfolding clear_on_page_def
proof (rule clr.at_bind)
  fix q s1 w1
  assume nav: "slift (navigate_and_wait (nt_host N) pg url SESSION_LOAD_TIMEOUT) (sc, i) w = Some (q, s1, w1)"
  have "keeps net_trace (navigate_and_wait (nt_host N) pg url SESSION_LOAD_TIMEOUT)"
    by (intro keeps_intros frames)
  from clr.runs_inD [OF clr_lift [OF this] nav] show "clear_step ((sc, i), w) (s1, w1)" .
next
  let ?rest = "\<lambda>signal. sbind (slift (browser_cookies (nt_host N))) (\<lambda>cookies.
     sbind (slift (now_unix (nt_host N))) (\<lambda>now.
     sbind (smodify (\<lambda>(sc, i). (sc, Identity.set_cookies cookies now i))) (\<lambda>_. sret signal)))
     :: (unit scraper \<times> stealth_identity, 'e, challenge_signal) sact"
  let ?solve = "spart fst (\<lambda>sc (_, i). (sc, i)) (solve_challenge N pg)
     :: (unit scraper \<times> stealth_identity, 'e, challenge_signal) sact"
  fix u s1 w1
  assume "slift (navigate_and_wait (nt_host N) pg url SESSION_LOAD_TIMEOUT) (sc, i) w = Some (Inr u, s1, w1)"
  then have s1: "s1 = (sc, i)" by (simp add: slift_Some)
  assume "sbind ?solve ?rest s1 w1 = Some (r, (sc', i'), w')"
  then show "clear_step (s1, w1) ((sc', i'), w')"
  proof (rule clr.at_bind)
    fix q s2 w2
    assume "?solve s1 w1 = Some (q, s2, w2)"
    then obtain sc2 where "solve_challenge N pg sc w1 = Some (q, sc2, w2)" "s2 = (sc2, i)"
      by (auto simp: spart_def s1 split: option.splits)
    with solve_challenge_still [OF this(1) assms(2)] show "clear_step (s1, w1) (s2, w2)"
      by (simp add: clear_step_def s1)
  next
    fix signal s2 w2
    have "clr.runs_in (smodify (\<lambda>(sc :: unit scraper, i). (sc, Identity.set_cookies cookies now i))
        :: (unit scraper \<times> stealth_identity, 'e, unit) sact)" for cookies now
      by (rule clr.run_modify) (auto simp: clear_step_def still.refl Identity.set_cookies_def)
    moreover have "keeps net_trace (browser_cookies H :: ('e, cookie list) act)" for H
      unfolding browser_cookies_def browser_call_def by (intro keeps_intros frames)
    ultimately have "clr.runs_in (?rest signal)"
      by (intro clr.run_intros clr_lift keeps_intros) simp_all
    then show "?rest signal s2 w2 = Some (r, (sc', i'), w') \<Longrightarrow> clear_step (s2, w2) ((sc', i'), w')"
      by (rule clr.runs_inD)
  qed
qed

lemma store_step_fields:
  assumes "store_step (s, w) (s', w')"
  shows "sc_profile s' = sc_profile s" "sc_proxy s' = sc_proxy s" "sc_pool s' = sc_pool s"
    "sc_policy s' = sc_policy s"
proof -
  have "sc_profile (s\<lparr>sc_store := None\<rparr>) = sc_profile (s'\<lparr>sc_store := None\<rparr>)"
    "sc_proxy (s\<lparr>sc_store := None\<rparr>) = sc_proxy (s'\<lparr>sc_store := None\<rparr>)"
    "sc_pool (s\<lparr>sc_store := None\<rparr>) = sc_pool (s'\<lparr>sc_store := None\<rparr>)"
    using assms by (simp_all only: store_step_def fst_conv)
  then show "sc_profile s' = sc_profile s" "sc_proxy s' = sc_proxy s" "sc_pool s' = sc_pool s" by simp_all
  show "sc_policy s' = sc_policy s" by (rule store_step_policy [OF assms])
qed

lemma store_step_browser:
  assumes "store_step (sc, w) (sc', w')"
  shows "browser_inv N p u sc' = browser_inv N p u sc"
  unfolding browser_inv_def store_step_fields [OF assms] store_step_agrees [OF assms] ..

abbreviation on_browser ::
    "(unit scraper \<times> stealth_identity, 'e, 'a) sact \<Rightarrow> (session, 'e, 'a) sact" where
  "on_browser m \<equiv> spart (\<lambda>s. (the (se_browser s), se_identity s))
     (\<lambda>(sc, i) s. s\<lparr>se_browser := Some sc, se_identity := i\<rparr>) m"

lemma on_browser_run:
  assumes "on_browser (clear_on_page N pg url) s w = Some (r, s', w')" and "se_browser s = Some sc"
  shows "session_step N (s, w) (s', w') \<and> se_browser s' \<noteq> None
    \<and> (\<exists>sc' i'. clear_on_page N pg url (sc, se_identity s) w = Some (r, (sc', i'), w'))"
proof -
  from assms obtain sc' i' where run: "clear_on_page N pg url (sc, se_identity s) w = Some (r, (sc', i'), w')"
    and s': "s' = s\<lparr>se_browser := Some sc', se_identity := i'\<rparr>"
    by (auto simp: spart_def split: option.splits)
  have "fixed_part s' = fixed_part s \<and> session_inv N s' \<and> lets_out N s w w'" if inv: "session_inv N s"
  proof -
    have "\<not> can_rotate_proxy (sc_policy sc)" and b: "browser_inv N (id_profile (se_identity s)) (se_upstream s) sc"
      using inv assms(2) by (simp_all add: session_inv_def browser_inv_def)
    from clear_on_page_run [OF run this(1)]
    have still: "store_step (sc, w) (sc', w')" "net_trace w' = net_trace w"
      and i: "i'\<lparr>id_cookies := []\<rparr> = (se_identity s)\<lparr>id_cookies := []\<rparr>"
      by (simp_all add: clear_step_def still_step_def)
    have p: "id_profile i' = id_profile (se_identity s)" using arg_cong [OF i, of id_profile] by simp
    have f: "fixed_part s' = fixed_part s" by (simp add: fixed_part_def s' i)
    have "session_inv N s'"
      using inv b p store_step_browser [OF still(1), of N]
      by (cases "se_http s") (simp_all add: session_inv_def s')
    then show ?thesis using f lets_out_same [OF still(2)] by blast
  qed
  then show ?thesis using run s' by (simp add: session_step_def)
qed

lemma stealth_page_quiet: "keeps net_trace (new_stealth_page N sc)"
proof -
  have "keeps net_trace (new_page H url)" for H :: "'x host" and url
    unfolding new_page_def browser_call_def by (intro keeps_intros frames)
  moreover have "keeps net_trace (add_init_script H pg js)" for H :: "'x host" and pg js
    unfolding add_init_script_def page_do_def page_call_def by (intro keeps_intros frames)
  ultimately show ?thesis
    unfolding new_stealth_page_def Let_def by (intro keeps_intros) simp_all
qed

lemma close_page_quiet: "keeps net_trace (close_page H pg)"
  unfolding close_page_def browser_call_def by (intro keeps_intros frames)

lemma clear_with_browser_run:
  assumes "clear_with_browser N url s w = Some (r, s', w')"
  shows "session_step N (s, w) (s', w') \<and> (se_browser s \<noteq> None \<longrightarrow> se_browser s' \<noteq> None)"
proof (cases "se_browser s")
  case None
  then show ?thesis using assms ses.refl by (simp add: clear_with_browser_def sbind_def)
next
  case (Some sc)
  let ?on = "\<lambda>pg. stry (on_browser (clear_on_page N pg url))"
  have body: "session_step N (s, w) (s', w') \<and> se_browser s' \<noteq> None"
    if "slift (new_stealth_page N sc) s w = Some (Inr pg, s, w1)" "?on pg s w1 = Some (Inr outcome, s2, w2)"
      "sbind (stry (slift (close_page (nt_host N) pg))) (\<lambda>_. sresult outcome) s2 w2 = Some (r, s', w')"
    for pg w1 outcome s2 w2
  proof -
    have "session_step N (s, w) (s, w1)" by (rule ses.runs_inD [OF ses_lift [OF stealth_page_quiet] that(1)])
    moreover have "session_step N (s, w1) (s2, w2)" "se_browser s2 \<noteq> None"
      using on_browser_run [OF _ Some] that(2) unfolding stry_Some by blast+
    moreover have "session_step N (s2, w2) (s', w')"
    proof -
      have "ses.runs_in N (sbind (stry (slift (close_page (nt_host N) pg))) (\<lambda>_. sresult outcome))"
        by (intro ses.run_intros ses_lift close_page_quiet)
      from ses.runs_inD [OF this that(3)] show ?thesis .
    qed
    moreover have "s' = s2" using that(3) by (auto simp: sbind_Some stry_Some slift_Some)
    ultimately show ?thesis using ses.trans by metis
  qed
  from assms Some have "sbind (slift (new_stealth_page N sc)) (\<lambda>pg. sbind (?on pg) (\<lambda>outcome.
      sbind (stry (slift (close_page (nt_host N) pg))) (\<lambda>_. sresult outcome))) s w = Some (r, s', w')"
    by (simp add: clear_with_browser_def sbind_def [of sget])
  then consider e where "new_stealth_page N sc w = Some (Inl e, w')" "s' = s"
    | pg w1 outcome s2 w2 where "slift (new_stealth_page N sc) s w = Some (Inr pg, s, w1)"
        "?on pg s w1 = Some (Inr outcome, s2, w2)"
        "sbind (stry (slift (close_page (nt_host N) pg))) (\<lambda>_. sresult outcome) s2 w2 = Some (r, s', w')"
    by (auto simp: sbind_Some [of "slift _"] sbind_Some [of "stry (on_browser _)"] slift_Some stry_Some)
  then show ?thesis
  proof cases
    case 1
    then show ?thesis using Some keepsD [OF stealth_page_quiet 1(1)]
      by (simp add: session_step_def lets_out_same)
  next
    case 2
    then show ?thesis using body by blast
  qed
qed

lemma ses_clear: "ses.runs_in N (clear_with_browser N url)"
  using clear_with_browser_run by (intro ses.runs_inI) blast

section \<open>The cheap leg\<close>

lemma http_transport_run:
  assumes "http_transport N s w = Some (r, s', w')"
  shows "w' = w \<and> (\<exists>c. s' = s\<lparr>se_http := c\<rparr>)
    \<and> (session_inv N s \<longrightarrow> session_inv N s'
         \<and> (\<forall>c. r = Inr c \<longrightarrow> make_client N (id_profile (se_identity s)) (se_upstream s) = Inr c))"
proof (cases "se_http s")
  case None
  have "on_identity (scraper_new N (se_upstream s)) s w
      = Some (make_client N (id_profile (se_identity s)) (se_upstream s), s, w)"
    by (simp add: on_identity_def spart_def scraper_new_def sbind_def)
  then show ?thesis using assms None
    by (cases "make_client N (id_profile (se_identity s)) (se_upstream s)")
       (auto simp: http_transport_def sbind_def session_inv_def intro: exI [of _ None] split: option.splits)
next
  case (Some c)
  then have "r = Inr c" "s' = s" "w' = w" using assms by (simp_all add: http_transport_def sbind_def)
  then show ?thesis using Some by (auto simp: session_inv_def intro!: exI [of _ "Some c"])
qed

lemma on_identity_run:
  assumes "on_identity (http_fetch N c url) s w = Some (r, s', w')"
  shows "\<exists>cs rs. s' = s\<lparr>se_identity := (se_identity s)\<lparr>id_cookies := cs\<rparr>\<rparr>
    \<and> w_sent w' = w_sent w @ rs \<and> w_launched w' = w_launched w
    \<and> length rs \<le> 1 \<and> (is_ok r \<longrightarrow> length rs = 1)
    \<and> list_all (\<lambda>(d, req). d = c \<and> (\<exists>secure host path now url.
          req = identity_request (se_identity s) secure host path now url)) rs"
proof -
  from assms obtain i' where run: "http_fetch N c url (se_identity s) w = Some (r, i', w')"
    and s': "s' = s\<lparr>se_identity := i'\<rparr>"
    by (auto simp: on_identity_def spart_def split: option.splits)
  note http_fetch_run [OF run]
  then have i': "i' = (se_identity s)\<lparr>id_cookies := id_cookies i'\<rparr>" and l: "w_launched w' = w_launched w"
    by blast+
  show ?thesis
  proof (cases "parse_target N url")
    case (Inl e)
    then have "r = Inl e" "w' = w" using http_fetch_run [OF run] by simp_all
    then show ?thesis using s' i' by (intro exI [of _ "id_cookies i'"] exI [of _ "[]"]) simp
  next
    case (Inr t)
    obtain u host where t: "t = (u, host)" by (cases t)
    have sent: "w_sent w' = w_sent w @ [(c, identity_request (se_identity s) (u_scheme u = ''https'') host (u_path u)
        (ho_now (nt_host N) (w_env w)) url)]"
      using http_fetch_run [OF run] Inr t by simp
    have "s' = s\<lparr>se_identity := (se_identity s)\<lparr>id_cookies := id_cookies i'\<rparr>\<rparr>" using s' i' by simp
    moreover have "list_all (\<lambda>(d, req). d = c \<and> (\<exists>secure host path now url.
          req = identity_request (se_identity s) secure host path now url))
        [(c, identity_request (se_identity s) (u_scheme u = ''https'') host (u_path u)
            (ho_now (nt_host N) (w_env w)) url)]"
      by (simp only: list.pred_inject prod.case simp_thms) blast
    ultimately show ?thesis using sent l by (intro exI conjI) (assumption, assumption, simp_all)
  qed
qed

lemma ses_http: "ses.runs_in N (http_get N url)"
  unfolding http_get_def
proof (rule ses.runs_inI)
  fix s w r s' w'
  assume "sbind (http_transport N) (\<lambda>c. on_identity (http_fetch N c url)) s w = Some (r, s', w')"
  then consider e where "http_transport N s w = Some (Inl e, s', w')"
    | c s1 w1 where "http_transport N s w = Some (Inr c, s1, w1)"
        "on_identity (http_fetch N c url) s1 w1 = Some (r, s', w')"
    unfolding sbind_Some by blast
  then show "session_step N (s, w) (s', w')"
  proof cases
    case 1
    from http_transport_run [OF 1] show ?thesis by (auto simp: session_step_def fixed_part_def lets_out_refl)
  next
    case 2
    from http_transport_run [OF 2(1)] obtain h where t: "w1 = w" "s1 = s\<lparr>se_http := h\<rparr>"
      "session_inv N s \<Longrightarrow> session_inv N s1"
      "session_inv N s \<Longrightarrow> make_client N (id_profile (se_identity s)) (se_upstream s) = Inr c"
      by blast
    obtain cs rs where f: "s' = s1\<lparr>se_identity := (se_identity s1)\<lparr>id_cookies := cs\<rparr>\<rparr>"
      "w_sent w' = w_sent w1 @ rs" "w_launched w' = w_launched w1"
      "list_all (\<lambda>(d, req). d = c \<and> (\<exists>secure host path now url.
          req = identity_request (se_identity s1) secure host path now url)) rs"
      using on_identity_run [OF 2(2)] by blast
    have "lets_out N s w w'" if inv: "session_inv N s"
    proof -
      have "\<exists>cookies secure host path now url. identity_request (se_identity s) se ho pa no ur
          = identity_request ((se_identity s)\<lparr>id_cookies := cookies\<rparr>) secure host path now url" for se ho pa no ur
        by (intro exI [of _ "id_cookies (se_identity s)"] exI) simp
      then have "list_all (request_of N s) rs"
        using f(4) t(2) t(4) [OF inv] by (fastforce simp: list_all_iff request_of_def)
      then show ?thesis using f(2,3) t(1)
        unfolding lets_out_def by (intro exI [of _ rs] exI [of _ "[]"]) (simp add: net_trace_def)
    qed
    moreover have "session_inv N s'" if "session_inv N s"
      using t(3) [OF that] f(1) by (simp add: session_inv_def split: option.splits)
    ultimately show ?thesis using f(1) t(2) by (simp add: session_step_def fixed_part_def)
  qed
qed

section \<open>Whole fetches\<close>

lemma ses_fetch: "ses.runs_in N (session_fetch N url)"
  unfolding session_fetch_def
  by (intro ses.run_intros ses_reconsider ses_clear ses_http)

end
