(* ===== verification/SessionContract.thy ===== *)
theory SessionContract
  imports SessionSafety
begin

text \<open>
  The contract of a session: what holds after any history of its operations, what a fetch may do to the
  network and how often, that it ends, and what restoring a saved identity means.
\<close>

section \<open>Histories\<close>

datatype session_op = SFetch string | SEscalate | SDemote | SRestore stealth_identity

fun session_do :: "'e net \<Rightarrow> session_op \<Rightarrow> (session, 'e, unit) sact" where
  "session_do N (SFetch url) = sbind (session_fetch N url) (\<lambda>_. sret ())"
| "session_do N SEscalate = escalate N"
| "session_do N SDemote = demote"
| "session_do N (SRestore i) = restore i"

inductive session_reach :: "'e net \<Rightarrow> session \<times> 'e world \<Rightarrow> session \<times> 'e world \<Rightarrow> bool" for N where
  start: "session_reach N x x"
| op: "session_reach N x (s, w) \<Longrightarrow> session_do N act s w = Some (r, s', w') \<Longrightarrow> session_reach N x (s', w')"

text \<open>The invariant, and the egress the identity is bound to.\<close>

definition session_ok :: "'e net \<Rightarrow> session \<Rightarrow> bool" where
  "session_ok N s \<longleftrightarrow> session_inv N s \<and> is_bound_to (se_identity s) (se_upstream s)"

lemma build_session_ok:
  assumes "build_session N b w = Some (Inr s, w')"
  shows "session_ok N s \<and> se_browser s = None \<and> net_trace w' = net_trace w"
proof -
  have "keeps net_trace (build_session N b)"
    unfolding build_session_def random_profile_act_def by (intro keeps_intros frames)
  from keepsD [OF this assms] show ?thesis using assms
    by (auto simp: build_session_def abind_Some session_ok_def session_inv_def is_bound_to_def
        identity_new_def egress_new_def egress_matches_def split: option.split)
qed

lemma restore_run:
  "restore i s w =
     (if is_bound_to i (se_upstream s)
      then Some (Inr (), s\<lparr>se_identity := i, se_http := None, se_browser := None\<rparr>,
             if se_browser s \<noteq> None \<and> se_sink s
             then w\<lparr>w_log := w_log w @ [SessionDemoted (demote_reason_label IdentityReplaced)]\<rparr> else w)
      else Some (Inl (ConfigError
            (''refusing to restore a session earned on ''
             @ (case id_egress i of Some e \<Rightarrow> egress_text e | None \<Rightarrow> ''no proxy'')
             @ '': its cookies belong to that exit IP, so reusing them from this one would be inconsistent'')), s, w))"
proof -
  have "s\<lparr>se_identity := i, se_http := None\<rparr>\<lparr>se_browser := None\<rparr>
      = s\<lparr>se_identity := i, se_http := None, se_browser := None\<rparr>"
    by (cases s) simp
  then show ?thesis by (simp add: restore_def demote_for_def sbind_def swhen_def)
qed

lemma session_do_fixed:
  assumes "session_do N act s w = Some (r, s', w')" and "session_inv N s" and "\<forall>i. act \<noteq> SRestore i"
  shows "fixed_part s' = fixed_part s \<and> session_inv N s' \<and> lets_out N s w w'"
proof -
  have "ses.runs_in N (session_do N act)"
    using assms(3) by (cases act)
      (auto simp: escalate_def demote_def intro!: ses.run_bind ses_fetch ses_escalate ses_demote ses.run_pure)
  from ses.runs_inD [OF this assms(1)] assms(2) show ?thesis by (simp add: session_step_def)
qed

lemma session_do_ok:
  assumes "session_do N act s w = Some (r, s', w')" and "session_ok N s"
  shows "session_ok N s'"
proof (cases "\<exists>i. act = SRestore i")
  case True
  then show ?thesis using assms
    by (auto simp: restore_run session_ok_def session_inv_def split: if_splits)
next
  case False
  then have "fixed_part s' = fixed_part s" "session_inv N s'"
    using session_do_fixed [OF assms(1)] assms(2) by (auto simp: session_ok_def)
  then show ?thesis using assms(2) fixed_parts [of s' s]
    by (simp add: session_ok_def is_bound_to_def)
qed

text \<open>C2. Whatever is asked of a session, in whatever order and however the network and the browser answer,
its two transports speak for one identity: the HTTP client is the one of the identity's profile and the
session's upstream; a running browser was launched for that same profile and forwards through the client
of that profile and that upstream, which it cannot rotate away from; and the identity, restored ones
included, is bound to the session's own egress.\<close>

theorem session_history_ok:
  assumes "build_session N b w0 = Some (Inr s0, w1)" and "session_reach N (s0, w1) (s, w)"
  shows "session_ok N s"
proof -
  have "session_ok N (fst y)" if "session_reach N x y" "session_ok N (fst x)" for x y :: "session \<times> 'a world"
    using that by (induction rule: session_reach.induct) (auto intro: session_do_ok)
  from this [OF assms(2)] show ?thesis using build_session_ok [OF assms(1)] by simp
qed

section \<open>What a fetch lets out\<close>

text \<open>C1. Nothing a server can see changes across a transition: during one fetch, or an escalation or a
demotion by hand, every request is sent by the one client of the profile and upstream, and written from
the identity in all but its cookies, every browser is launched for that profile with the local proxy as
its only way out, and the profile, the locale, the egress and the policy stay.\<close>

theorem session_one_identity:
  assumes "session_ok N s" and "session_do N act s w = Some (r, s', w')" and "\<forall>i. act \<noteq> SRestore i"
  shows "(\<exists>requests launches.
      w_sent w' = w_sent w @ requests \<and> list_all (request_of N s) requests
      \<and> w_launched w' = w_launched w @ launches \<and> list_all (launch_of N s) launches)
    \<and> fixed_part s' = fixed_part s"
  using session_do_fixed [OF assms(2) _ assms(3)] assms(1)
  by (auto simp: session_ok_def lets_out_def net_trace_def)

section \<open>How often\<close>

definition costs ::
    "(session \<Rightarrow> bool) \<Rightarrow> nat \<Rightarrow> nat \<Rightarrow> (session, 'e, 'a) sact \<Rightarrow> (session \<Rightarrow> bool) \<Rightarrow> bool" where
  "costs P a b m Q \<longleftrightarrow>
     (\<forall>s w r s' w'. P s \<longrightarrow> m s w = Some (r, s', w') \<longrightarrow>
        length (w_sent w') \<le> length (w_sent w) + a
        \<and> length (w_launched w') \<le> length (w_launched w) + b \<and> (is_ok r \<longrightarrow> Q s'))"

lemma costs_bind:
  assumes "costs P a b m Q" and "\<And>x. costs Q c d (f x) R"
  shows "costs P (a + c) (b + d) (sbind m f) R"
  unfolding costs_def
proof (intro allI impI)
  fix s w r s' w'
  assume P: "P s" and run: "sbind m f s w = Some (r, s', w')"
  from run consider e where "m s w = Some (Inl e, s', w')" "r = Inl e"
    | x s1 w1 where "m s w = Some (Inr x, s1, w1)" "f x s1 w1 = Some (r, s', w')"
    unfolding sbind_Some by blast
  then show "length (w_sent w') \<le> length (w_sent w) + (a + c)
        \<and> length (w_launched w') \<le> length (w_launched w) + (b + d) \<and> (is_ok r \<longrightarrow> R s')"
  proof cases
    case 1
    have "length (w_sent w') \<le> length (w_sent w) + a" "length (w_launched w') \<le> length (w_launched w) + b"
      using assms(1) P 1(1) unfolding costs_def by blast+
    then show ?thesis using 1(2) by simp
  next
    case 2
    have m: "length (w_sent w1) \<le> length (w_sent w) + a" "length (w_launched w1) \<le> length (w_launched w) + b"
        "Q s1"
      using assms(1) P 2(1) unfolding costs_def by fastforce+
    have "length (w_sent w') \<le> length (w_sent w1) + c" "length (w_launched w') \<le> length (w_launched w1) + d"
        "is_ok r \<longrightarrow> R s'"
      using assms(2) m(3) 2(2) unfolding costs_def by blast+
    then show ?thesis using m(1,2) by simp
  qed
qed

lemma costs_get: "(\<And>t. P t \<Longrightarrow> costs (\<lambda>s. s = t) a b (f t) Q) \<Longrightarrow> costs P a b (sbind sget f) Q"
  unfolding costs_def by (simp add: sbind_def)

lemma costs_mono:
  assumes "costs P a b m Q" "\<And>s. P' s \<Longrightarrow> P s" "a \<le> a'" "b \<le> b'" "\<And>s. Q s \<Longrightarrow> Q' s"
  shows "costs P' a' b' m Q'"
  unfolding costs_def
proof (intro allI impI)
  fix s w r s' w'
  assume P: "P' s" and run: "m s w = Some (r, s', w')"
  have "length (w_sent w') \<le> length (w_sent w) + a \<and> length (w_launched w') \<le> length (w_launched w) + b
      \<and> (is_ok r \<longrightarrow> Q s')"
    using assms(1) run assms(2) [OF P] unfolding costs_def by blast
  then show "length (w_sent w') \<le> length (w_sent w) + a' \<and> length (w_launched w') \<le> length (w_launched w) + b'
      \<and> (is_ok r \<longrightarrow> Q' s')"
    using assms(3,4,5) by auto
qed

lemma costs_ret: "costs P 0 0 (sret x) P"
  by (simp add: costs_def)

lemma reconsider_run:
  assumes "reconsider N ch s w = Some (r, s', w')"
  shows "w_sent w' = w_sent w"
    and "\<exists>ls. w_launched w' = w_launched w @ ls \<and> length ls \<le> 1 \<and> (se_browser s \<noteq> None \<longrightarrow> ls = [])"
    and "ch \<Longrightarrow> is_ok r \<Longrightarrow> se_browser s' \<noteq> None"
proof -
  define t where "t = session_decide (se_policy s) (session_mode_of s) (se_identity s) ch (ho_now (nt_host N) (w_env w))"
  have run: "apply_transition N t s w = Some (r, s', w')"
    using assms by (simp add: reconsider_def session_choose_def sbind_def slift_def t_def)
  have "w_sent w' = w_sent w
    \<and> (\<exists>ls. w_launched w' = w_launched w @ ls \<and> length ls \<le> 1 \<and> (se_browser s \<noteq> None \<longrightarrow> ls = []))
    \<and> (ch \<and> is_ok r \<longrightarrow> se_browser s' \<noteq> None)"
  proof (cases t)
    case Stay
    then have "s' = s" "w' = w" using run by (simp_all add: apply_transition_def)
    moreover have "se_browser s \<noteq> None" if ch
      using that Stay by (auto simp: t_def session_mode_of_def session_decide_def decide_http_def split: if_splits)
    ultimately show ?thesis by simp
  next
    case (Escalate reason)
    then have "escalate_for N reason s w = Some (r, s', w')" using run by (simp add: apply_transition_def)
    then show ?thesis
      by (cases rule: escalate_for_run) (auto simp: launches_one_def net_trace_def)
  next
    case (Demote reason)
    then have "\<not> ch"
      by (auto simp: t_def session_decide_def decide_http_def decide_browser_def
          split: session_mode.splits option.splits if_splits)
    moreover have "net_trace w' = net_trace w"
      using run Demote by (auto simp: apply_transition_def demote_for_def sbind_def swhen_def net_trace_def split: if_splits)
    ultimately show ?thesis by (simp add: net_trace_def)
  qed
  then show "w_sent w' = w_sent w"
    and "\<exists>ls. w_launched w' = w_launched w @ ls \<and> length ls \<le> 1 \<and> (se_browser s \<noteq> None \<longrightarrow> ls = [])"
    and "ch \<Longrightarrow> is_ok r \<Longrightarrow> se_browser s' \<noteq> None" by blast+
qed

lemma costs_reconsider:
  "costs (\<lambda>_. True) 0 1 (reconsider N ch) (\<lambda>_. True)"
  "costs (\<lambda>s. se_browser s \<noteq> None) 0 0 (reconsider N ch) (\<lambda>_. True)"
  unfolding costs_def using reconsider_run by fastforce+

text \<open>Clearing touches neither, even where a scraper may rotate.\<close>

interpretation quiet: step_relation "\<lambda>x y. net_trace (snd y) = net_trace (snd x)"
  by unfold_locales simp_all

lemma quiet_lift: "keeps net_trace m \<Longrightarrow> quiet.runs_in (slift m)"
  by (rule quiet.run_lift) (auto simp: keeps_def)

lemma quiet_emit: "quiet.runs_in (semit ev)"
  by (rule quiet.runs_inI) (simp add: net_trace_def)

lemma quiet_record: "quiet.runs_in (record_for_host N host out)"
  by (rule quiet.runs_inI)
     (auto simp: record_for_host_def record_outcome_def Let_def split: option.splits prod.splits)

lemma quiet_rotate: "quiet.runs_in (rotate_proxy N)"
  by (rule quiet.runs_inI) (auto simp: rotate_proxy_def split: option.splits prod.splits sum.splits)

lemma quiet_loop:
  "quiet.runs_in (solve_loop n N pg host attempt saw :: ('st scraper, 'e, challenge_signal) sact)"
proof (induction n arbitrary: attempt saw)
  case 0
  show ?case by (rule quiet.runs_inI) simp
next
  case (Suc n)
  have wait: "quiet.runs_in (wait_step N pg host k d)" for k d
    unfolding wait_step_def by (intro quiet.run_intros quiet_lift quiet_emit keeps_intros frames)
  have rotate: "quiet.runs_in (rotate_and_reload N pg host k)" for k
    unfolding rotate_and_reload_def
    by (intro quiet.run_intros quiet_lift quiet_emit quiet_record quiet_rotate keeps_intros frames)
  have "quiet.runs_in (after_decision N pg host attempt saw (\<lambda>nxt. solve_loop n N pg host nxt True) signal act
      :: ('st scraper, 'e, challenge_signal) sact)" for signal act
    unfolding after_decision_def
    by (cases act) (auto intro!: quiet.run_bind quiet.run_try quiet.run_pure quiet_emit quiet_record wait rotate Suc.IH)
  then show ?case
    unfolding solve_loop_Suc by (intro quiet.run_intros quiet_lift quiet_emit keeps_intros frames) simp_all
qed

lemma quiet_clear: "quiet.runs_in (clear_with_browser N url)"
proof -
  have solve: "quiet.runs_in (solve_challenge N pg)" for pg
    unfolding solve_challenge_def by (intro quiet.run_intros quiet_lift quiet_loop keeps_intros frames)
  have part: "quiet.runs_in m \<Longrightarrow> quiet.runs_in (spart g f m)"
    for m :: "('p, 'e, 'b) sact" and g and f :: "'p \<Rightarrow> 'q \<Rightarrow> 'q"
    unfolding quiet.runs_in_def spart_def by (fastforce split: option.splits prod.splits)
  have cookies: "keeps net_trace (browser_cookies H)" for H :: "'x host"
    unfolding browser_cookies_def browser_call_def by (intro keeps_intros frames)
  have "quiet.runs_in (clear_on_page N pg url)" for pg
    unfolding clear_on_page_def
    by (intro quiet.run_intros quiet_lift part solve cookies quiet.run_modify keeps_intros frames) simp
  then show ?thesis
    unfolding clear_with_browser_def
    by (intro quiet.run_intros quiet_lift part stealth_page_quiet close_page_quiet)
qed

lemma clear_trace:
  assumes "clear_with_browser N url s w = Some (r, s', w')"
  shows "w_sent w' = w_sent w" "w_launched w' = w_launched w"
  using quiet.runs_inD [OF quiet_clear assms] by (simp_all add: net_trace_def)

lemma costs_clear: "costs (\<lambda>s. se_browser s \<noteq> None) 0 0 (clear_with_browser N url) (\<lambda>s. se_browser s \<noteq> None)"
  unfolding costs_def using clear_trace clear_with_browser_run by fastforce

text \<open>The plain leg sends one request at most, and exactly one when it succeeds.\<close>

lemma http_get_trace:
  assumes "http_get N url s w = Some (r, s', w')"
  shows "w_launched w' = w_launched w" "se_browser s' = se_browser s"
    and "length (w_sent w') \<le> length (w_sent w) + 1"
    and "is_ok r \<Longrightarrow> length (w_sent w') = length (w_sent w) + 1"
proof -
  from assms consider e where "http_transport N s w = Some (Inl e, s', w')" "r = Inl e"
    | c s1 w1 where "http_transport N s w = Some (Inr c, s1, w1)"
        "on_identity (http_fetch N c url) s1 w1 = Some (r, s', w')"
    unfolding http_get_def sbind_Some by blast
  then have "w_launched w' = w_launched w \<and> se_browser s' = se_browser s
    \<and> length (w_sent w') \<le> length (w_sent w) + 1 \<and> (is_ok r \<longrightarrow> length (w_sent w') = length (w_sent w) + 1)"
  proof cases
    case 1
    then show ?thesis using http_transport_run [OF 1(1)] by auto
  next
    case 2
    then show ?thesis using http_transport_run [OF 2(1)] on_identity_run [OF 2(2)] by auto
  qed
  then show "w_launched w' = w_launched w" "se_browser s' = se_browser s"
    and "length (w_sent w') \<le> length (w_sent w) + 1"
    and "is_ok r \<Longrightarrow> length (w_sent w') = length (w_sent w) + 1" by blast+
qed

lemma costs_http: "costs P 1 0 (http_get N url) (\<lambda>_. True)"
  unfolding costs_def using http_get_trace by (metis add_0_right order_refl)

abbreviation retry :: "'e net \<Rightarrow> string \<Rightarrow> http_response \<Rightarrow> (session, 'e, http_response) sact" where
  "retry N url response \<equiv>
     sbind (reconsider N True) (\<lambda>_.
     sbind sget (\<lambda>s.
     if se_browser s = None then sret response
     else
       sbind (clear_with_browser N url) (\<lambda>_.
       sbind (reconsider N False) (\<lambda>_.
       http_get N url))))"

lemma costs_retry: "costs (\<lambda>_. True) 1 1 (retry N url response) (\<lambda>_. True)"
proof -
  have "costs (\<lambda>s. se_browser s \<noteq> None) (0 + (0 + 1)) (0 + (0 + 0))
      (sbind (clear_with_browser N url) (\<lambda>_. sbind (reconsider N False) (\<lambda>_. http_get N url))) (\<lambda>_. True)"
    by (rule costs_bind [OF costs_clear]) (rule costs_bind [OF costs_reconsider(2) costs_http])
  note body = this
  have "costs (\<lambda>s. s = t) 1 0 (if se_browser t = None then sret response
     else sbind (clear_with_browser N url) (\<lambda>_. sbind (reconsider N False) (\<lambda>_. http_get N url))) (\<lambda>_. True)" for t :: session
  proof (cases "se_browser t = None")
    case True
    have "costs (\<lambda>s. s = t) 1 0 (sret response) (\<lambda>_. True)" by (rule costs_mono [OF costs_ret]) simp_all
    then show ?thesis using True by simp
  next
    case False
    have "costs (\<lambda>s. s = t) 1 0
        (sbind (clear_with_browser N url) (\<lambda>_. sbind (reconsider N False) (\<lambda>_. http_get N url))) (\<lambda>_. True)"
      by (rule costs_mono [OF body]) (use False in simp_all)
    then show ?thesis by (simp only: False if_False)
  qed
  from costs_bind [OF costs_reconsider(1) costs_get [OF this]] show ?thesis by simp
qed

abbreviation leg :: "'e net \<Rightarrow> string \<Rightarrow> (session, 'e, http_response) sact" where
  "leg N url \<equiv>
     sbind (http_get N url) (\<lambda>response.
     if \<not> response_is_challenge response then sret response else retry N url response)"

lemma costs_if: "costs P a b m Q \<Longrightarrow> costs P a b n Q \<Longrightarrow> costs P a b (if c then m else n) Q"
  by simp

lemma costs_leg: "costs P 2 1 (leg N url) (\<lambda>_. True)"
proof -
  have "costs (\<lambda>_. True) 1 1 (sret response) (\<lambda>_. True)" for response
    by (rule costs_mono [OF costs_ret]) simp_all
  from costs_bind [OF costs_http costs_if [OF this costs_retry]]
  have "costs P (1 + 1) (0 + 1) (leg N url) (\<lambda>_. True)" .
  then show ?thesis by (simp only: one_add_one add_0)
qed

lemma costs_fetch: "costs (\<lambda>_. True) 2 2 (session_fetch N url) (\<lambda>_. True)"
proof -
  have warm: "costs (\<lambda>s. s = t) (0 + 2) (0 + 1) (sbind (swhen (se_browser t \<noteq> None)
      (sbind (clear_with_browser N url) (\<lambda>_. reconsider N False))) (\<lambda>_. leg N url)) (\<lambda>_. True)" for t :: session
  proof (rule costs_bind [OF _ costs_leg])
    show "costs (\<lambda>s. s = t) 0 0 (swhen (se_browser t \<noteq> None)
        (sbind (clear_with_browser N url) (\<lambda>_. reconsider N False))) (\<lambda>_. True)"
      unfolding swhen_def
    proof (cases "se_browser t = None")
      case True
      have "costs (\<lambda>s. s = t) 0 0 (sret ()) (\<lambda>_. True)" by (rule costs_mono [OF costs_ret]) simp_all
      then show "costs (\<lambda>s. s = t) 0 0 (if se_browser t \<noteq> None
        then sbind (clear_with_browser N url) (\<lambda>_. reconsider N False) else sret ()) (\<lambda>_. True)"
        by (simp only: True simp_thms if_False)
    next
      case False
      have "costs (\<lambda>s. s = t) 0 0 (sbind (clear_with_browser N url) (\<lambda>_. reconsider N False)) (\<lambda>_. True)"
        by (rule costs_mono [OF costs_bind [OF costs_clear costs_reconsider(2)]]) (use False in simp_all)
      then show "costs (\<lambda>s. s = t) 0 0 (if se_browser t \<noteq> None
        then sbind (clear_with_browser N url) (\<lambda>_. reconsider N False) else sret ()) (\<lambda>_. True)"
        by (simp only: False simp_thms if_True)
    qed
  qed
  from costs_bind [OF costs_reconsider(1) costs_get [OF warm]]
  have "costs (\<lambda>_. True) (0 + (0 + 2)) (1 + (0 + 1)) (session_fetch N url) (\<lambda>_. True)"
    unfolding session_fetch_def .
  then show ?thesis by (simp only: one_add_one add_0)
qed

text \<open>C27. A fetch is bounded whatever happens: it sends at most two HTTP requests and launches at most two
browsers, however often it is challenged, whatever the policy and whatever fails on the way.\<close>

theorem session_fetch_bounded:
  assumes "session_fetch N url s w = Some (r, s', w')"
  shows "length (w_sent w') \<le> length (w_sent w) + 2 \<and> length (w_launched w') \<le> length (w_launched w) + 2"
  using costs_fetch assms unfolding costs_def by blast

section \<open>An answer that was never questioned is clean\<close>

lemma retry_sends:
  assumes "retry N url response s w = Some (Inr answer, s', w')"
  shows "length (w_sent w') = length (w_sent w) + 1"
proof -
  obtain u s1 w1 where 1: "reconsider N True s w = Some (Inr u, s1, w1)"
    and rest: "(if se_browser s1 = None then sret response
       else sbind (clear_with_browser N url) (\<lambda>_. sbind (reconsider N False) (\<lambda>_. http_get N url))) s1 w1
       = Some (Inr answer, s', w')"
    using assms by (auto simp: sbind_Some)
  have b: "se_browser s1 \<noteq> None" using reconsider_run(3) [OF 1] by simp
  obtain v s2 w2 x s3 w3 where 2: "clear_with_browser N url s1 w1 = Some (Inr v, s2, w2)"
    and 3: "reconsider N False s2 w2 = Some (Inr x, s3, w3)"
    and 4: "http_get N url s3 w3 = Some (Inr answer, s', w')"
    using rest b by (auto simp: sbind_Some)
  show ?thesis
    using http_get_trace(4) [OF 4] reconsider_run(1) [OF 3] clear_trace(1) [OF 2] reconsider_run(1) [OF 1]
    by simp
qed

lemma fetch_answers:
  assumes "session_fetch N url s w = Some (Inr answer, s', w')"
  shows "(length (w_sent w') = length (w_sent w) + 1 \<and> \<not> response_is_challenge answer)
    \<or> length (w_sent w') = length (w_sent w) + 2"
proof -
  obtain u s1 w1 where 1: "reconsider N False s w = Some (Inr u, s1, w1)"
    and rest: "sbind (swhen (se_browser s1 \<noteq> None) (sbind (clear_with_browser N url) (\<lambda>_. reconsider N False)))
       (\<lambda>_. leg N url) s1 w1 = Some (Inr answer, s', w')"
    using assms by (auto simp: session_fetch_def sbind_Some [of "reconsider _ _"] sbind_Some [of sget])
  obtain v s2 w2 where 2: "swhen (se_browser s1 \<noteq> None) (sbind (clear_with_browser N url) (\<lambda>_. reconsider N False))
       s1 w1 = Some (Inr v, s2, w2)"
    and 3: "leg N url s2 w2 = Some (Inr answer, s', w')"
    using rest by (auto simp: sbind_Some [of "swhen _ _"])
  have "w_sent w2 = w_sent w1"
    using 2 by (auto simp: swhen_def sbind_Some dest!: clear_trace(1) reconsider_run(1) split: if_splits)
  then have w2: "length (w_sent w2) = length (w_sent w)" using reconsider_run(1) [OF 1] by simp
  obtain response s3 w3 where 4: "http_get N url s2 w2 = Some (Inr response, s3, w3)"
    and 5: "(if \<not> response_is_challenge response then sret response else retry N url response) s3 w3
       = Some (Inr answer, s', w')"
    using 3 by (auto simp: sbind_Some [of "http_get _ _"])
  have w3: "length (w_sent w3) = length (w_sent w) + 1" using http_get_trace(4) [OF 4] w2 by simp
  show ?thesis
  proof (cases "response_is_challenge response")
    case False
    then show ?thesis using 5 w3 by simp
  next
    case True
    then have "retry N url response s3 w3 = Some (Inr answer, s', w')" using 5 by (simp only: simp_thms if_False)
    from retry_sends [OF this] w3 show ?thesis by simp
  qed
qed

text \<open>A challenge is never handed back on the first try: when a fetch succeeds it has sent one request,
and the answer then is no challenge, or two, the second after the page was cleared with a browser; the
case in which the policy declines to escalate cannot arise.\<close>

theorem fetch_never_declines:
  assumes "session_fetch N url s w = Some (Inr answer, s', w')"
  shows "length (w_sent w') \<in> {length (w_sent w) + 1, length (w_sent w) + 2}
    \<and> (response_is_challenge answer \<longrightarrow> length (w_sent w') = length (w_sent w) + 2)"
  using fetch_answers [OF assms] by auto

section \<open>Fetches end\<close>

lemma returns_pages [returns_intros]:
  "returns (new_page H url)" "returns (close_page H pg)" "returns (browser_cookies H)"
  "returns (CdpSession.set_cookies H cs)" "returns (navigate_and_wait H pg url t)"
  "returns (new_stealth_page N sc)"
proof -
  have w: "returns (wait H lw t)" "returns (subscribe pg)" for lw t and pg :: page
    by (auto simp: returns_def wait_def subscribe_def split: prod.splits)
  have e: "returns (enable_domain H pg d)" for pg d
    unfolding returns_def enable_domain_def page_call_def abind_def cdp_send_def
    by (auto split: option.splits sum.splits prod.splits)
  have np: "returns (new_page H url)" for H :: "'x host" and url
    unfolding new_page_def browser_call_def fresh_page_def
    by (intro returns_intros) (simp add: returns_def)
  then show "returns (new_page H url)" .
  show "returns (close_page H pg)" "returns (browser_cookies H)" "returns (CdpSession.set_cookies H cs)"
    unfolding close_page_def browser_cookies_def CdpSession.set_cookies_def browser_call_def
    by (intro returns_intros)+
  show "returns (navigate_and_wait H pg url t)"
    unfolding navigate_and_wait_def watch_load_def navigate_def page_call_def
    by (intro returns_intros w e)
  show "returns (new_stealth_page N sc)"
    unfolding new_stealth_page_def Let_def add_init_script_def page_do_def page_call_def
    by (intro returns_intros np)
qed

lemma returns_build [returns_intros]: "returns (build_scraper N b)"
  unfolding build_scraper_def random_profile_act_def start_proxy_def launch_browser_def Let_def
  by (intro returns_intros)

lemma sreturns_session [sreturns_intros]:
  "sreturns (session_emit ev)" "sreturns (reconsider N ch)" "sreturns (http_get N url)"
proof -
  show emit: "sreturns (session_emit ev)" for ev :: scraper_event by (simp add: sreturns_def)
  have escalate: "sreturns (escalate_for N reason)" for reason
    unfolding escalate_for_def by (intro sreturns_intros returns_intros emit)
  have demote: "sreturns (demote_for reason)" for reason
    unfolding demote_for_def by (intro sreturns_intros emit)
  have "sreturns (apply_transition N t)" for t
    unfolding apply_transition_def by (cases t) (auto intro: sreturns_intros escalate demote)
  then show "sreturns (reconsider N ch)"
    unfolding reconsider_def session_choose_def by (intro sreturns_intros returns_intros)
  have "sreturns (case x of (u, host) \<Rightarrow> m u host)"
    if "\<And>u host. sreturns (m u host)" for x and m :: "url \<Rightarrow> string \<Rightarrow> (stealth_identity, 'e, 'c) sact"
    using that by (cases x) simp
  note pair = this
  have "sreturns (http_fetch N c url)" for c
    unfolding http_fetch_def by (intro sreturns_intros returns_intros pair)
  then show "sreturns (http_get N url)"
    unfolding http_get_def http_transport_def on_identity_def scraper_new_def by (intro sreturns_intros)
qed

lemma sreturns_clear:
  assumes "fuel_ok (nt_host N)"
  shows "sreturns (clear_with_browser N url)"
proof -
  have "sreturns (solve_challenge N pg)" for pg
    unfolding sreturns_def by (intro allI solve_challenge_total assms)
  then show ?thesis
    unfolding clear_with_browser_def clear_on_page_def by (intro sreturns_intros returns_intros)
qed

lemma sreturns_fetch: "fuel_ok (nt_host N) \<Longrightarrow> sreturns (session_fetch N url)"
  unfolding session_fetch_def by (intro sreturns_intros sreturns_clear)

text \<open>C14. Every fetch ends: given clocks that advance and room for the polling of the selectors, a fetch
returns an answer or an error from any state of the session, whatever the browser and the network do.\<close>

theorem session_fetch_returns:
  assumes "fuel_ok (nt_host N)"
  shows "\<exists>r s' w'. session_fetch N url s w = Some (r, s', w')"
  using sreturns_fetch [OF assms, of url] unfolding sreturns_def by (metis option.exhaust surj_pair)

section \<open>Restoring\<close>


section \<open>A concrete session\<close>

definition plain_session :: session where
  "plain_session =
     \<lparr>se_identity = identity_new (sc_profile sample_scraper), se_policy = session_policy_default,
      se_upstream = None, se_headless = True, se_debug = False, se_sink = True, se_browser = None,
      se_http = None\<rparr>"

definition plain_builder :: session_builder where
  "plain_builder = session_with_event_sink (session_profile (sc_profile sample_scraper) session_builder_new)"

lemma plain_session_build: "build_session plain_net plain_builder w = Some (Inr plain_session, w)"
  by (simp add: build_session_def plain_builder_def session_with_event_sink_def session_profile_def session_builder_new_def plain_session_def identity_new_def)

lemma plain_session_ok: "session_ok plain_net plain_session"
  by (simp add: session_ok_def session_inv_def plain_session_def is_bound_to_def identity_new_def)

lemma plain_client: "make_client plain_net p u
    = Inr \<lparr>hc_emulation = for_kind (browser_kind p), hc_proxy = u, hc_timeout = UPSTREAM_TIMEOUT\<rparr>"
  by (simp add: make_client_def build_impersonation_client_def plain_net_def split: option.split)

definition plain_reply :: http_reply where
  "plain_reply =
     \<lparr>rp_status = 200, rp_headers = [(''set-cookie'', Some ''a=1'')], rp_body = Inr ''ok''\<rparr>"

lemma plain_reply_clean: "\<not> is_challenge (classify plain_reply ''ok'')"
  by code_simp

lemma plain_stays: "reconsider plain_net False plain_session w = Some (Inr (), plain_session, w)"
  by (simp add: reconsider_def session_choose_def sbind_def slift_def session_mode_of_def plain_session_def
      session_decide_def decide_http_def clearance_def identity_new_def session_policy_default_def
      apply_transition_def)

lemma plain_get: "\<exists>answer s' w'. http_get plain_net ''u'' plain_session w = Some (Inr answer, s', w')
    \<and> \<not> response_is_challenge answer"
proof -
  let ?c = "\<lparr>hc_emulation = for_kind (browser_kind (sc_profile sample_scraper)), hc_proxy = None,
      hc_timeout = UPSTREAM_TIMEOUT\<rparr>"
  let ?s = "plain_session\<lparr>se_http := Some ?c\<rparr>"
  have t: "http_transport plain_net plain_session w = Some (Inr ?c, ?s, w)"
    by (simp add: http_transport_def sbind_def on_identity_def spart_def scraper_new_def plain_client
        plain_session_def identity_new_def)
  have target: "parse_target plain_net ''u'' = Inr (plain_url, ''h'')"
    by (simp add: parse_target_def plain_net_def plain_url_def)
  obtain w1 where send: "http_send plain_net ?c (identity_request (se_identity ?s) (u_scheme plain_url = ''https'') ''h''
      (u_path plain_url) (ho_now (nt_host plain_net) (w_env w)) ''u'') w = Some (Inr plain_reply, w1)"
    by (simp add: http_send_def plain_net_def plain_reply_def)
  have "\<exists>i'. http_fetch plain_net ?c ''u'' (se_identity ?s) w
      = Some (Inr \<lparr>rs_status = 200, rs_body = ''ok'', rs_signal = classify plain_reply ''ok''\<rparr>, i', w1)"
    unfolding http_fetch_target [OF target send]
    by (simp add: fetch_outcome_def read_body_def plain_reply_def)
  then obtain i' where f: "http_fetch plain_net ?c ''u'' (se_identity ?s) w
      = Some (Inr \<lparr>rs_status = 200, rs_body = ''ok'', rs_signal = classify plain_reply ''ok''\<rparr>, i', w1)" ..
  have "http_get plain_net ''u'' plain_session w = on_identity (http_fetch plain_net ?c ''u'') ?s w"
    unfolding http_get_def by (simp only: sbind_def t option.case prod.case sum.case)
  also have "\<dots> = Some (Inr \<lparr>rs_status = 200, rs_body = ''ok'', rs_signal = classify plain_reply ''ok''\<rparr>,
      ?s\<lparr>se_identity := i'\<rparr>, w1)"
    unfolding on_identity_def spart_def f by simp
  finally show ?thesis using plain_reply_clean by (simp add: response_is_challenge_def)
qed

lemma plain_fetch: "\<exists>answer s' w'. session_fetch plain_net ''u'' plain_session w = Some (Inr answer, s', w')
    \<and> length (w_sent w') = length (w_sent w) + 1"
proof -
  obtain answer s' w' where g: "http_get plain_net ''u'' plain_session w = Some (Inr answer, s', w')"
      "\<not> response_is_challenge answer"
    using plain_get by blast
  have "se_browser plain_session = None" by (simp add: plain_session_def)
  then have "session_fetch plain_net ''u'' plain_session w = Some (Inr answer, s', w')"
    by (simp add: session_fetch_def sbind_def [of "reconsider _ _"] sbind_def [of sget] sbind_def [of "sret _"]
        sbind_def [of "http_get _ _"] swhen_def plain_stays g)
  then show ?thesis using http_get_trace(4) [OF g(1)] by auto
qed

lemma plain_history:
  "\<exists>s w. session_reach plain_net (plain_session, plain_world) (s, w) \<and> length (w_sent w) = 1"
proof -
  obtain answer s' w' where f: "session_fetch plain_net ''u'' plain_session plain_world = Some (Inr answer, s', w')"
      "length (w_sent w') = length (w_sent plain_world) + 1"
    using plain_fetch by blast
  have "session_do plain_net (SFetch ''u'') plain_session plain_world = Some (Inr (), s', w')"
    by (simp add: sbind_def f)
  from session_reach.op [OF session_reach.start this] f(2) show ?thesis
    by (auto simp: plain_world_def)
qed

theorem session_history_ok_witness:
  "\<exists>s w. session_reach plain_net (plain_session, plain_world) (s, w) \<and> length (w_sent w) = 1
     \<and> session_ok plain_net s"
proof -
  obtain s w where h: "session_reach plain_net (plain_session, plain_world) (s, w)" "length (w_sent w) = 1"
    using plain_history by blast
  from session_history_ok [OF plain_session_build h(1)] h show ?thesis by blast
qed

theorem session_one_identity_witness:
  "\<exists>s' w' requests. session_do plain_net (SFetch ''u'') plain_session plain_world = Some (Inr (), s', w')
     \<and> w_sent w' = requests \<and> length requests = 1 \<and> list_all (request_of plain_net plain_session) requests"
proof -
  obtain answer s' w' where f: "session_fetch plain_net ''u'' plain_session plain_world = Some (Inr answer, s', w')"
      "length (w_sent w') = length (w_sent plain_world) + 1"
    using plain_fetch by blast
  have run: "session_do plain_net (SFetch ''u'') plain_session plain_world = Some (Inr (), s', w')"
    by (simp add: sbind_def f)
  have "w_sent plain_world = []" by (simp add: plain_world_def)
  with session_one_identity [OF plain_session_ok run] f(2) run show ?thesis by auto
qed

theorem session_fetch_bounded_witness:
  "\<exists>r s' w'. session_fetch plain_net ''u'' plain_session plain_world = Some (r, s', w')
     \<and> length (w_sent w') \<le> 2 \<and> length (w_launched w') \<le> 2"
proof -
  obtain answer s' w' where f: "session_fetch plain_net ''u'' plain_session plain_world = Some (Inr answer, s', w')"
    using plain_fetch by blast
  from session_fetch_bounded [OF f] f show ?thesis by (auto simp: plain_world_def)
qed

theorem fetch_never_declines_witness:
  "\<exists>answer s' w'. session_fetch plain_net ''u'' plain_session plain_world = Some (Inr answer, s', w')
     \<and> length (w_sent w') = 1 \<and> \<not> response_is_challenge answer"
proof -
  obtain answer s' w' where f: "session_fetch plain_net ''u'' plain_session plain_world = Some (Inr answer, s', w')"
      "length (w_sent w') = length (w_sent plain_world) + 1"
    using plain_fetch by blast
  from fetch_never_declines [OF f(1)] f show ?thesis by (auto simp: plain_world_def)
qed

theorem session_fetch_returns_witness:
  "\<exists>r s' w'. session_fetch plain_net ''u'' plain_session plain_world = Some (r, s', w')"
  by (rule session_fetch_returns [OF plain_fuel])

end
