(* ===== verification/CertAuthority.thy ===== *)
theory CertAuthority
  imports Events
begin

text \<open>
  Models \<open>src/src/ca.rs\<close>: which hosts a certificate is minted for, what the certificates say, and the
  bounded cache of acceptors. The TLS library is an argument: \<open>bt_fail\<close> gives the text of the error of
  the call made under a context, \<open>bt_until\<close> its clock; what it was asked to build is a \<open>certificate\<close>.
  Keys are numbers. The locale \<open>bounded_cache\<close> is what minting relies on; the leaf cache interprets it.
\<close>

section \<open>Constants\<close>

definition MAX_CACHED_HOSTS :: nat where "MAX_CACHED_HOSTS = 256"
definition LEAF_VALIDITY_DAYS :: u32 where "LEAF_VALIDITY_DAYS = 30"
definition CA_VALIDITY_DAYS :: u32 where "CA_VALIDITY_DAYS = 365"
definition BACKDATE :: duration where "BACKDATE = from_secs (60 * 60)"
definition CA_COMMON_NAME :: string where "CA_COMMON_NAME = ''stealthscraper-rs local MITM CA''"
definition SERIAL_BITS :: nat where "SERIAL_BITS = 64"
definition ALPN_WIRE :: string where "ALPN_WIRE = CHR 0x08 # ''http/1.1''"
definition MAX_HOST_LEN :: nat where "MAX_HOST_LEN = 253"
definition MAX_LABEL_LEN :: nat where "MAX_LABEL_LEN = 63"
definition MAX_COMMON_NAME_LEN :: nat where "MAX_COMMON_NAME_LEN = 64"

section \<open>Hosts\<close>

definition label_char :: "char \<Rightarrow> bool" where
  "label_char b \<longleftrightarrow> is_alnum b \<or> b = CHR ''-'' \<or> b = CHR ''_''"

definition valid_label :: "string \<Rightarrow> bool" where
  "valid_label label \<longleftrightarrow>
     label \<noteq> [] \<and> length label \<le> MAX_LABEL_LEN \<and> hd label \<noteq> CHR ''-'' \<and> last label \<noteq> CHR ''-''
     \<and> list_all label_char label"

definition is_valid_host :: "string \<Rightarrow> bool" where
  "is_valid_host host =
     (if host = [] \<or> MAX_HOST_LEN < length host then False
      else if is_ip_addr host then True
      else (let name = (case strip_suffix ''.'' host of Some n \<Rightarrow> n | None \<Rightarrow> host) in
            if name = [] then False
            else list_all valid_label (split_char (CHR ''.'') name)))"

text \<open>
  The rendering of a text under \<open>{:?}\<close>; of the characters outside ASCII, which the source only ever
  prints here, none is escaped.
\<close>

definition debug_char :: "char \<Rightarrow> string" where
  "debug_char c =
     (if c = CHR 0x22 then [CHR 0x5C, CHR 0x22]
      else if c = CHR 0x5C then [CHR 0x5C, CHR 0x5C]
      else if c = CHR 0x00 then [CHR 0x5C, CHR ''0'']
      else if c = CHR 0x09 then [CHR 0x5C, CHR ''t'']
      else if c = CHR 0x0A then [CHR 0x5C, CHR ''n'']
      else if c = CHR 0x0D then [CHR 0x5C, CHR ''r'']
      else if (of_char c :: nat) < 16 then [CHR 0x5C] @ ''u{'' @ [hex_digit (of_char c)] @ ''}''
      else if (of_char c :: nat) < 32 \<or> c = CHR 0x7F
      then [CHR 0x5C] @ ''u{'' @ [hex_digit (of_char c div 16), hex_digit (of_char c mod 16)] @ ''}''
      else [c])"

definition str_debug :: "string \<Rightarrow> string" where
  "str_debug s = CHR 0x22 # concat (map debug_char s) @ [CHR 0x22]"

section \<open>Certificates\<close>

datatype cert_extension =
    BasicConstraints (bc_ca: bool) (bc_pathlen: "nat option")
  | KeyUsage "string list"
  | ExtendedKeyUsage "string list"
  | SubjectKeyIdentifier
  | AuthorityKeyIdentifier (ak_keyid_critical: bool) (ak_issuer_critical: bool)
  | SanIp string
  | SanDns string

record certificate =
  ct_version :: nat
  ct_serial :: u64
  ct_subject :: string
  ct_issuer :: string
  ct_pubkey :: nat
  ct_not_before :: int
  ct_not_after :: int
  ct_extensions :: "cert_extension list"
  ct_signer :: nat

record btls =
  bt_fail :: "string \<Rightarrow> string option"
  bt_serial :: u64
  bt_now :: u64
  bt_until :: "u32 \<Rightarrow> int"

definition tls_err :: "string \<Rightarrow> string \<Rightarrow> error" where
  "tls_err context e = TlsError (context @ '': '' @ e)"

text \<open>A row of fallible calls, each under its context; the first that fails ends it.\<close>

fun tls_calls :: "btls \<Rightarrow> string list \<Rightarrow> error + unit" where
  "tls_calls B [] = Inr ()"
| "tls_calls B (context # rest) =
     (case bt_fail B context of Some e \<Rightarrow> Inl (tls_err context e) | None \<Rightarrow> tls_calls B rest)"

definition key_calls :: "string list" where
  "key_calls = [''selecting the P-256 curve'', ''generating an EC key'', ''wrapping the EC key'']"

definition serial_calls :: "string list" where
  "serial_calls = [''allocating a serial number'', ''randomising a serial number'', ''encoding a serial number'']"

definition name_calls :: "string list" where
  "name_calls = [''building a name'', ''setting the common name'']"

definition validity_calls :: "string list" where
  "validity_calls = [''encoding a start time'', ''encoding an end time'']"

definition common_name :: "string \<Rightarrow> string" where
  "common_name value = take (min (length value) MAX_COMMON_NAME_LEN) value"

definition validity :: "btls \<Rightarrow> u32 \<Rightarrow> int \<times> int" where
  "validity B days = (sint (bt_now B) - sint (as_secs BACKDATE), bt_until B days)"

definition build_ca :: "btls \<Rightarrow> nat \<Rightarrow> error + certificate" where
  "build_ca B ca_key =
     (case tls_calls B
        (name_calls @ validity_calls @ serial_calls
         @ [''building the CA certificate'', ''setting version'', ''setting the serial'',
            ''setting the subject'', ''setting the issuer'', ''setting the CA public key'',
            ''setting notBefore'', ''setting notAfter'', ''building basicConstraints'',
            ''adding basicConstraints'', ''building keyUsage'', ''adding keyUsage'',
            ''building subjectKeyIdentifier'', ''adding subjectKeyIdentifier'',
            ''signing the CA certificate'']) of
        Inl e \<Rightarrow> Inl e
      | Inr _ \<Rightarrow>
          Inr \<lparr>ct_version = 2, ct_serial = bt_serial B, ct_subject = common_name CA_COMMON_NAME,
               ct_issuer = common_name CA_COMMON_NAME, ct_pubkey = ca_key,
               ct_not_before = fst (validity B CA_VALIDITY_DAYS),
               ct_not_after = snd (validity B CA_VALIDITY_DAYS),
               ct_extensions = [BasicConstraints True (Some 0), KeyUsage [''keyCertSign'', ''cRLSign''],
                                SubjectKeyIdentifier],
               ct_signer = ca_key\<rparr>)"

definition san_of :: "string \<Rightarrow> cert_extension" where
  "san_of host = (if is_ip_addr host then SanIp host else SanDns host)"

section \<open>The cache of leaves\<close>

text \<open>The hash map is an association list; its order is never observed.\<close>

record 'a leaf_cache =
  lf_acceptors :: "(string \<times> 'a) list"
  lf_order :: "string list"

definition leaf_empty :: "'a leaf_cache" where
  "leaf_empty = \<lparr>lf_acceptors = [], lf_order = []\<rparr>"

definition leaf_get :: "'a leaf_cache \<Rightarrow> string \<Rightarrow> 'a option" where
  "leaf_get c host = map_of (lf_acceptors c) host"

fun evict :: "(string \<times> 'a) list \<Rightarrow> string list \<Rightarrow> (string \<times> 'a) list \<times> string list" where
  "evict acc [] = (acc, [])"
| "evict acc (oldest # rest) =
     (if MAX_CACHED_HOSTS \<le> length acc then evict (filter (\<lambda>kv. fst kv \<noteq> oldest) acc) rest
      else (acc, oldest # rest))"

definition leaf_insert :: "string \<Rightarrow> 'a \<Rightarrow> 'a leaf_cache \<Rightarrow> 'a leaf_cache" where
  "leaf_insert host acceptor c =
     (if map_of (lf_acceptors c) host \<noteq> None then c
      else (case evict (lf_acceptors c) (lf_order c) of
              (acc, order) \<Rightarrow> \<lparr>lf_acceptors = (host, acceptor) # acc, lf_order = order @ [host]\<rparr>))"

section \<open>The authority\<close>

record acceptor =
  ac_key :: nat
  ac_leaf :: certificate
  ac_chain :: "certificate list"
  ac_alpn :: string

record authority =
  au_ca_cert :: certificate
  au_ca_key :: nat
  au_leaf_key :: nat
  au_cache :: "acceptor leaf_cache"

definition generate :: "btls \<Rightarrow> nat \<Rightarrow> nat \<Rightarrow> error + authority" where
  "generate B ca_key leaf_key =
     (case tls_calls B (key_calls @ key_calls) of
        Inl e \<Rightarrow> Inl e
      | Inr _ \<Rightarrow>
          (case build_ca B ca_key of
             Inl e \<Rightarrow> Inl e
           | Inr cert \<Rightarrow> Inr \<lparr>au_ca_cert = cert, au_ca_key = ca_key, au_leaf_key = leaf_key,
                              au_cache = leaf_empty\<rparr>))"

definition build_leaf :: "btls \<Rightarrow> authority \<Rightarrow> string \<Rightarrow> error + certificate" where
  "build_leaf B A host =
     (case tls_calls B
        (validity_calls @ serial_calls @ name_calls
         @ [''building a leaf certificate'', ''setting version'', ''setting the serial'',
            ''setting the subject'', ''setting the issuer'', ''setting the leaf public key'',
            ''setting notBefore'', ''setting notAfter'', ''building basicConstraints'',
            ''adding basicConstraints'', ''building keyUsage'', ''adding keyUsage'',
            ''building extendedKeyUsage'', ''adding extendedKeyUsage'',
            ''building subjectAltName'', ''adding subjectAltName'',
            ''building authorityKeyIdentifier'', ''adding authorityKeyIdentifier'',
            ''signing the leaf certificate'']) of
        Inl e \<Rightarrow> Inl e
      | Inr _ \<Rightarrow>
          Inr \<lparr>ct_version = 2, ct_serial = bt_serial B, ct_subject = common_name host,
               ct_issuer = ct_subject (au_ca_cert A), ct_pubkey = au_leaf_key A,
               ct_not_before = fst (validity B LEAF_VALIDITY_DAYS),
               ct_not_after = snd (validity B LEAF_VALIDITY_DAYS),
               ct_extensions = [BasicConstraints False None, KeyUsage [''digitalSignature'', ''keyEncipherment''],
                                ExtendedKeyUsage [''serverAuth''], san_of host,
                                AuthorityKeyIdentifier False False],
               ct_signer = au_ca_key A\<rparr>)"

definition build_acceptor :: "btls \<Rightarrow> authority \<Rightarrow> string \<Rightarrow> error + acceptor" where
  "build_acceptor B A host =
     (case build_leaf B A host of
        Inl e \<Rightarrow> Inl e
      | Inr leaf \<Rightarrow>
          (case tls_calls B [''building the TLS acceptor'', ''setting the leaf key'',
                             ''setting the leaf certificate'', ''adding the CA to the chain''] of
             Inl e \<Rightarrow> Inl e
           | Inr _ \<Rightarrow> Inr \<lparr>ac_key = au_leaf_key A, ac_leaf = leaf, ac_chain = [au_ca_cert A],
                           ac_alpn = ALPN_WIRE\<rparr>))"

text \<open>
  The lock is taken twice, for the lookup and to publish what was minted meanwhile; \<open>acceptor_lookup\<close>
  and \<open>acceptor_publish\<close> are the two critical sections, \<open>acceptor\<close> a call that is not interrupted.
\<close>

datatype lookup = Refused error | Cached acceptor | Missing

definition acceptor_lookup :: "authority \<Rightarrow> string \<Rightarrow> lookup" where
  "acceptor_lookup A host =
     (if \<not> is_valid_host host
      then Refused (TlsError (''refusing to mint a certificate for an invalid CONNECT host '' @ str_debug host))
      else (case leaf_get (au_cache A) host of Some a \<Rightarrow> Cached a | None \<Rightarrow> Missing))"

definition acceptor_publish :: "string \<Rightarrow> acceptor \<Rightarrow> authority \<Rightarrow> acceptor \<times> authority" where
  "acceptor_publish host minted A =
     (case leaf_get (au_cache A) host of
        Some existing \<Rightarrow> (existing, A)
      | None \<Rightarrow> (minted, A\<lparr>au_cache := leaf_insert host minted (au_cache A)\<rparr>))"

definition acceptor_for_host :: "btls \<Rightarrow> string \<Rightarrow> authority \<Rightarrow> (error + acceptor) \<times> authority" where
  "acceptor_for_host B host A =
     (case acceptor_lookup A host of
        Refused e \<Rightarrow> (Inl e, A)
      | Cached a \<Rightarrow> (Inr a, A)
      | Missing \<Rightarrow>
          (case build_acceptor B A host of
             Inl e \<Rightarrow> (Inl e, A)
           | Inr minted \<Rightarrow> (case acceptor_publish host minted A of (a, A') \<Rightarrow> (Inr a, A'))))"

definition cached_hosts :: "authority \<Rightarrow> nat" where
  "cached_hosts A = length (lf_acceptors (au_cache A))"

text \<open>The two readings of the CA certificate, through the library's encoders and hash.\<close>

definition ca_pem :: "btls \<Rightarrow> (certificate \<Rightarrow> string) \<Rightarrow> (string \<Rightarrow> string option) \<Rightarrow> authority \<Rightarrow> error + string" where
  "ca_pem B to_pem utf8_error A =
     (case tls_calls B [''encoding the CA certificate''] of
        Inl e \<Rightarrow> Inl e
      | Inr _ \<Rightarrow>
          (let pem = to_pem (au_ca_cert A) in
           case utf8_error pem of
             Some e \<Rightarrow> Inl (TlsError (''CA certificate PEM was not UTF-8: '' @ e))
           | None \<Rightarrow> Inr pem))"

definition spki_pin :: "btls \<Rightarrow> (nat \<Rightarrow> string) \<Rightarrow> (string \<Rightarrow> string) \<Rightarrow> (string \<Rightarrow> string) \<Rightarrow> authority \<Rightarrow> error + string" where
  "spki_pin B to_der sha256 base64 A =
     (case tls_calls B [''reading the CA public key'', ''encoding the CA public key'', ''hashing the CA public key''] of
        Inl e \<Rightarrow> Inl e
      | Inr _ \<Rightarrow> Inr (base64 (sha256 (to_der (ct_pubkey (au_ca_cert A))))))"

section \<open>The contract of the cache\<close>

text \<open>
  What minting relies on: a bounded store in which the first value put under a key stays until it is
  evicted, and in which nothing is found that was not put there under that very key.
\<close>

locale bounded_cache =
  fixes get :: "'c \<Rightarrow> 'k \<Rightarrow> 'v option"
    and put :: "'k \<Rightarrow> 'v \<Rightarrow> 'c \<Rightarrow> 'c"
    and size_of :: "'c \<Rightarrow> nat"
    and inv :: "'c \<Rightarrow> bool"
    and bound :: nat
  assumes inv_put: "inv c \<Longrightarrow> inv (put k v c)"
    and size_le: "inv c \<Longrightarrow> size_of c \<le> bound"
    and put_new: "inv c \<Longrightarrow> get c k = None \<Longrightarrow> get (put k v c) k = Some v"
    and put_old: "get c k = Some x \<Longrightarrow> put k v c = c"
    and put_other: "j \<noteq> k \<Longrightarrow> get (put k v c) j = Some x \<Longrightarrow> get c j = Some x"
begin

definition entries_ok :: "('k \<Rightarrow> 'v \<Rightarrow> bool) \<Rightarrow> 'c \<Rightarrow> bool" where
  "entries_ok P c \<longleftrightarrow> (\<forall>k v. get c k = Some v \<longrightarrow> P k v)"

lemma entries_put:
  assumes "inv c" "entries_ok P c" "P k v"
  shows "entries_ok P (put k v c)"
  unfolding entries_ok_def
proof (intro allI impI)
  fix j x
  assume j: "get (put k v c) j = Some x"
  show "P j x"
  proof (cases "j = k")
    case False
    then show ?thesis using put_other j assms(2) by (metis entries_ok_def)
  next
    case True
    show ?thesis
    proof (cases "get c k")
      case None
      then show ?thesis using put_new [OF assms(1) None] j True assms(3) by simp
    next
      case (Some y)
      then show ?thesis using put_old [OF Some] j True assms(2) by (simp add: entries_ok_def)
    qed
  qed
qed

text \<open>Whoever puts second is answered with what the first put.\<close>

lemma first_wins: "inv c \<Longrightarrow> get c k = None \<Longrightarrow> get (put k w (put k v c)) k = Some v"
  using put_new put_old by metis

end

definition leaf_inv :: "'a leaf_cache \<Rightarrow> bool" where
  "leaf_inv c \<longleftrightarrow>
     distinct (lf_order c) \<and> distinct (map fst (lf_acceptors c))
     \<and> set (map fst (lf_acceptors c)) = set (lf_order c) \<and> length (lf_order c) \<le> MAX_CACHED_HOSTS"

lemma leaf_inv_length: "leaf_inv c \<Longrightarrow> length (lf_acceptors c) = length (lf_order c)"
  unfolding leaf_inv_def by (metis distinct_card length_map)

lemma filter_key_length:
  assumes "distinct (map fst acc)" "k \<in> set (map fst acc)"
  shows "length (filter (\<lambda>kv. fst kv \<noteq> k) acc) = length acc - 1"
  using assms
proof (induction acc)
  case (Cons kv acc)
  show ?case
  proof (cases "fst kv = k")
    case True
    then have "\<forall>x \<in> set acc. fst x \<noteq> k" using Cons.prems(1) by (auto simp: image_iff)
    then have "filter (\<lambda>kv. fst kv \<noteq> k) acc = acc" by (rule filter_True)
    then show ?thesis using True by simp
  next
    case False
    then have "acc \<noteq> []" using Cons.prems by auto
    then show ?thesis using False Cons by (cases acc) simp_all
  qed
qed simp

text \<open>A full cache gives up its oldest host, any other none.\<close>

lemma evict_spec:
  assumes "leaf_inv c"
  shows "evict (lf_acceptors c) (lf_order c) =
    (if length (lf_order c) < MAX_CACHED_HOSTS then (lf_acceptors c, lf_order c)
     else (filter (\<lambda>kv. fst kv \<noteq> hd (lf_order c)) (lf_acceptors c), tl (lf_order c)))"
proof (cases "lf_order c")
  case Nil
  then show ?thesis by (simp add: MAX_CACHED_HOSTS_def)
next
  case (Cons h hs)
  have len: "length (lf_acceptors c) = Suc (length hs)" using leaf_inv_length [OF assms] Cons by simp
  have le: "Suc (length hs) \<le> MAX_CACHED_HOSTS" using assms Cons by (simp add: leaf_inv_def)
  have stop: "evict acc hs = (acc, hs)" if "length acc < MAX_CACHED_HOSTS" for acc :: "(string \<times> 'a) list"
    using that by (cases hs) auto
  have "h \<in> set (map fst (lf_acceptors c))" using assms Cons by (simp add: leaf_inv_def)
  then have "length (filter (\<lambda>kv. fst kv \<noteq> h) (lf_acceptors c)) = length hs"
    using filter_key_length [of "lf_acceptors c" h] assms len by (simp add: leaf_inv_def)
  then show ?thesis using len le stop Cons by auto
qed

lemma leaf_insert_old: "leaf_get c host = Some x \<Longrightarrow> leaf_insert host a c = c"
  by (simp add: leaf_get_def leaf_insert_def)

lemma leaf_insert_new:
  assumes "leaf_inv c" "leaf_get c host = None"
  shows "lf_order (leaf_insert host a c) =
      drop (Suc (length (lf_order c)) - MAX_CACHED_HOSTS) (lf_order c) @ [host]"
    and "lf_acceptors (leaf_insert host a c) = (host, a) #
      (if length (lf_order c) < MAX_CACHED_HOSTS then lf_acceptors c
       else filter (\<lambda>kv. fst kv \<noteq> hd (lf_order c)) (lf_acceptors c))"
proof -
  have le: "length (lf_order c) \<le> MAX_CACHED_HOSTS" using assms(1) by (simp add: leaf_inv_def)
  show "lf_order (leaf_insert host a c) =
      drop (Suc (length (lf_order c)) - MAX_CACHED_HOSTS) (lf_order c) @ [host]"
    using le assms(2) by (auto simp: leaf_insert_def evict_spec [OF assms(1)] leaf_get_def Suc_diff_le
        drop_Suc not_less dest: le_antisym)
  show "lf_acceptors (leaf_insert host a c) = (host, a) #
      (if length (lf_order c) < MAX_CACHED_HOSTS then lf_acceptors c
       else filter (\<lambda>kv. fst kv \<noteq> hd (lf_order c)) (lf_acceptors c))"
    using assms(2) by (simp add: leaf_insert_def evict_spec [OF assms(1)] leaf_get_def)
qed

lemma leaf_inv_insert:
  assumes "leaf_inv c"
  shows "leaf_inv (leaf_insert host a c)"
proof (cases "leaf_get c host")
  case (Some x)
  then show ?thesis using assms by (simp add: leaf_insert_old)
next
  case None
  have fresh: "host \<notin> set (map fst (lf_acceptors c))" "host \<notin> set (lf_order c)"
    using None assms by (auto simp: leaf_get_def leaf_inv_def map_of_eq_None_iff)
  have inv: "distinct (lf_order c)" "distinct (map fst (lf_acceptors c))"
      "set (map fst (lf_acceptors c)) = set (lf_order c)" "length (lf_order c) \<le> MAX_CACHED_HOSTS"
    using assms by (simp_all add: leaf_inv_def)
  show ?thesis
  proof (cases "length (lf_order c) < MAX_CACHED_HOSTS")
    case True
    then show ?thesis using inv fresh leaf_insert_new [OF assms None, of a]
      by (simp add: leaf_inv_def)
  next
    case False
    then obtain h hs where o: "lf_order c = h # hs"
      by (cases "lf_order c") (simp_all add: MAX_CACHED_HOSTS_def)
    have "Suc (length (lf_order c)) - MAX_CACHED_HOSTS = 1" using False inv(4) by simp
    then have ord: "lf_order (leaf_insert host a c) = hs @ [host]"
      using leaf_insert_new(1) [OF assms None, of a] o by simp
    have acc: "lf_acceptors (leaf_insert host a c)
        = (host, a) # filter (\<lambda>kv. fst kv \<noteq> h) (lf_acceptors c)"
      using leaf_insert_new(2) [OF assms None, of a] False o by simp
    have keys: "set (map fst (filter (\<lambda>kv. fst kv \<noteq> h) (lf_acceptors c))) = set hs"
    proof -
      have "set (map fst (filter (\<lambda>kv. fst kv \<noteq> h) (lf_acceptors c))) = set (map fst (lf_acceptors c)) - {h}"
        by auto
      then show ?thesis using inv(1,3) o by simp
    qed
    have "distinct (map fst (filter (\<lambda>kv. fst kv \<noteq> h) (lf_acceptors c)))"
      using inv(2) by (simp add: distinct_map_filter)
    then show ?thesis
      using inv(1,4) fresh keys o unfolding leaf_inv_def ord acc by auto
  qed
qed

lemma leaf_insert_get:
  assumes "leaf_inv c" "leaf_get c host = None"
  shows "leaf_get (leaf_insert host a c) host = Some a"
  using leaf_insert_new(2) [OF assms, of a] by (simp add: leaf_get_def)

lemma map_of_filter_Some: "map_of (filter (\<lambda>kv. P (fst kv)) xs) j = Some x \<Longrightarrow> P j \<and> map_of xs j = Some x"
  by (induction xs) (auto split: if_splits)

lemma map_of_filter_other: "j \<noteq> k \<Longrightarrow> map_of (filter (\<lambda>kv. fst kv \<noteq> k) xs) j = map_of xs j"
  by (induction xs) auto

lemma evict_mono: "map_of (fst (evict acc order)) j = Some x \<Longrightarrow> map_of acc j = Some x"
proof (induction acc order rule: evict.induct)
  case (2 acc oldest rest)
  show ?case
  proof (cases "MAX_CACHED_HOSTS \<le> length acc")
    case True
    then have "map_of (filter (\<lambda>kv. fst kv \<noteq> oldest) acc) j = Some x"
      using "2.IH" [OF True] "2.prems" by simp
    from conjunct2 [OF map_of_filter_Some [of "\<lambda>k. k \<noteq> oldest", OF this]] show ?thesis .
  next
    case False
    then show ?thesis using "2.prems" by simp
  qed
qed simp

interpretation leaves: bounded_cache leaf_get leaf_insert "\<lambda>c. length (lf_acceptors c)" leaf_inv MAX_CACHED_HOSTS
proof unfold_locales
  fix c :: "'a leaf_cache" and k j :: string and v x :: 'a
  show "leaf_inv c \<Longrightarrow> leaf_inv (leaf_insert k v c)" by (rule leaf_inv_insert)
  show "leaf_inv c \<Longrightarrow> length (lf_acceptors c) \<le> MAX_CACHED_HOSTS"
    using leaf_inv_length [of c] by (simp add: leaf_inv_def)
  show "leaf_inv c \<Longrightarrow> leaf_get c k = None \<Longrightarrow> leaf_get (leaf_insert k v c) k = Some v"
    by (rule leaf_insert_get)
  show "leaf_get c k = Some x \<Longrightarrow> leaf_insert k v c = c" by (rule leaf_insert_old)
  show "j \<noteq> k \<Longrightarrow> leaf_get (leaf_insert k v c) j = Some x \<Longrightarrow> leaf_get c j = Some x"
    using evict_mono [of "lf_acceptors c" "lf_order c" j x]
    by (auto simp: leaf_get_def leaf_insert_def split: prod.splits if_splits)
qed

section \<open>Interleaved callers\<close>

text \<open>What an acceptor for a host is: the host's certificate, signed by this authority, and no other.\<close>

definition serves :: "authority \<Rightarrow> string \<Rightarrow> acceptor \<Rightarrow> bool" where
  "serves A host a \<longleftrightarrow>
     is_valid_host host \<and> ac_key a = au_leaf_key A \<and> ac_chain a = [au_ca_cert A] \<and> ac_alpn a = ALPN_WIRE
     \<and> ct_pubkey (ac_leaf a) = au_leaf_key A \<and> ct_signer (ac_leaf a) = au_ca_key A
     \<and> ct_issuer (ac_leaf a) = ct_subject (au_ca_cert A)
     \<and> filter (\<lambda>x. case x of SanIp _ \<Rightarrow> True | SanDns _ \<Rightarrow> True | _ \<Rightarrow> False) (ct_extensions (ac_leaf a))
         = [san_of host]
     \<and> (\<forall>x \<in> set (ct_extensions (ac_leaf a)). x = BasicConstraints False None \<or> (\<forall>ca n. x \<noteq> BasicConstraints ca n))
     \<and> length (ct_subject (ac_leaf a)) \<le> MAX_COMMON_NAME_LEN"

lemma build_acceptor_serves:
  "build_acceptor B A host = Inr a \<Longrightarrow> is_valid_host host \<Longrightarrow> serves A host a"
  by (auto simp: build_acceptor_def build_leaf_def serves_def common_name_def san_of_def split: sum.splits)

text \<open>
  Callers in any number: each asks for a host, minting outside the lock when the host is missing, and
  publishes later; the answers given are recorded.
\<close>

record ca_state =
  cs_authority :: authority
  cs_minted :: "(string \<times> acceptor) list"
  cs_answers :: "(string \<times> acceptor) list"

inductive ca_step :: "ca_state \<Rightarrow> ca_state \<Rightarrow> bool" where
  hit: "acceptor_lookup (cs_authority s) host = Cached a \<Longrightarrow>
          ca_step s (s\<lparr>cs_answers := (host, a) # cs_answers s\<rparr>)"
| mint: "acceptor_lookup (cs_authority s) host = Missing \<Longrightarrow> build_acceptor B (cs_authority s) host = Inr a \<Longrightarrow>
          ca_step s (s\<lparr>cs_minted := (host, a) # cs_minted s\<rparr>)"
| publish: "(host, m) \<in> set (cs_minted s) \<Longrightarrow> acceptor_publish host m (cs_authority s) = (a, A) \<Longrightarrow>
          ca_step s (s\<lparr>cs_authority := A, cs_minted := remove1 (host, m) (cs_minted s),
                       cs_answers := (host, a) # cs_answers s\<rparr>)"

definition ca_start :: "authority \<Rightarrow> ca_state" where
  "ca_start A = \<lparr>cs_authority = A, cs_minted = [], cs_answers = []\<rparr>"

definition same_keys :: "authority \<Rightarrow> authority \<Rightarrow> bool" where
  "same_keys A B \<longleftrightarrow> au_ca_cert A = au_ca_cert B \<and> au_ca_key A = au_ca_key B \<and> au_leaf_key A = au_leaf_key B"

lemma serves_cong: "same_keys A B \<Longrightarrow> serves A = serves B"
  by (intro ext) (simp add: same_keys_def serves_def)

definition ca_inv :: "authority \<Rightarrow> ca_state \<Rightarrow> bool" where
  "ca_inv A s \<longleftrightarrow>
     same_keys (cs_authority s) A \<and> leaf_inv (au_cache (cs_authority s))
     \<and> leaves.entries_ok (serves A) (au_cache (cs_authority s))
     \<and> (\<forall>(h, a) \<in> set (cs_minted s) \<union> set (cs_answers s). serves A h a)"

lemma lookup_cached: "acceptor_lookup A host = Cached a \<Longrightarrow> leaf_get (au_cache A) host = Some a"
  by (auto simp: acceptor_lookup_def split: if_splits option.splits)

lemma lookup_missing: "acceptor_lookup A host = Missing \<Longrightarrow> is_valid_host host"
  by (auto simp: acceptor_lookup_def split: if_splits)

lemma publish_step:
  assumes "acceptor_publish host m A = (a, A')" "leaf_inv (au_cache A)" "serves C host m"
    and "leaves.entries_ok (serves C) (au_cache A)" "same_keys A C"
  shows "same_keys A' C \<and> leaf_inv (au_cache A') \<and> leaves.entries_ok (serves C) (au_cache A') \<and> serves C host a"
proof (cases "leaf_get (au_cache A) host")
  case None
  then have "a = m" "A' = A\<lparr>au_cache := leaf_insert host m (au_cache A)\<rparr>"
    using assms(1) by (auto simp: acceptor_publish_def)
  then show ?thesis
    using assms(3,5) leaves.inv_put [OF assms(2), of host m] leaves.entries_put [OF assms(2,4,3)]
    by (simp add: same_keys_def)
next
  case (Some x)
  then have "a = x" "A' = A" using assms(1) by (simp_all add: acceptor_publish_def)
  then show ?thesis using assms Some by (simp add: leaves.entries_ok_def)
qed

lemma ca_step_inv:
  assumes "ca_step s t" "ca_inv A s"
  shows "ca_inv A t"
  using assms
proof (cases rule: ca_step.cases)
  case (hit host a)
  then show ?thesis using assms(2) lookup_cached [OF hit(2)]
    by (auto simp: ca_inv_def leaves.entries_ok_def)
next
  case (mint host B a)
  have "serves (cs_authority s) host a"
    by (rule build_acceptor_serves [OF mint(3) lookup_missing [OF mint(2)]])
  then show ?thesis using assms(2) mint(1) serves_cong [of "cs_authority s" A] by (auto simp: ca_inv_def)
next
  case (publish host m a A')
  have "serves A host m" using assms(2) publish(2) by (auto simp: ca_inv_def)
  from publish_step [OF publish(3) _ this] assms(2) publish(1) show ?thesis
    by (auto simp: ca_inv_def dest: set_remove1_subset [THEN subsetD])
qed

lemma ca_inv_start:
  "leaf_inv (au_cache A) \<Longrightarrow> leaves.entries_ok (serves A) (au_cache A) \<Longrightarrow> ca_inv A (ca_start A)"
  by (simp add: ca_inv_def ca_start_def same_keys_def)

lemma generate_start:
  assumes "generate B k l = Inr A"
  shows "ca_inv A (ca_start A)"
proof -
  have "au_cache A = leaf_empty" using assms by (auto simp: generate_def split: sum.splits)
  then show ?thesis
    by (intro ca_inv_start) (simp_all add: leaf_empty_def leaf_inv_def leaves.entries_ok_def leaf_get_def)
qed

text \<open>C6. No caller is ever handed another host's certificate: from a fresh authority, with any number of
callers asking, minting and publishing in any order, every acceptor given out for a host presents a
certificate whose one alternative name is that host, for a host that passed validation, signed by this
authority for its one leaf key, unable to sign others; and never are more than 256 hosts kept.\<close>

theorem acceptors_serve_their_host:
  assumes "generate B k l = Inr A" and "ca_step\<^sup>*\<^sup>* (ca_start A) s"
  shows "(\<forall>(host, a) \<in> set (cs_answers s). serves A host a) \<and> cached_hosts (cs_authority s) \<le> MAX_CACHED_HOSTS"
proof -
  from assms(2) have "ca_inv A s"
    by (induction rule: rtranclp_induct) (auto intro: generate_start [OF assms(1)] ca_step_inv)
  then show ?thesis using leaves.size_le by (auto simp: ca_inv_def cached_hosts_def)
qed

definition plain_btls :: btls where
  "plain_btls = \<lparr>bt_fail = (\<lambda>c. None), bt_serial = 7, bt_now = 1700000000, bt_until = (\<lambda>d. 1700000000 + 86400 * uint d)\<rparr>"

lemma plain_calls [simp]: "tls_calls plain_btls cs = Inr ()"
  by (induction cs) (simp_all add: plain_btls_def)

lemma example_host: "is_valid_host ''a.example''"
  by code_simp

theorem acceptors_serve_their_host_witness:
  "\<exists>A s a. generate plain_btls 1 2 = Inr A \<and> ca_step\<^sup>*\<^sup>* (ca_start A) s
     \<and> cs_answers s = [(''a.example'', a)] \<and> serves A ''a.example'' a"
proof -
  obtain A where A: "generate plain_btls 1 2 = Inr A" "au_cache A = leaf_empty"
    by (simp add: generate_def build_ca_def del: tls_calls.simps)
  obtain m where m: "build_acceptor plain_btls A ''a.example'' = Inr m"
    by (simp add: build_acceptor_def build_leaf_def del: tls_calls.simps)
  have look: "acceptor_lookup A ''a.example'' = Missing"
    using example_host A(2) by (simp add: acceptor_lookup_def leaf_empty_def leaf_get_def)
  let ?s1 = "(ca_start A)\<lparr>cs_minted := [(''a.example'', m)]\<rparr>"
  have 1: "ca_step (ca_start A) ?s1"
    using ca_step.mint [of "ca_start A" "''a.example''" plain_btls m] look m by (simp add: ca_start_def)
  obtain a A' where p: "acceptor_publish ''a.example'' m A = (a, A')" by force
  have 2: "ca_step ?s1 (?s1\<lparr>cs_authority := A', cs_minted := [], cs_answers := [(''a.example'', a)]\<rparr>)"
    using ca_step.publish [of "''a.example''" m ?s1 a A'] p by (simp add: ca_start_def)
  have run: "ca_step\<^sup>*\<^sup>* (ca_start A) (?s1\<lparr>cs_authority := A', cs_minted := [], cs_answers := [(''a.example'', a)]\<rparr>)"
    using 1 2 by (meson converse_rtranclp_into_rtranclp r_into_rtranclp)
  from acceptors_serve_their_host [OF A(1) run] run A(1) show ?thesis
    by (intro exI [of _ A] exI [of _ "?s1\<lparr>cs_authority := A', cs_minted := [], cs_answers := [(''a.example'', a)]\<rparr>"]
        exI [of _ a]) simp
qed

section \<open>First come, first kept\<close>

text \<open>The cache is a queue of the last 256 hosts: a host already there changes nothing, so a second
caller gets the first one's acceptor; a new one goes to the back, and only when 256 are held does the one
that came first go, every other host keeping its acceptor.\<close>

theorem leaf_cache_fifo:
  assumes "leaf_inv c"
  shows "leaf_inv (leaf_insert host a c)
    \<and> (case leaf_get c host of
         Some x \<Rightarrow> leaf_insert host a c = c
       | None \<Rightarrow> lf_order (leaf_insert host a c)
                   = drop (Suc (length (lf_order c)) - MAX_CACHED_HOSTS) (lf_order c) @ [host]
           \<and> (\<forall>h \<in> set (lf_order (leaf_insert host a c)).
                leaf_get (leaf_insert host a c) h = (if h = host then Some a else leaf_get c h)))"
proof (cases "leaf_get c host")
  case (Some x)
  then show ?thesis using assms by (simp add: leaf_insert_old)
next
  case None
  note new = leaf_insert_new [OF assms None, of a]
  have "leaf_get (leaf_insert host a c) h = leaf_get c h"
    if h: "h \<in> set (lf_order (leaf_insert host a c))" "h \<noteq> host" for h
  proof (cases "length (lf_order c) < MAX_CACHED_HOSTS")
    case True
    then show ?thesis using new(2) h by (simp add: leaf_get_def)
  next
    case False
    obtain o1 os where o: "lf_order c = o1 # os" using False by (cases "lf_order c") (simp_all add: MAX_CACHED_HOSTS_def)
    have "Suc (length (lf_order c)) - MAX_CACHED_HOSTS = 1" using False assms by (simp add: leaf_inv_def)
    then have "h \<in> set os" using new(1) h o by simp
    then have "h \<noteq> o1" using assms o by (auto simp: leaf_inv_def)
    then have "map_of (filter (\<lambda>kv. fst kv \<noteq> o1) (lf_acceptors c)) h = map_of (lf_acceptors c) h"
      by (rule map_of_filter_other)
    then show ?thesis using new(2) h(2) False o by (simp add: leaf_get_def)
  qed
  then show ?thesis
    using None new(1) leaf_insert_get [OF assms None, of a] leaf_inv_insert [OF assms, of host a] by auto
qed

theorem leaf_cache_fifo_witness:
  "leaf_get (leaf_insert ''b'' (2 :: nat) (leaf_insert ''a'' 1 leaf_empty)) ''a'' = Some 1
   \<and> leaf_inv (leaf_insert ''b'' (2 :: nat) (leaf_insert ''a'' 1 leaf_empty))"
proof -
  have "leaf_inv (leaf_insert ''a'' (1 :: nat) leaf_empty)"
    by (rule leaf_inv_insert) (simp add: leaf_inv_def leaf_empty_def)
  from leaf_cache_fifo [OF this, of "''b''" 2] show ?thesis
    by (simp add: leaf_insert_def leaf_empty_def leaf_get_def MAX_CACHED_HOSTS_def)
qed

section \<open>What a valid host is\<close>

lemma split_char_chars: "set s \<subseteq> \<Union> (set ` set (split_char c s)) \<union> {c}"
proof (induction s)
  case (Cons x xs)
  show ?case
  proof (cases "split_char c xs")
    case Nil
    then show ?thesis using Cons by auto
  next
    case (Cons y ys)
    then show ?thesis using Cons.IH by auto
  qed
qed simp

text \<open>A name that is not an address gets a certificate only if it is made of letters, digits, hyphens,
underscores and dots: no space, no control character, no NUL and no wildcard reaches a certificate, its
length is at most 253, and each label has between 1 and 63 characters and no hyphen at its ends.\<close>

theorem valid_host_safe:
  assumes "is_valid_host host" and "\<not> is_ip_addr host"
  shows "host \<noteq> [] \<and> length host \<le> 253 \<and> list_all (\<lambda>c. label_char c \<or> c = CHR ''.'') host
    \<and> (\<exists>name. (host = name \<or> host = name @ ''.'') \<and> name \<noteq> []
         \<and> list_all (\<lambda>l. 1 \<le> length l \<and> length l \<le> 63 \<and> hd l \<noteq> CHR ''-'' \<and> last l \<noteq> CHR ''-'')
             (split_char (CHR ''.'') name))"
proof -
  define name where "name = (case strip_suffix ''.'' host of Some n \<Rightarrow> n | None \<Rightarrow> host)"
  have valid: "host \<noteq> []" "length host \<le> 253" "name \<noteq> []" "list_all valid_label (split_char (CHR ''.'') name)"
    using assms unfolding is_valid_host_def name_def [symmetric] Let_def MAX_HOST_LEN_def
    by (simp_all split: if_split_asm)
  have name: "host = name \<or> host = name @ ''.''"
    unfolding name_def by (auto simp: strip_suffix_def suffix_def split: option.splits if_splits)
  have "c = CHR ''.'' \<or> (\<exists>l \<in> set (split_char (CHR ''.'') name). c \<in> set l)" if "c \<in> set name" for c
    using split_char_chars [of name "CHR ''.''"] that by blast
  then have chars: "label_char c \<or> c = CHR ''.''" if "c \<in> set name" for c
    using valid(4) that unfolding list_all_iff valid_label_def by blast
  from name have "\<forall>c \<in> set host. label_char c \<or> c = CHR ''.''"
  proof
    assume "host = name"
    then show ?thesis using chars by blast
  next
    assume "host = name @ ''.''"
    then have "set host = insert (CHR ''.'') (set name)" by simp
    then show ?thesis using chars by blast
  qed
  then have 1: "list_all (\<lambda>c. label_char c \<or> c = CHR ''.'') host" by (simp only: list_all_iff)
  have 2: "list_all (\<lambda>l. 1 \<le> length l \<and> length l \<le> 63 \<and> hd l \<noteq> CHR ''-'' \<and> last l \<noteq> CHR ''-'')
             (split_char (CHR ''.'') name)"
    using valid(4) by (auto simp: list_all_iff valid_label_def MAX_LABEL_LEN_def Suc_le_eq)
  show ?thesis using valid(1-3) name 1 2 by blast
qed

theorem valid_host_safe_witness:
  "is_valid_host ''a.example'' \<and> list_all (\<lambda>c. label_char c \<or> c = CHR ''.'') ''a.example''"
proof -
  have "\<not> is_ip_addr ''a.example''" by code_simp
  with valid_host_safe [OF example_host] example_host show ?thesis by blast
qed

text \<open>
  An address of the sixth version in the brackets an authority has around it is refused, while the bare
  address is not.
\<close>

lemma bracketed_address_refused: "\<not> is_valid_host ''[::1]''" "is_valid_host ''::1''"
  by code_simp+

end
