(* ===== verification/SpoofingProxy.thy ===== *)
theory SpoofingProxy
  imports CertAuthority Upstream
begin

text \<open>
  Models \<open>src/src/proxy.rs\<close>: how a request of the browser becomes one of the impersonating client. Bodies
  are passed through as they are. What the HTTP libraries decide is the argument \<open>'e exchange\<close>: which
  methods and headers they can carry and what sending yields. The handlers are functions of the shared
  client and the authority; \<open>px_step\<close> interleaves them as the spawned tasks do, with the client swapped
  in between. The listener's loop and the cancellation of its tasks are in \<open>ProxyLifecycle\<close>; the debug log is not
  modelled.
\<close>

section \<open>Requests and responses\<close>

record browser_request =
  br_method :: string
  br_host :: "string option"
  br_port :: "u16 option"
  br_uri :: string
  br_path_and_query :: "string option"
  br_headers :: "(string \<times> string) list"
  br_body :: string

record upstream_request =
  up_method :: string
  up_uri :: string
  up_headers :: "(string \<times> string) list"
  up_body :: string

record proxied_response =
  pr_status :: u16
  pr_headers :: "(string \<times> string) list"
  pr_body :: string

record 'e exchange =
  xc_method_ok :: "string \<Rightarrow> bool"
  xc_header_ok :: "string \<times> string \<Rightarrow> bool"
  xc_send :: "http_client \<Rightarrow> upstream_request \<Rightarrow> 'e \<Rightarrow> (string + proxied_response) \<times> 'e"

definition empty_response :: "u16 \<Rightarrow> proxied_response" where
  "empty_response status = \<lparr>pr_status = status, pr_headers = [], pr_body = []\<rparr>"

definition STATUS_OK :: u16 where "STATUS_OK = 200"
definition BAD_REQUEST :: u16 where "BAD_REQUEST = 400"
definition BAD_GATEWAY :: u16 where "BAD_GATEWAY = 502"

definition upstream_response :: "'e exchange \<Rightarrow> proxied_response \<Rightarrow> proxied_response" where
  "upstream_response X resp =
     (if list_all (xc_header_ok X) (pr_headers resp) then resp else empty_response BAD_GATEWAY)"

section \<open>The proxy\<close>

record spoofing_proxy =
  sp_port :: u16
  sp_client :: http_client
  sp_authority :: authority

definition start_with_observer ::
    "btls \<Rightarrow> string + u16 \<Rightarrow> nat \<Rightarrow> nat \<Rightarrow> http_client \<Rightarrow> error + spoofing_proxy" where
  "start_with_observer B bound ca_key leaf_key client =
     (case bound of
        Inl e \<Rightarrow> Inl (ProxyBindFailed e)
      | Inr port \<Rightarrow>
          (case generate B ca_key leaf_key of
             Inl e \<Rightarrow> Inl e
           | Inr authority \<Rightarrow> Inr \<lparr>sp_port = port, sp_client = client, sp_authority = authority\<rparr>))"

definition set_upstream_client :: "http_client \<Rightarrow> spoofing_proxy \<Rightarrow> spoofing_proxy" where
  "set_upstream_client client p = p\<lparr>sp_client := client\<rparr>"

definition proxy_ca_pem ::
    "btls \<Rightarrow> (certificate \<Rightarrow> string) \<Rightarrow> (string \<Rightarrow> string option) \<Rightarrow> spoofing_proxy \<Rightarrow> error + string" where
  "proxy_ca_pem B to_pem utf8 p = ca_pem B to_pem utf8 (sp_authority p)"

definition proxy_spki_pin ::
    "btls \<Rightarrow> (nat \<Rightarrow> string) \<Rightarrow> (string \<Rightarrow> string) \<Rightarrow> (string \<Rightarrow> string) \<Rightarrow> spoofing_proxy \<Rightarrow> error + string" where
  "proxy_spki_pin B der sha base64 p = spki_pin B der sha base64 (sp_authority p)"

text \<open>Sending what was built, and what the browser is answered; the request sent is recorded.\<close>

definition send_upstream ::
    "'e exchange \<Rightarrow> http_client \<Rightarrow> upstream_request \<Rightarrow> 'e
       \<Rightarrow> proxied_response \<times> (http_client \<times> upstream_request) list \<times> 'e" where
  "send_upstream X client req e =
     (case xc_send X client req e of
        (Inr resp, e') \<Rightarrow> (upstream_response X resp, [(client, req)], e')
      | (Inl _, e') \<Rightarrow> (empty_response BAD_GATEWAY, [(client, req)], e'))"

text \<open>A \<open>CONNECT\<close> is answered at once; the tunnel to its host is served by a task of its own.\<close>

definition handle_request ::
    "'e exchange \<Rightarrow> http_client \<Rightarrow> browser_request \<Rightarrow> 'e
       \<Rightarrow> proxied_response \<times> string option \<times> (http_client \<times> upstream_request) list \<times> 'e" where
  "handle_request X client req e =
     (if br_method req = ''CONNECT''
      then (empty_response STATUS_OK, Some (case br_host req of Some h \<Rightarrow> h | None \<Rightarrow> []), [], e)
      else if \<not> xc_method_ok X (br_method req) then (empty_response BAD_REQUEST, None, [], e)
      else (case send_upstream X client
                   \<lparr>up_method = br_method req, up_uri = br_uri req, up_headers = br_headers req,
                    up_body = br_body req\<rparr> e of
              (resp, sent, e') \<Rightarrow> (resp, None, sent, e')))"

definition tunnel_uri :: "string \<Rightarrow> browser_request \<Rightarrow> string" where
  "tunnel_uri host req =
     ''https://'' @ host @ (case br_path_and_query req of Some pq \<Rightarrow> pq | None \<Rightarrow> ''/'')"

definition forward_tls_request ::
    "'e exchange \<Rightarrow> http_client \<Rightarrow> string \<Rightarrow> browser_request \<Rightarrow> 'e
       \<Rightarrow> proxied_response \<times> (http_client \<times> upstream_request) list \<times> 'e" where
  "forward_tls_request X client host req e =
     (if \<not> xc_method_ok X (br_method req) then (empty_response BAD_REQUEST, [], e)
      else send_upstream X client
             \<lparr>up_method = br_method req, up_uri = tunnel_uri host req,
              up_headers = filter (\<lambda>kv. fst kv \<noteq> ''host'') (br_headers req), up_body = br_body req\<rparr> e)"

text \<open>The handshake on the intercepted leg: the two steps that set it up and the accepting itself.\<close>

record handshake =
  hs_new :: "string option"
  hs_stream :: "string option"
  hs_accept :: "string option"

definition handle_tunnel ::
    "btls \<Rightarrow> handshake \<Rightarrow> string \<Rightarrow> authority \<Rightarrow> (error + acceptor) \<times> authority" where
  "handle_tunnel B h host A =
     (case acceptor_for_host B host A of
        (Inl e, A') \<Rightarrow> (Inl e, A')
      | (Inr acceptor, A') \<Rightarrow>
          (case hs_new h of
             Some e \<Rightarrow> (Inl (TlsError (''TLS setup error: '' @ e)), A')
           | None \<Rightarrow>
               (case hs_stream h of
                  Some e \<Rightarrow> (Inl (TlsError (''TLS setup error: '' @ e)), A')
                | None \<Rightarrow>
                    (case hs_accept h of
                       Some e \<Rightarrow> (Inl (TlsError (''TLS Accept error: '' @ e)), A')
                     | None \<Rightarrow> (Inr acceptor, A')))))"

section \<open>Interleaving\<close>

datatype origin = Direct | Tunnelled string

record 'e px_state =
  px_proxy :: spoofing_proxy
  px_asked :: "string list"
  px_tunnels :: "(string \<times> acceptor) list"
  px_answers :: "proxied_response list"
  px_sent :: "(origin \<times> http_client \<times> upstream_request) list"
  px_env :: 'e

definition from_origin ::
    "origin \<Rightarrow> (http_client \<times> upstream_request) list \<Rightarrow> (origin \<times> http_client \<times> upstream_request) list" where
  "from_origin org sent = map (\<lambda>cr. (org, cr)) sent"

inductive px_step :: "'e exchange \<Rightarrow> 'e px_state \<Rightarrow> 'e px_state \<Rightarrow> bool" for X where
  request:
    "handle_request X (sp_client (px_proxy s)) req (px_env s) = (resp, tunnel, sent, e) \<Longrightarrow>
     px_step X s (s\<lparr>px_asked := (case tunnel of Some h \<Rightarrow> h # px_asked s | None \<Rightarrow> px_asked s),
                    px_answers := resp # px_answers s, px_sent := px_sent s @ from_origin Direct sent,
                    px_env := e\<rparr>)"
| tunnel:
    "host \<in> set (px_asked s) \<Longrightarrow>
     handle_tunnel B h host (sp_authority (px_proxy s)) = (r, A) \<Longrightarrow>
     px_step X s (s\<lparr>px_proxy := (px_proxy s)\<lparr>sp_authority := A\<rparr>, px_asked := remove1 host (px_asked s),
                    px_tunnels := (case r of Inr a \<Rightarrow> (host, a) # px_tunnels s | Inl _ \<Rightarrow> px_tunnels s)\<rparr>)"
| inner:
    "(host, a) \<in> set (px_tunnels s) \<Longrightarrow>
     forward_tls_request X (sp_client (px_proxy s)) host req (px_env s) = (resp, sent, e) \<Longrightarrow>
     px_step X s (s\<lparr>px_answers := resp # px_answers s,
                    px_sent := px_sent s @ from_origin (Tunnelled host) sent, px_env := e\<rparr>)"
| swap:
    "px_step X s (s\<lparr>px_proxy := set_upstream_client client (px_proxy s)\<rparr>)"

definition px_start :: "spoofing_proxy \<Rightarrow> 'e \<Rightarrow> 'e px_state" where
  "px_start p e = \<lparr>px_proxy = p, px_asked = [], px_tunnels = [], px_answers = [], px_sent = [], px_env = e\<rparr>"

section \<open>Where requests go\<close>

lemma send_upstream_run:
  "send_upstream X c req e = (resp, sent, e') \<Longrightarrow> sent = [(c, req)]
     \<and> (pr_status resp = BAD_GATEWAY \<or> (\<exists>up. xc_send X c req e = (Inr up, e') \<and> resp = up))"
  by (auto simp: send_upstream_def upstream_response_def empty_response_def split: prod.splits sum.splits if_splits)

lemma forward_run:
  assumes "forward_tls_request X c host req e = (resp, sent, e')"
  shows "(\<not> xc_method_ok X (br_method req) \<and> resp = empty_response BAD_REQUEST \<and> sent = [] \<and> e' = e)
    \<or> (xc_method_ok X (br_method req) \<and> sent =
        [(c, \<lparr>up_method = br_method req, up_uri = tunnel_uri host req,
              up_headers = filter (\<lambda>kv. fst kv \<noteq> ''host'') (br_headers req), up_body = br_body req\<rparr>)])"
  using assms by (auto simp: forward_tls_request_def dest: send_upstream_run split: if_splits)

lemma handle_request_run:
  assumes "handle_request X c req e = (resp, tunnel, sent, e')"
  shows "if br_method req = ''CONNECT''
      then resp = empty_response STATUS_OK \<and> tunnel \<noteq> None \<and> sent = [] \<and> e' = e
      else tunnel = None \<and>
        (if xc_method_ok X (br_method req)
         then sent = [(c, \<lparr>up_method = br_method req, up_uri = br_uri req, up_headers = br_headers req,
                           up_body = br_body req\<rparr>)]
         else resp = empty_response BAD_REQUEST \<and> sent = [] \<and> e' = e)"
  using assms
  by (auto simp: handle_request_def dest: send_upstream_run split: if_splits prod.splits)

definition origin_ok :: "origin \<times> http_client \<times> upstream_request \<Rightarrow> bool" where
  "origin_ok x =
     (case x of
        (Direct, c, r) \<Rightarrow> True
      | (Tunnelled host, c, r) \<Rightarrow>
          is_valid_host host \<and> (\<exists>rest. up_uri r = ''https://'' @ host @ rest)
          \<and> list_all (\<lambda>kv. fst kv \<noteq> ''host'') (up_headers r))"

definition px_inv :: "authority \<Rightarrow> 'e px_state \<Rightarrow> bool" where
  "px_inv A s \<longleftrightarrow>
     ca_inv A (ca_start (sp_authority (px_proxy s)))
     \<and> (\<forall>(h, a) \<in> set (px_tunnels s). serves A h a) \<and> list_all origin_ok (px_sent s)"

lemma ca_inv_of_start:
  "ca_inv A (ca_start C) \<longleftrightarrow> same_keys C A \<and> leaf_inv (au_cache C) \<and> leaves.entries_ok (serves A) (au_cache C)"
  by (simp add: ca_inv_def ca_start_def)

lemma acceptor_for_host_run:
  assumes "acceptor_for_host B host C = (r, C')" and "ca_inv A (ca_start C)"
  shows "ca_inv A (ca_start C') \<and> (\<forall>a. r = Inr a \<longrightarrow> serves A host a)"
proof -
  have inv: "same_keys C A" "leaf_inv (au_cache C)" "leaves.entries_ok (serves A) (au_cache C)"
    using assms(2) by (simp_all add: ca_inv_of_start)
  show ?thesis
  proof (cases "acceptor_lookup C host")
    case (Refused e)
    then show ?thesis using assms by (auto simp: acceptor_for_host_def)
  next
    case (Cached x)
    then show ?thesis using assms inv(3) lookup_cached [OF Cached]
      by (auto simp: acceptor_for_host_def leaves.entries_ok_def)
  next
    case Missing
    show ?thesis
    proof (cases "build_acceptor B C host")
      case (Inl e)
      then show ?thesis using assms Missing by (auto simp: acceptor_for_host_def)
    next
      case (Inr m)
      obtain x D where pub: "acceptor_publish host m C = (x, D)" by force
      have "serves A host m"
        using build_acceptor_serves [OF Inr lookup_missing [OF Missing]] serves_cong [OF inv(1)] by simp
      from publish_step [OF pub inv(2) this inv(3,1)] assms(1) Missing Inr pub show ?thesis
        by (auto simp: acceptor_for_host_def ca_inv_of_start)
    qed
  qed
qed

lemma handle_tunnel_run:
  assumes "handle_tunnel B h host C = (r, C')" and "ca_inv A (ca_start C)"
  shows "ca_inv A (ca_start C') \<and> (\<forall>a. r = Inr a \<longrightarrow> serves A host a)"
proof -
  obtain q D where acc: "acceptor_for_host B host C = (q, D)" by force
  then have "C' = D" "\<And>a. r = Inr a \<Longrightarrow> q = Inr a"
    using assms(1) by (auto simp: handle_tunnel_def split: sum.splits option.splits)
  then show ?thesis using acceptor_for_host_run [OF acc assms(2)] by blast
qed

lemma px_step_inv:
  assumes "px_step X s t" and "px_inv A s"
  shows "px_inv A t"
  using assms(1)
proof (cases rule: px_step.cases)
  case (request req resp tunnel sent e)
  then show ?thesis using assms(2)
    by (auto simp: px_inv_def list_all_iff from_origin_def origin_ok_def)
next
  case (tunnel host B h r C)
  have "ca_inv A (ca_start (sp_authority (px_proxy s)))" using assms(2) by (simp add: px_inv_def)
  from handle_tunnel_run [OF tunnel(3) this] assms(2) tunnel(1) show ?thesis
    by (auto simp: px_inv_def split: sum.splits)
next
  case (inner host a req resp sent e)
  have "is_valid_host host" using assms(2) inner(2) by (auto simp: px_inv_def serves_def)
  then have "list_all origin_ok (from_origin (Tunnelled host) sent)"
    using forward_run [OF inner(3)]
    by (auto simp: from_origin_def origin_ok_def tunnel_uri_def list_all_iff)
  then show ?thesis using assms(2) inner(1) by (simp add: px_inv_def)
next
  case (swap client)
  then show ?thesis using assms(2) by (simp add: px_inv_def set_upstream_client_def)
qed


section \<open>A concrete proxy\<close>

definition plain_exchange :: "nat exchange" where
  "plain_exchange =
     \<lparr>xc_method_ok = (\<lambda>m. m = ''GET''), xc_header_ok = (\<lambda>kv. True),
      xc_send = (\<lambda>c r e. (Inr \<lparr>pr_status = 204, pr_headers = [], pr_body = []\<rparr>, Suc e))\<rparr>"

definition tunnel_get :: browser_request where
  "tunnel_get =
     \<lparr>br_method = ''GET'', br_host = None, br_port = None, br_uri = ''/x'', br_path_and_query = Some ''/x'',
      br_headers = [(''host'', ''evil.example''), (''accept'', ''*'')], br_body = []\<rparr>"

definition connect_request :: browser_request where
  "connect_request =
     \<lparr>br_method = ''CONNECT'', br_host = Some ''a.example'', br_port = Some 443, br_uri = ''a.example:443'',
      br_path_and_query = None, br_headers = [], br_body = []\<rparr>"

lemma plain_proxy: "\<exists>p. start_with_observer plain_btls (Inr 8080) 1 2 c = Inr p \<and> au_cache (sp_authority p) = leaf_empty"
  by (simp add: start_with_observer_def generate_def build_ca_def del: tls_calls.simps)

lemma plain_tunnel:
  assumes "au_cache A = leaf_empty"
  shows "\<exists>a C. handle_tunnel plain_btls \<lparr>hs_new = None, hs_stream = None, hs_accept = None\<rparr> ''a.example'' A = (Inr a, C)"
proof -
  obtain m where "build_acceptor plain_btls A ''a.example'' = Inr m"
    by (simp add: build_acceptor_def build_leaf_def del: tls_calls.simps)
  then show ?thesis using example_host assms
    by (simp add: handle_tunnel_def acceptor_for_host_def acceptor_lookup_def acceptor_publish_def leaf_empty_def
        leaf_get_def)
qed


section \<open>What a request is answered\<close>

text \<open>A request in a tunnel is always answered: a method the client cannot carry with 400 and without
sending anything; otherwise exactly one request is sent, with the browser's method, body and headers but
for the host, by the client then in the slot, and the answer is the upstream's when its headers can be
carried, and 502 when they cannot or sending failed.\<close>

theorem tunnel_request_answered:
  "case forward_tls_request X client host req e of (resp, sent, e') \<Rightarrow>
     if xc_method_ok X (br_method req)
     then \<exists>u. sent = [(client, u)] \<and> up_method u = br_method req \<and> up_body u = br_body req
       \<and> up_uri u = tunnel_uri host req
       \<and> up_headers u = filter (\<lambda>kv. fst kv \<noteq> ''host'') (br_headers req)
       \<and> (case xc_send X client u e of
            (Inl _, e2) \<Rightarrow> resp = empty_response 502 \<and> e' = e2
          | (Inr up, e2) \<Rightarrow> resp = (if list_all (xc_header_ok X) (pr_headers up) then up else empty_response 502)
                            \<and> e' = e2)
     else resp = empty_response 400 \<and> sent = [] \<and> e' = e"
  by (auto simp: forward_tls_request_def send_upstream_def upstream_response_def BAD_GATEWAY_def BAD_REQUEST_def
      split: prod.split sum.split)

text \<open>
  The port of a \<open>CONNECT\<close> is forgotten: tunnels to two ports of one host are one, and what is said in
  them goes to the default port.
\<close>

lemma connect_port_forgotten:
  "handle_request X client (req\<lparr>br_method := ''CONNECT'', br_port := q\<rparr>) e
     = handle_request X client (req\<lparr>br_method := ''CONNECT'', br_port := r\<rparr>) e"
  by (simp add: handle_request_def)

end
