(* ===== verification/ProxyLifecycle.thy ===== *)
theory ProxyLifecycle
  imports SpoofingProxy
begin

text \<open>
  Models the tasks of \<open>src/src/proxy.rs\<close>: the accept loop \<open>start_with_observer\<close> spawns, a task per
  connection and per tunnel, and what dropping the proxy does to them. Each \<open>select!\<close> takes any branch that is
  ready, so a step relation says what can happen next. A tunnel's task first waits for the upgrade and the
  handshake, where it does not look at the cancellation; a task that serves is or is not in the middle of an exchange.
\<close>

section \<open>Tasks\<close>

datatype task = Handshaking | Serving bool | Ended | Cut

record listener =
  ln_running :: bool
  ln_cancelled :: bool
  ln_shutdown :: bool
  ln_tasks :: "task list"

definition ln_start :: listener where
  "ln_start = \<lparr>ln_running = True, ln_cancelled = False, ln_shutdown = False, ln_tasks = []\<rparr>"

definition drop_proxy :: "listener \<Rightarrow> listener" where
  "drop_proxy s = s\<lparr>ln_cancelled := True, ln_shutdown := True\<rparr>"

definition spawn_task :: "task \<Rightarrow> listener \<Rightarrow> listener" where
  "spawn_task t s = s\<lparr>ln_tasks := ln_tasks s @ [t]\<rparr>"

definition set_task :: "nat \<Rightarrow> task \<Rightarrow> listener \<Rightarrow> listener" where
  "set_task i t s = s\<lparr>ln_tasks := (ln_tasks s)[i := t]\<rparr>"

text \<open>
  On cancellation a task asks its connection to shut down gracefully and then returns, which drops the
  connection: an exchange in progress is not waited for.
\<close>

definition cancel_task :: "bool \<Rightarrow> task" where
  "cancel_task busy = (if busy then Cut else Ended)"

inductive ln_step :: "listener \<Rightarrow> listener \<Rightarrow> bool" where
  accept: "ln_running s \<Longrightarrow> ln_step s (spawn_task (Serving False) s)"
| accept_failed: "ln_running s \<Longrightarrow> ln_step s s"
| loop_cancelled: "ln_running s \<Longrightarrow> ln_cancelled s \<Longrightarrow> ln_step s (s\<lparr>ln_running := False\<rparr>)"
| loop_shutdown: "ln_running s \<Longrightarrow> ln_shutdown s \<Longrightarrow> ln_step s (s\<lparr>ln_running := False\<rparr>)"
| begin_exchange: "i < length (ln_tasks s) \<Longrightarrow> ln_tasks s ! i = Serving False \<Longrightarrow>
    ln_step s (set_task i (Serving True) s)"
| finish_exchange: "i < length (ln_tasks s) \<Longrightarrow> ln_tasks s ! i = Serving True \<Longrightarrow>
    ln_step s (set_task i (Serving False) s)"
| open_tunnel: "i < length (ln_tasks s) \<Longrightarrow> ln_tasks s ! i = Serving True \<Longrightarrow>
    ln_step s (spawn_task Handshaking s)"
| handshake_done: "i < length (ln_tasks s) \<Longrightarrow> ln_tasks s ! i = Handshaking \<Longrightarrow>
    ln_step s (set_task i (Serving False) s)"
| handshake_failed: "i < length (ln_tasks s) \<Longrightarrow> ln_tasks s ! i = Handshaking \<Longrightarrow>
    ln_step s (set_task i Ended s)"
| connection_over: "i < length (ln_tasks s) \<Longrightarrow> ln_tasks s ! i = Serving b \<Longrightarrow>
    ln_step s (set_task i Ended s)"
| task_cancelled: "i < length (ln_tasks s) \<Longrightarrow> ln_tasks s ! i = Serving b \<Longrightarrow> ln_cancelled s \<Longrightarrow>
    ln_step s (set_task i (cancel_task b) s)"
| dropped: "ln_step s (drop_proxy s)"

inductive_cases ln_stepE: "ln_step s s'"

definition quiet :: "listener \<Rightarrow> bool" where
  "quiet s \<longleftrightarrow> \<not> ln_running s \<and> (\<forall>t \<in> set (ln_tasks s). t = Ended \<or> t = Cut)"

definition ln_inv :: "listener \<Rightarrow> bool" where
  "ln_inv s \<longleftrightarrow> ln_cancelled s = ln_shutdown s \<and>
     (\<not> ln_cancelled s \<longrightarrow> ln_running s \<and> Cut \<notin> set (ln_tasks s))"

lemma ln_inv_step: "ln_step s s' \<Longrightarrow> ln_inv s \<Longrightarrow> ln_inv s'"
  by (induction rule: ln_step.induct)
    (auto simp: ln_inv_def spawn_task_def set_task_def drop_proxy_def cancel_task_def
      dest!: set_update_subset_insert[THEN subsetD])

lemma ln_inv_reach: "ln_step\<^sup>*\<^sup>* ln_start s \<Longrightarrow> ln_inv s"
  by (induction rule: rtranclp_induct) (simp add: ln_inv_def ln_start_def, blast intro: ln_inv_step)

definition serving_count :: "listener \<Rightarrow> nat" where
  "serving_count s = length (filter (\<lambda>t. t \<noteq> Ended \<and> t \<noteq> Cut) (ln_tasks s))"

lemma count_update:
  "i < length ts \<Longrightarrow> P (ts ! i) \<Longrightarrow> \<not> P y \<Longrightarrow>
   Suc (length (filter P (ts[i := y]))) = length (filter P ts)"
  by (induction ts arbitrary: i) (auto simp: nth_Cons split: nat.splits)

lemma tasks_wind_down:
  "ln_cancelled s \<Longrightarrow> \<not> ln_running s \<Longrightarrow>
   \<exists>s'. ln_step\<^sup>*\<^sup>* s s' \<and> quiet s' \<and> length (ln_tasks s') = length (ln_tasks s)"
proof (induction "serving_count s" arbitrary: s rule: less_induct)
  case less
  show ?case
  proof (cases "quiet s")
    case False
    then obtain i where i: "i < length (ln_tasks s)" "ln_tasks s ! i \<noteq> Ended" "ln_tasks s ! i \<noteq> Cut"
      using less.prems by (auto simp: quiet_def in_set_conv_nth)
    then have "\<exists>y. ln_step s (set_task i y s) \<and> (y = Ended \<or> y = Cut)"
    proof (cases "ln_tasks s ! i")
      case Handshaking
      then show ?thesis using i by (blast intro: handshake_failed)
    next
      case (Serving b)
      then have "ln_step s (set_task i (cancel_task b) s)"
        using i less.prems by (blast intro: task_cancelled)
      then show ?thesis by (auto simp: cancel_task_def split: if_splits)
    qed auto
    then obtain y where y: "ln_step s (set_task i y s)" "y = Ended \<or> y = Cut" by blast
    define n where "n = set_task i y s"
    have st: "ln_step s n" using y by (simp add: n_def)
    have "serving_count n < serving_count s"
      using count_update[of i "ln_tasks s" "\<lambda>t. t \<noteq> Ended \<and> t \<noteq> Cut" y] i y(2)
      by (auto simp: serving_count_def n_def set_task_def)
    moreover have "ln_cancelled n" "\<not> ln_running n" "length (ln_tasks n) = length (ln_tasks s)"
      using less.prems by (auto simp: n_def set_task_def)
    ultimately show ?thesis using less.hyps[of n] st by (metis converse_rtranclp_into_rtranclp)
  qed (use less.prems in blast)
qed

lemma quiet_stays: "ln_step s s' \<Longrightarrow> quiet s \<Longrightarrow> quiet s' \<and> ln_tasks s' = ln_tasks s"
  by (induction rule: ln_step.induct) (auto simp: quiet_def drop_proxy_def dest!: nth_mem)

lemma quiet_final: "ln_step\<^sup>*\<^sup>* s s' \<Longrightarrow> quiet s \<Longrightarrow> quiet s' \<and> ln_tasks s' = ln_tasks s"
  by (induction rule: rtranclp_induct) (auto dest: quiet_stays)



text \<open>The graceful shutdown is not: an exchange in progress when the proxy is dropped can be cut.\<close>

lemma drop_cuts_exchange:
  "\<exists>s s'. ln_step\<^sup>*\<^sup>* ln_start s \<and> ln_step\<^sup>*\<^sup>* (drop_proxy s) s' \<and> ln_tasks s = [Serving True] \<and> ln_tasks s' = [Cut]"
proof -
  define s where "s = set_task 0 (Serving True) (spawn_task (Serving False) ln_start)"
  have "ln_step ln_start (spawn_task (Serving False) ln_start)" by (rule accept) (simp add: ln_start_def)
  moreover have "ln_step (spawn_task (Serving False) ln_start) s"
    unfolding s_def by (rule begin_exchange) (auto simp: spawn_task_def ln_start_def)
  ultimately have "ln_step\<^sup>*\<^sup>* ln_start s" by auto
  moreover have "ln_step (drop_proxy s) (set_task 0 (cancel_task True) (drop_proxy s))"
    by (rule task_cancelled)
      (auto simp: s_def drop_proxy_def set_task_def spawn_task_def ln_start_def)
  ultimately show ?thesis
    by (intro exI[of _ s] exI[of _ "set_task 0 (cancel_task True) (drop_proxy s)"])
      (auto simp: s_def drop_proxy_def set_task_def spawn_task_def ln_start_def cancel_task_def)
qed

text \<open>A tunnel in its handshake does not notice the drop: only the handshake's end changes its task.\<close>

lemma handshake_ignores_drop:
  "ln_step s s' \<Longrightarrow> i < length (ln_tasks s) \<Longrightarrow> ln_tasks s ! i = Handshaking \<Longrightarrow>
   ln_tasks s' ! i = Handshaking \<or> s' = set_task i (Serving False) s \<or> s' = set_task i Ended s"
  by (induction rule: ln_step.induct)
    (auto simp: spawn_task_def set_task_def drop_proxy_def nth_append nth_list_update)

end
