(* ===== verification/CertCompression.thy ===== *)
theory CertCompression
  imports Prelude
begin

text \<open>
  Models \<open>src/src/cert_compression.rs\<close>: the two certificate codecs and the bounded copy that both
  decompressors end in. The brotli and zlib codecs themselves are library code and come in as the
  record \<open>codec_lib\<close>: a compressor gives a result and the bytes it wrote, a decoder gives the results of the
  successive \<open>read\<close> calls on it (the end of the list is the end of the stream). The output is the
  bytes it holds; whether it takes a chunk is an argument too.
\<close>

section \<open>The bounded copy\<close>

definition BROTLI_QUALITY :: u32 where "BROTLI_QUALITY = 5"
definition BROTLI_WINDOW :: u32 where "BROTLI_WINDOW = 22"
definition MAX_DECOMPRESSED :: nat where "MAX_DECOMPRESSED = 2 ^ 20"
definition COPY_BUFFER :: nat where "COPY_BUFFER = 8192"

datatype io_error = InvalidData string | OtherIo string

type_synonym reads = "(io_error + u8 list) list"

text \<open>An output as \<open>write_all\<close> sees it: given what it holds and a chunk, an error or none, and what
  it holds afterwards.\<close>

type_synonym sink = "u8 list \<Rightarrow> u8 list \<Rightarrow> io_error option \<times> u8 list"

definition vec_sink :: sink where
  "vec_sink out chunk = (None, out @ chunk)"

definition saturating_usize :: "nat \<Rightarrow> nat \<Rightarrow> nat" where
  "saturating_usize a b = min (a + b) (2 ^ 64 - 1)"

fun copy_loop :: "sink \<Rightarrow> reads \<Rightarrow> nat \<Rightarrow> u8 list \<Rightarrow> (io_error + unit) \<times> u8 list" where
  "copy_loop wr [] written out = (Inr (), out)"
| "copy_loop wr (Inl e # rs) written out = (Inl e, out)"
| "copy_loop wr (Inr chunk # rs) written out =
     (if length chunk = 0 then (Inr (), out)
      else
        (let written' = saturating_usize written (length chunk) in
         if MAX_DECOMPRESSED < written'
         then (Inl (InvalidData ''compressed certificate expanded past the allowed size''), out)
         else (case wr out chunk of
                 (Some e, out') \<Rightarrow> (Inl e, out')
               | (None, out') \<Rightarrow> copy_loop wr rs written' out')))"

definition copy_bounded :: "sink \<Rightarrow> reads \<Rightarrow> u8 list \<Rightarrow> (io_error + unit) \<times> u8 list" where
  "copy_bounded wr rs out = copy_loop wr rs 0 out"

section \<open>The codecs\<close>

datatype algorithm = BROTLI | ZLIB

record codec_lib =
  lib_brotli_writer :: "sink \<Rightarrow> u8 list \<Rightarrow> nat \<Rightarrow> u32 \<Rightarrow> u32 \<Rightarrow> u8 list \<Rightarrow> (io_error + unit) \<times> u8 list"
  lib_brotli_reader :: "u8 list \<Rightarrow> nat \<Rightarrow> reads"
  lib_zlib_writer :: "sink \<Rightarrow> u8 list \<Rightarrow> u8 list \<Rightarrow> (io_error + unit) \<times> u8 list"
  lib_zlib_reader :: "u8 list \<Rightarrow> reads"

definition brotli_compress :: "codec_lib \<Rightarrow> sink \<Rightarrow> u8 list \<Rightarrow> u8 list \<Rightarrow> (io_error + unit) \<times> u8 list" where
  "brotli_compress L wr input out =
     lib_brotli_writer L wr out (max (length input) 1) BROTLI_QUALITY BROTLI_WINDOW input"

definition brotli_decompress :: "codec_lib \<Rightarrow> sink \<Rightarrow> u8 list \<Rightarrow> u8 list \<Rightarrow> (io_error + unit) \<times> u8 list" where
  "brotli_decompress L wr input out =
     copy_bounded wr (lib_brotli_reader L input (max (length input) 1)) out"

definition zlib_compress :: "codec_lib \<Rightarrow> sink \<Rightarrow> u8 list \<Rightarrow> u8 list \<Rightarrow> (io_error + unit) \<times> u8 list" where
  "zlib_compress L wr input out = lib_zlib_writer L wr out input"

definition zlib_decompress :: "codec_lib \<Rightarrow> sink \<Rightarrow> u8 list \<Rightarrow> u8 list \<Rightarrow> (io_error + unit) \<times> u8 list" where
  "zlib_decompress L wr input out = copy_bounded wr (lib_zlib_reader L input) out"

fun compress_with :: "codec_lib \<Rightarrow> sink \<Rightarrow> algorithm \<Rightarrow> u8 list \<Rightarrow> u8 list \<Rightarrow> (io_error + unit) \<times> u8 list" where
  "compress_with L wr BROTLI = brotli_compress L wr"
| "compress_with L wr ZLIB = zlib_compress L wr"

fun decompress_with :: "codec_lib \<Rightarrow> sink \<Rightarrow> algorithm \<Rightarrow> u8 list \<Rightarrow> u8 list \<Rightarrow> (io_error + unit) \<times> u8 list" where
  "decompress_with L wr BROTLI = brotli_decompress L wr"
| "decompress_with L wr ZLIB = zlib_decompress L wr"

section \<open>What the copy delivers\<close>

text \<open>The bytes a reader offers before its end or its first error, and how it stops.\<close>

fun offered :: "reads \<Rightarrow> u8 list" where
  "offered [] = []"
| "offered (Inl e # rs) = []"
| "offered (Inr c # rs) = (if c = [] then [] else c @ offered rs)"

fun stops_with :: "reads \<Rightarrow> io_error option" where
  "stops_with [] = None"
| "stops_with (Inl e # rs) = Some e"
| "stops_with (Inr c # rs) = (if c = [] then None else stops_with rs)"

lemma saturating_usize_exceeds [simp]:
  "MAX_DECOMPRESSED < saturating_usize a b \<longleftrightarrow> MAX_DECOMPRESSED < a + b"
  by (auto simp: saturating_usize_def MAX_DECOMPRESSED_def)

lemma saturating_usize_small: "\<not> MAX_DECOMPRESSED < a + b \<Longrightarrow> saturating_usize a b = a + b"
  by (auto simp: saturating_usize_def MAX_DECOMPRESSED_def)

definition oversized :: io_error where
  "oversized = InvalidData ''compressed certificate expanded past the allowed size''"

lemma copy_loop_vec_ok:
  "n + length (offered rs) \<le> MAX_DECOMPRESSED \<Longrightarrow>
   copy_loop vec_sink rs n out =
     ((case stops_with rs of None \<Rightarrow> Inr () | Some e \<Rightarrow> Inl e), out @ offered rs)"
proof (induction vec_sink rs n out rule: copy_loop.induct)
  case (3 chunk rs written out)
  then show ?case
    by (cases "chunk = []") (auto simp: Let_def vec_sink_def saturating_usize_small split: option.splits)
qed auto

lemma copy_loop_vec_big:
  "MAX_DECOMPRESSED < n + length (offered rs) \<Longrightarrow> n \<le> MAX_DECOMPRESSED \<Longrightarrow>
   \<exists>k. copy_loop vec_sink rs n out = (Inl oversized, out @ take k (offered rs)) \<and>
       n + k \<le> MAX_DECOMPRESSED \<and> k \<le> length (offered rs)"
proof (induction rs arbitrary: n out)
  case (Cons r rs)
  show ?case
  proof (cases "\<exists>chunk. r = Inr chunk \<and> chunk \<noteq> [] \<and> n + length chunk \<le> MAX_DECOMPRESSED")
    case False
    then show ?thesis
      using Cons.prems
      by (cases r) (auto intro!: exI[of _ "0 :: nat"] simp: Let_def oversized_def)
  next
    case True
    then obtain chunk where r: "r = Inr chunk" "chunk \<noteq> []" "n + length chunk \<le> MAX_DECOMPRESSED"
      by blast
    obtain k where k: "copy_loop vec_sink rs (n + length chunk) (out @ chunk) =
        (Inl oversized, (out @ chunk) @ take k (offered rs))"
      "n + length chunk + k \<le> MAX_DECOMPRESSED" "k \<le> length (offered rs)"
      using Cons.IH[of "n + length chunk" "out @ chunk"] Cons.prems r by auto
    have step: "copy_loop vec_sink (r # rs) n out =
        copy_loop vec_sink rs (n + length chunk) (out @ chunk)"
      using r by (simp add: Let_def vec_sink_def saturating_usize_small not_less)
    show ?thesis
      unfolding step using k r by (intro exI[of _ "length chunk + k"]) auto
  qed
qed simp

text \<open>A sink adds at most the chunk it is handed, whether it reports success or not.\<close>

definition appends :: "sink \<Rightarrow> bool" where
  "appends wr \<longleftrightarrow> (\<forall>out chunk. \<exists>k. snd (wr out chunk) = out @ take k chunk)"

lemma copy_loop_bounded:
  assumes "appends wr"
  shows "n \<le> MAX_DECOMPRESSED \<Longrightarrow>
         length (snd (copy_loop wr rs n out)) + n \<le> length out + MAX_DECOMPRESSED"
proof (induction rs arbitrary: n out)
  case (Cons r rs)
  show ?case
  proof (cases "\<exists>chunk. r = Inr chunk \<and> chunk \<noteq> [] \<and> n + length chunk \<le> MAX_DECOMPRESSED")
    case False
    then show ?thesis using Cons.prems by (cases r) (auto simp: Let_def)
  next
    case True
    then obtain chunk where r: "r = Inr chunk" "chunk \<noteq> []" "n + length chunk \<le> MAX_DECOMPRESSED"
      by blast
    obtain e out' where w: "wr out chunk = (e, out')" by fastforce
    then obtain k where "out' = out @ take k chunk"
      using assms unfolding appends_def by (metis snd_conv)
    then have "length out' \<le> length out + length chunk" by simp
    then show ?thesis
      using r w Cons.prems Cons.IH[of "n + length chunk" out']
      by (auto simp: Let_def saturating_usize_small not_less split: option.splits)
  qed
qed simp

text \<open>C37. 
  Decompression is bounded and all or nothing in what it reports. Whatever the peer's bytes
  decode to, and whatever the output does with a chunk as long as it appends at most that chunk,
  a decompressor adds no more than one mebibyte to the output before it returns. Into a byte vector it succeeds exactly when
  the decoder ends without an error within that limit, and then the output holds everything the decoder
  gave; past the limit the error names it, and a decoder's own error comes back as it is.
\<close>

theorem decompression_bounded:
  assumes "appends wr"
  shows "length (snd (decompress_with L wr a input out)) \<le> length out + MAX_DECOMPRESSED \<and>
    (let rs = (case a of BROTLI \<Rightarrow> lib_brotli_reader L input (max (length input) 1)
                       | ZLIB \<Rightarrow> lib_zlib_reader L input);
         (res, out') = decompress_with L vec_sink a input out in
     (res = Inr () \<longleftrightarrow> stops_with rs = None \<and> length (offered rs) \<le> MAX_DECOMPRESSED) \<and>
     (res = Inr () \<longrightarrow> out' = out @ offered rs) \<and>
     (MAX_DECOMPRESSED < length (offered rs) \<longrightarrow> res = Inl oversized) \<and>
     (\<forall>e. stops_with rs = Some e \<and> length (offered rs) \<le> MAX_DECOMPRESSED \<longrightarrow> res = Inl e))"
proof -
  define rs where "rs = (case a of BROTLI \<Rightarrow> lib_brotli_reader L input (max (length input) 1)
                       | ZLIB \<Rightarrow> lib_zlib_reader L input)"
  have d: "decompress_with L s a input out = copy_loop s rs 0 out" for s
    by (cases a) (simp_all add: rs_def copy_bounded_def brotli_decompress_def zlib_decompress_def)
  have "length (snd (copy_loop wr rs 0 out)) \<le> length out + MAX_DECOMPRESSED"
    using copy_loop_bounded[OF assms, of 0 rs out] by simp
  moreover have "length (offered rs) \<le> MAX_DECOMPRESSED \<Longrightarrow> copy_loop vec_sink rs 0 out =
     ((case stops_with rs of None \<Rightarrow> Inr () | Some e \<Rightarrow> Inl e), out @ offered rs)"
    by (rule copy_loop_vec_ok) simp
  moreover have "MAX_DECOMPRESSED < length (offered rs) \<Longrightarrow>
     \<exists>k. copy_loop vec_sink rs 0 out = (Inl oversized, out @ take k (offered rs))"
    using copy_loop_vec_big[of 0 rs out] by auto
  ultimately show ?thesis
    unfolding d rs_def[symmetric] by (cases "length (offered rs) \<le> MAX_DECOMPRESSED")
      (auto simp: Let_def split: option.splits)
qed

definition stored_codecs :: codec_lib where
  "stored_codecs =
     \<lparr>lib_brotli_writer = (\<lambda>wr out n q w input. (Inr (), snd (wr out input))),
      lib_brotli_reader = (\<lambda>input n. [Inr input]),
      lib_zlib_writer = (\<lambda>wr out input. (Inr (), snd (wr out input))),
      lib_zlib_reader = (\<lambda>input. [Inr input])\<rparr>"

lemma vec_sink_appends: "appends vec_sink"
  unfolding appends_def vec_sink_def by (metis snd_conv take_all_iff le_refl)

theorem decompression_bounded_witness:
  "length (snd (decompress_with stored_codecs vec_sink ZLIB [7, 8] [])) \<le> MAX_DECOMPRESSED \<and>
   decompress_with stored_codecs vec_sink ZLIB [7, 8] [] = (Inr (), [7, 8])"
  using decompression_bounded[OF vec_sink_appends, of stored_codecs ZLIB "[7, 8]" "[]"]
  by (simp add: stored_codecs_def Let_def MAX_DECOMPRESSED_def split: prod.splits)

text \<open>
  A certificate chain survives its codec exactly when it is within the limit: for codec
  libraries whose decoder gives back what their encoder was given, compressing a chain and decompressing the
  result returns the chain when it is no longer than one mebibyte, and refuses it otherwise.
\<close>

theorem codec_roundtrip:
  assumes enc: "compress_with L vec_sink a chain [] = (Inr (), packed)"
    and dec: "\<And>p. compress_with L vec_sink a chain [] = (Inr (), p) \<Longrightarrow>
       (let rs = (case a of BROTLI \<Rightarrow> lib_brotli_reader L p (max (length p) 1) | ZLIB \<Rightarrow> lib_zlib_reader L p)
        in stops_with rs = None \<and> offered rs = chain)"
  shows "if length chain \<le> MAX_DECOMPRESSED
         then decompress_with L vec_sink a packed [] = (Inr (), chain)
         else fst (decompress_with L vec_sink a packed []) = Inl oversized"
proof -
  define rs where "rs = (case a of BROTLI \<Rightarrow> lib_brotli_reader L packed (max (length packed) 1)
                       | ZLIB \<Rightarrow> lib_zlib_reader L packed)"
  have d: "decompress_with L vec_sink a packed [] = copy_loop vec_sink rs 0 []"
    by (cases a) (simp_all add: rs_def copy_bounded_def brotli_decompress_def zlib_decompress_def)
  have "stops_with rs = None" "offered rs = chain"
    using dec[OF enc] by (simp_all add: rs_def Let_def)
  then show ?thesis
    unfolding d using copy_loop_vec_ok[of 0 rs "[]"] copy_loop_vec_big[of 0 rs "[]"] by auto
qed

theorem codec_roundtrip_witness:
  "decompress_with stored_codecs vec_sink BROTLI [1, 2, 3] [] = (Inr (), [1, 2, 3])"
  using codec_roundtrip[of stored_codecs BROTLI "[1, 2, 3]" "[1, 2, 3]"]
  by (simp add: stored_codecs_def vec_sink_def MAX_DECOMPRESSED_def Let_def brotli_compress_def)

end
