(* ===== verification/Stealth.thy ===== *)
theory Stealth
  imports Profile Json
begin

text \<open>
  Models the Rust side of \<open>src/src/stealth.rs\<close>: the noise seed, the literal encoding, and the values
  \<open>generate_stealth_js\<close> puts into its script, in the order of the format arguments. SHA-256 and the JSON
  encoder are arguments. What the script then does in a page is in \<open>StealthScript\<close>.
\<close>

definition DEFAULT_LANGUAGES :: "string list" where
  "DEFAULT_LANGUAGES = [''en-US'', ''en'']"

definition to_le_bytes :: "u32 \<Rightarrow> u8 list" where
  "to_le_bytes w = [ucast w, ucast (drop_bit 8 w), ucast (drop_bit 16 w), ucast (drop_bit 24 w)]"

definition u32_from_le :: "u8 list \<Rightarrow> u32" where
  "u32_from_le bs =
     ucast (bs ! 0) OR push_bit 8 (ucast (bs ! 1)) OR push_bit 16 (ucast (bs ! 2))
       OR push_bit 24 (ucast (bs ! 3))"

definition str_bytes :: "string \<Rightarrow> u8 list" where
  "str_bytes s = map of_char s"

definition seed_input :: "browser_profile \<Rightarrow> u8 list" where
  "seed_input p =
     str_bytes (user_agent p) @ str_bytes (platform p) @ str_bytes (webgl_vendor p)
       @ str_bytes (webgl_renderer p) @ to_le_bytes (hardware_concurrency p)
       @ to_le_bytes (device_memory p)"

definition noise_seed :: "(u8 list \<Rightarrow> u8 list) \<Rightarrow> browser_profile \<Rightarrow> u32" where
  "noise_seed sha p = u32_from_le (take 4 (sha (seed_input p)))"

definition js_literal :: "(json \<Rightarrow> string option) \<Rightarrow> json \<Rightarrow> string" where
  "js_literal to_string v = (case to_string v of Some s \<Rightarrow> s | None \<Rightarrow> ''null'')"

record script_values =
  sv_concurrency :: u32
  sv_memory :: u32
  sv_platform :: string
  sv_user_agent :: string
  sv_languages :: string
  sv_webgl_vendor :: string
  sv_webgl_renderer :: string
  sv_seed :: u32

definition script_languages :: "string list \<Rightarrow> string list" where
  "script_languages languages = (if languages = [] then DEFAULT_LANGUAGES else languages)"

definition generate_stealth_values ::
    "(u8 list \<Rightarrow> u8 list) \<Rightarrow> (json \<Rightarrow> string option) \<Rightarrow> browser_profile \<Rightarrow> string list \<Rightarrow> script_values" where
  "generate_stealth_values sha to_string p languages =
     \<lparr>sv_concurrency = hardware_concurrency p,
      sv_memory = device_memory p,
      sv_platform = js_literal to_string (JStr (platform p)),
      sv_user_agent = js_literal to_string (JStr (user_agent p)),
      sv_languages = js_literal to_string (JArr (map JStr (script_languages languages))),
      sv_webgl_vendor = js_literal to_string (JStr (webgl_vendor p)),
      sv_webgl_renderer = js_literal to_string (JStr (webgl_renderer p)),
      sv_seed = noise_seed sha p\<rparr>"

definition encoded_values :: "browser_profile \<Rightarrow> string list \<Rightarrow> json list" where
  "encoded_values p languages =
     [JStr (platform p), JStr (user_agent p), JArr (map JStr (script_languages languages)),
      JStr (webgl_vendor p), JStr (webgl_renderer p)]"

section \<open>The seed\<close>

lemma to_le_bytes_length [simp]: "length (to_le_bytes w) = 4"
  by (simp add: to_le_bytes_def)

lemma le_roundtrip: "u32_from_le (to_le_bytes w) = w"
proof (rule bit_word_eqI)
  fix n
  assume "n < LENGTH(32)"
  then have "n < 8 \<or> 8 \<le> n \<and> n < 16 \<or> 16 \<le> n \<and> n < 24 \<or> 24 \<le> n \<and> n < 32" by auto
  then show "bit (u32_from_le (to_le_bytes w)) n = bit w n"
    by (elim disjE)
      (auto simp: u32_from_le_def to_le_bytes_def bit_or_iff bit_push_bit_iff bit_ucast_iff bit_drop_bit_eq)
qed

lemma to_le_bytes_inj: "to_le_bytes a = to_le_bytes b \<Longrightarrow> a = b"
  by (metis le_roundtrip)

text \<open>
  The fields are hashed without separators, so two profiles whose texts run together in the same way share
  their noise.
\<close>

lemma seed_runs_together:
  "seed_input (p\<lparr>user_agent := ''a'', platform := ''bc''\<rparr>) =
   seed_input (p\<lparr>user_agent := ''ab'', platform := ''c''\<rparr>)"
  by (simp add: seed_input_def str_bytes_def)

lemma seed_input_hardware:
  assumes "user_agent p = user_agent q" "platform p = platform q"
    and "webgl_vendor p = webgl_vendor q" "webgl_renderer p = webgl_renderer q"
  shows "seed_input p = seed_input q \<longleftrightarrow>
    hardware_concurrency p = hardware_concurrency q \<and> device_memory p = device_memory q"
  using assms by (auto simp: seed_input_def dest: to_le_bytes_inj)

text \<open>
  What the stealth script is told. The noise seed is a function of the six hashed fields alone: changing the viewport or
  the Accept-Language keeps it, and profiles that differ only in their hardware numbers are hashed from different
  bytes. The languages handed to the page are never empty, the given list unchanged when there is one. When the encoder
  reads back what it wrote, every text of the profile reaches the script as a literal that decodes to exactly that text,
  however hostile it is.
\<close>

theorem stealth_values_faithful:
  assumes rt: "\<And>v. v \<in> set (encoded_values p ls) \<Longrightarrow> \<exists>s. to_string v = Some s \<and> from_str s = Some v"
  shows "sv_seed (generate_stealth_values sha to_string (p\<lparr>viewport_width := w, viewport_height := h, accept_language := l\<rparr>) ls)
           = sv_seed (generate_stealth_values sha to_string p ls) \<and>
    (hardware_concurrency p \<noteq> c \<longrightarrow> seed_input (p\<lparr>hardware_concurrency := c\<rparr>) \<noteq> seed_input p) \<and>
    (\<exists>xs. xs \<noteq> [] \<and> (ls \<noteq> [] \<longrightarrow> xs = ls) \<and>
       from_str (sv_languages (generate_stealth_values sha to_string p ls)) = Some (JArr (map JStr xs))) \<and>
    from_str (sv_user_agent (generate_stealth_values sha to_string p ls)) = Some (JStr (user_agent p)) \<and>
    from_str (sv_platform (generate_stealth_values sha to_string p ls)) = Some (JStr (platform p)) \<and>
    from_str (sv_webgl_vendor (generate_stealth_values sha to_string p ls)) = Some (JStr (webgl_vendor p)) \<and>
    from_str (sv_webgl_renderer (generate_stealth_values sha to_string p ls)) = Some (JStr (webgl_renderer p))"
proof -
  have dec: "v \<in> set (encoded_values p ls) \<Longrightarrow> from_str (js_literal to_string v) = Some v" for v
    using rt[of v] by (auto simp: js_literal_def)
  have langs: "script_languages ls \<noteq> [] \<and> (ls \<noteq> [] \<longrightarrow> script_languages ls = ls)"
    by (simp add: script_languages_def DEFAULT_LANGUAGES_def)
  show ?thesis
    using langs
    by (auto simp: generate_stealth_values_def dec encoded_values_def noise_seed_def seed_input_def dest: to_le_bytes_inj)
qed

definition tiny_profile :: browser_profile where
  "tiny_profile = \<lparr>user_agent = ''ua'', platform = ''pf'', hardware_concurrency = 8, device_memory = 16,
     webgl_vendor = ''v'', webgl_renderer = ''r'', viewport_width = 1920, viewport_height = 1080,
     accept_language = ''en''\<rparr>"

definition tiny_codec :: "(json \<times> string) list" where
  "tiny_codec = [(JStr ''ua'', ''1''), (JStr ''pf'', ''2''), (JArr [JStr ''en-US'', JStr ''en''], ''3''),
     (JStr ''v'', ''4''), (JStr ''r'', ''5'')]"

lemma tiny_codec_reads:
  "v \<in> set (encoded_values tiny_profile []) \<Longrightarrow>
   \<exists>s. map_of tiny_codec v = Some s \<and> map_of (map (\<lambda>(v, s). (s, v)) tiny_codec) s = Some v"
  by (auto simp: encoded_values_def tiny_profile_def tiny_codec_def script_languages_def DEFAULT_LANGUAGES_def)

theorem stealth_values_faithful_witness:
  "map_of (map (\<lambda>(v, s). (s, v)) tiny_codec)
     (sv_languages (generate_stealth_values (\<lambda>bs. bs) (map_of tiny_codec) tiny_profile []))
   = Some (JArr [JStr ''en-US'', JStr ''en''])"
  using stealth_values_faithful[of tiny_profile "[]", OF tiny_codec_reads]
  by (simp add: generate_stealth_values_def js_literal_def tiny_profile_def tiny_codec_def
      script_languages_def DEFAULT_LANGUAGES_def)

end
