(* ===== verification/StealthScript.thy ===== *)
theory StealthScript
  imports Stealth
begin

text \<open>
  Models the script that \<open>src/src/stealth.rs\<close> puts into every document: its noise, with the generator
  \<open>makeRandom\<close> on 32-bit words, and the functions it replaces, with what a page can read off them. A page is the part of the
  browser's global state the script touches; \<open>run_script\<close> performs the script's statements in order.
\<close>

section \<open>Noise\<close>

definition js_mix :: "u32 \<Rightarrow> u32" where
  "js_mix t =
     (let t1 = (t XOR drop_bit 15 t) * (t OR 1);
          t2 = t1 XOR (t1 + (t1 XOR drop_bit 7 t1) * (t1 OR 61))
      in t2 XOR drop_bit 14 t2)"

text \<open>One call of the generator: the numerator of its value over \<open>2 ^ 32\<close>, and its new state.\<close>

definition js_random :: "u32 \<Rightarrow> u32 \<times> u32" where
  "js_random state = (js_mix (state + 0x6D2B79F5), state + 0x6D2B79F5)"

definition random_value :: "u32 \<Rightarrow> rat" where
  "random_value r = of_nat (unat r) / 4294967296"

definition noise_for :: "u32 \<Rightarrow> nat \<Rightarrow> nat" where
  "noise_for seed index =
     (if random_value (fst (js_random (seed XOR (of_nat index * 0x9E3779B1)))) < 1 / 2 then 0 else 1)"

function perturb_loop :: "u32 \<Rightarrow> nat \<Rightarrow> u8 list \<Rightarrow> u8 list" where
  "perturb_loop seed i px =
     (if length px \<le> i then px
      else
        (let delta = noise_for seed i in
         perturb_loop seed (i + 4)
           (if delta = 0 then px else px[i := of_nat (min 255 (unat (px ! i) + delta))])))"
  by pat_completeness auto
termination
  by (relation "measure (\<lambda>(seed, i, px). length px - i)") (auto simp: Let_def)

declare perturb_loop.simps [simp del]

datatype js_buffer = CanvasBuffer nat | AudioBuffer nat nat

record noise_page =
  np_next :: nat
  np_perturbed :: "js_buffer set"
  np_audio :: "nat \<Rightarrow> nat \<Rightarrow> rat list"

definition perturb_image_data ::
    "u32 \<Rightarrow> (js_buffer \<times> u8 list) option \<Rightarrow> noise_page
       \<Rightarrow> (js_buffer \<times> u8 list) option \<times> noise_page" where
  "perturb_image_data seed im p =
     (case im of
        None \<Rightarrow> (None, p)
      | Some (buf, px) \<Rightarrow>
          if buf \<in> np_perturbed p then (Some (buf, px), p)
          else (Some (buf, perturb_loop seed 0 px), p\<lparr>np_perturbed := insert buf (np_perturbed p)\<rparr>))"

text \<open>The native \<open>getImageData\<close> copies the pixels into a buffer of their own.\<close>

definition get_image_data :: "u32 \<Rightarrow> u8 list \<Rightarrow> noise_page \<Rightarrow> u8 list \<times> noise_page" where
  "get_image_data seed px p =
     (case perturb_image_data seed (Some (CanvasBuffer (np_next p), px)) (p\<lparr>np_next := np_next p + 1\<rparr>) of
        (Some (buf, px'), p') \<Rightarrow> (px', p')
      | (None, p') \<Rightarrow> ([], p'))"

text \<open>The native \<open>getChannelData\<close> gives the channel's own array; storing into it rounds to single
  precision, which is the argument \<open>f32\<close>.\<close>

function audio_loop :: "(rat \<Rightarrow> rat) \<Rightarrow> nat \<Rightarrow> u32 \<Rightarrow> rat list \<Rightarrow> rat list" where
  "audio_loop f32 i state xs =
     (if length xs \<le> i then xs
      else
        (case js_random state of (r, state') \<Rightarrow>
           audio_loop f32 (i + 1000) state'
             (xs[i := f32 (xs ! i + (random_value r - 1 / 2) * (1 / 10 ^ 7))])))"
  by pat_completeness auto
termination
  by (relation "measure (\<lambda>(f, i, s, xs). length xs - i)") auto

declare audio_loop.simps [simp del]

definition get_channel_data ::
    "(rat \<Rightarrow> rat) \<Rightarrow> u32 \<Rightarrow> nat \<Rightarrow> nat \<Rightarrow> noise_page \<Rightarrow> rat list \<times> noise_page" where
  "get_channel_data f32 seed b channel p =
     (let xs = np_audio p b channel; buf = AudioBuffer b channel in
      if length xs > 0 \<and> buf \<notin> np_perturbed p
      then (let xs' = audio_loop f32 0 (seed XOR of_nat channel) xs in
            (xs', p\<lparr>np_audio := (np_audio p)(b := (np_audio p b)(channel := xs')),
                    np_perturbed := insert buf (np_perturbed p)\<rparr>))
      else (xs, p))"

subsection \<open>What a page reads\<close>

datatype noise_read = ReadCanvas "u8 list" | ReadAudio nat nat
datatype noise_answer = Pixels "u8 list" | Samples "rat list"

fun do_read :: "(rat \<Rightarrow> rat) \<Rightarrow> u32 \<Rightarrow> noise_read \<Rightarrow> noise_page \<Rightarrow> noise_answer \<times> noise_page" where
  "do_read f32 seed (ReadCanvas px) p =
     (case get_image_data seed px p of (px', p') \<Rightarrow> (Pixels px', p'))"
| "do_read f32 seed (ReadAudio b c) p =
     (case get_channel_data f32 seed b c p of (xs, p') \<Rightarrow> (Samples xs, p'))"

fun do_reads :: "(rat \<Rightarrow> rat) \<Rightarrow> u32 \<Rightarrow> noise_read list \<Rightarrow> noise_page \<Rightarrow> noise_answer list" where
  "do_reads f32 seed [] p = []"
| "do_reads f32 seed (r # rs) p =
     (case do_read f32 seed r p of (a, p') \<Rightarrow> a # do_reads f32 seed rs p')"

definition fresh_noise_page :: "(nat \<Rightarrow> nat \<Rightarrow> rat list) \<Rightarrow> noise_page" where
  "fresh_noise_page audio = \<lparr>np_next = 0, np_perturbed = {}, np_audio = audio\<rparr>"

text \<open>The reference: what a device with this noise built in would answer, without any state.\<close>

definition noisy_byte :: "u32 \<Rightarrow> nat \<Rightarrow> u8 \<Rightarrow> u8" where
  "noisy_byte seed i b = (if 4 dvd i then of_nat (min 255 (unat b + noise_for seed i)) else b)"

definition noisy_pixels :: "u32 \<Rightarrow> u8 list \<Rightarrow> u8 list" where
  "noisy_pixels seed px = map (\<lambda>i. noisy_byte seed i (px ! i)) [0..<length px]"

fun device_answer ::
    "(rat \<Rightarrow> rat) \<Rightarrow> u32 \<Rightarrow> (nat \<Rightarrow> nat \<Rightarrow> rat list) \<Rightarrow> noise_read \<Rightarrow> noise_answer" where
  "device_answer f32 seed audio (ReadCanvas px) = Pixels (noisy_pixels seed px)"
| "device_answer f32 seed audio (ReadAudio b c) =
     Samples (audio_loop f32 0 (seed XOR of_nat c) (audio b c))"

lemma noise_for_01: "noise_for seed i = 0 \<or> noise_for seed i = 1"
  by (simp add: noise_for_def)

lemma byte_le: "unat (b :: u8) \<le> 255"
proof -
  have "unat b < 2 ^ LENGTH(8)" by (rule unsigned_less)
  then show ?thesis by simp
qed

lemma noisy_byte_zero: "noise_for seed i = 0 \<Longrightarrow> noisy_byte seed i b = b"
  using byte_le[of b] by (simp add: noisy_byte_def min_absorb2)

lemma noisy_byte_cases:
  "noisy_byte seed i b = b \<or> 4 dvd i \<and> unat (noisy_byte seed i b) = unat b + 1"
proof (cases "4 dvd i \<and> noise_for seed i = 1 \<and> unat b < 255")
  case True
  then have "min 255 (unat b + 1) = unat b + 1" "unat b + 1 < 2 ^ LENGTH(8)" by simp_all
  then show ?thesis
    using True by (simp add: noisy_byte_def unsigned_of_nat take_bit_nat_eq_self del: of_nat_add of_nat_Suc)
next
  case False
  have "unat b = 255 \<Longrightarrow> (255 :: u8) = b" by (simp add: word_unat_eq_iff)
  then have "unat b = 255 \<Longrightarrow> noisy_byte seed i b = b" by (simp add: noisy_byte_def)
  then show ?thesis
    using False noise_for_01[of seed i] noisy_byte_zero[of seed i b] byte_le[of b]
    by (auto simp: noisy_byte_def)
qed

lemma perturb_loop_length [simp]: "length (perturb_loop seed i px) = length px"
  by (induction seed i px rule: perturb_loop.induct) (subst perturb_loop.simps, simp add: Let_def)

lemma perturb_loop_nth:
  "4 dvd i \<Longrightarrow> j < length px \<Longrightarrow>
   perturb_loop seed i px ! j = (if i \<le> j then noisy_byte seed j (px ! j) else px ! j)"
proof (induction seed i px rule: perturb_loop.induct)
  case (1 seed i px)
  show ?case
  proof (cases "length px \<le> i")
    case True
    then show ?thesis using 1 by (subst perturb_loop.simps) simp
  next
    case False
    define px' where "px' = px[i := noisy_byte seed i (px ! i)]"
    have px: "(if noise_for seed i = 0 then px
               else px[i := of_nat (min 255 (unat (px ! i) + noise_for seed i))]) = px'"
      using noisy_byte_zero[of seed i "px ! i"] 1(2) by (auto simp: noisy_byte_def px'_def)
    have step: "perturb_loop seed i px = perturb_loop seed (i + 4) px'"
      using False px by (subst perturb_loop.simps) (simp add: Let_def)
    have ih: "perturb_loop seed (i + 4) px' ! j
        = (if i + 4 \<le> j then noisy_byte seed j (px' ! j) else px' ! j)"
      using "1.IH"[OF False refl, unfolded px] 1(2,3) by (auto simp: px'_def)
    have between: "i < j \<Longrightarrow> j < i + 4 \<Longrightarrow> noisy_byte seed j b = b" for b
      using 1(2) by (auto simp: noisy_byte_def dvd_def)
    show ?thesis
      unfolding step ih using 1(3) False between by (auto simp: nth_list_update px'_def)
  qed
qed

lemma perturb_is_noisy: "perturb_loop seed 0 px = noisy_pixels seed px"
  by (rule nth_equalityI) (simp_all add: noisy_pixels_def perturb_loop_nth)

definition noise_inv ::
    "(rat \<Rightarrow> rat) \<Rightarrow> u32 \<Rightarrow> (nat \<Rightarrow> nat \<Rightarrow> rat list) \<Rightarrow> noise_page \<Rightarrow> bool" where
  "noise_inv f32 seed audio p \<longleftrightarrow>
     (\<forall>n. CanvasBuffer n \<in> np_perturbed p \<longrightarrow> n < np_next p) \<and>
     (\<forall>b c. np_audio p b c =
        (if AudioBuffer b c \<in> np_perturbed p then audio_loop f32 0 (seed XOR of_nat c) (audio b c)
         else audio b c))"

lemma audio_loop_empty [simp]: "audio_loop f32 i s [] = []"
  by (subst audio_loop.simps) simp

lemma do_read_step:
  assumes "noise_inv f32 seed audio p" "do_read f32 seed r p = (a, p')"
  shows "noise_inv f32 seed audio p' \<and> a = device_answer f32 seed audio r"
proof (cases r)
  case (ReadCanvas px)
  have "CanvasBuffer (np_next p) \<notin> np_perturbed p"
    using assms(1) by (auto simp: noise_inv_def)
  then show ?thesis
    using assms ReadCanvas
    by (auto simp: noise_inv_def get_image_data_def perturb_image_data_def perturb_is_noisy less_Suc_eq)
next
  case (ReadAudio b c)
  then show ?thesis
    using assms
    by (auto simp: noise_inv_def get_channel_data_def Let_def split: if_splits) metis+
qed



text \<open>
  The index is the one within the rectangle that was read: the same pixel read through another rectangle can
  carry other noise, although the source says the noise belongs to the pixel.
\<close>

lemma noise_moves_with_rectangle:
  "\<exists>seed px. noisy_pixels seed (drop 4 px) \<noteq> drop 4 (noisy_pixels seed px)"
proof -
  have "noise_for 0 0 \<noteq> noise_for 0 4" by (simp add: noise_for_def js_random_def js_mix_def random_value_def)
  then show ?thesis
    by (intro exI[of _ 0] exI[of _ "[0, 0, 0, 0, 0]"])
      (use noise_for_01[of 0 0] noise_for_01[of 0 4] in
        \<open>auto simp: noisy_pixels_def noisy_byte_def upt_rec numeral_eq_Suc\<close>)
qed

section \<open>Replaced functions\<close>

text \<open>
  A function of the page is a built-in or one the script made, named by what distinguishes it: two with
  the same content are the same closure.
\<close>

datatype webgl_context = WebGl | WebGl2

datatype jsfun =
    Builtin string
  | PatchedToString
  | NavGetter string json
  | GetParameter webgl_context jsfun json json
  | GetImageData jsfun
  | GetChannelData jsfun
  | PermissionsQuery jsfun
  | RtcConstructor jsfun
  | CreateDataChannel

record js_descriptor =
  jd_get :: jsfun
  jd_enumerable :: bool
  jd_configurable :: bool

record js_page =
  native_names :: "jsfun \<Rightarrow> string option"
  function_to_string :: jsfun
  nav_proto :: "string \<Rightarrow> js_descriptor option"
  nav_own :: "string set"
  webgl :: "webgl_context \<Rightarrow> jsfun option"
  canvas_fn :: "jsfun option"
  audio_fn :: "jsfun option"
  query_fn :: "jsfun option"
  has_notification :: bool
  window_chrome :: "json option"
  rtc_fn :: "jsfun option"

definition native_text :: "string \<Rightarrow> string" where
  "native_text n = ''function '' @ n @ ''() { [native code] }''"

definition set_native :: "jsfun \<Rightarrow> string \<Rightarrow> js_page \<Rightarrow> js_page" where
  "set_native f n p = p\<lparr>native_names := (native_names p)(f \<mapsto> native_text n)\<rparr>"

definition patch_to_string :: "js_page \<Rightarrow> js_page" where
  "patch_to_string p =
     (set_native PatchedToString ''toString'' (p\<lparr>native_names := Map.empty\<rparr>))
       \<lparr>function_to_string := PatchedToString\<rparr>"

definition define_native :: "string \<Rightarrow> json \<Rightarrow> js_page \<Rightarrow> js_page" where
  "define_native prop v p =
     (let getter = NavGetter prop v;
          p1 = set_native getter (''get '' @ prop) p;
          existing = nav_proto p prop in
      if (case existing of Some d \<Rightarrow> \<not> jd_configurable d | None \<Rightarrow> False) then p1
      else p1\<lparr>nav_proto := (nav_proto p)(prop \<mapsto>
             \<lparr>jd_get = getter,
              jd_enumerable = (case existing of Some d \<Rightarrow> jd_enumerable d | None \<Rightarrow> True),
              jd_configurable = (case existing of Some d \<Rightarrow> jd_configurable d | None \<Rightarrow> True)\<rparr>)\<rparr>)"

definition UNMASKED_VENDOR :: nat where "UNMASKED_VENDOR = 37445"
definition UNMASKED_RENDERER :: nat where "UNMASKED_RENDERER = 37446"

definition patch_webgl :: "json \<Rightarrow> json \<Rightarrow> webgl_context \<Rightarrow> js_page \<Rightarrow> js_page" where
  "patch_webgl vendor renderer ctor p =
     (case webgl p ctor of
        None \<Rightarrow> p
      | Some original \<Rightarrow>
          (let f = GetParameter ctor original vendor renderer in
           (set_native f ''getParameter'' p)\<lparr>webgl := (webgl p)(ctor \<mapsto> f)\<rparr>))"

definition patch_canvas :: "js_page \<Rightarrow> js_page" where
  "patch_canvas p =
     (case canvas_fn p of
        None \<Rightarrow> p
      | Some original \<Rightarrow>
          (set_native (GetImageData original) ''getImageData'' p)\<lparr>canvas_fn := Some (GetImageData original)\<rparr>)"

definition patch_audio :: "js_page \<Rightarrow> js_page" where
  "patch_audio p =
     (case audio_fn p of
        None \<Rightarrow> p
      | Some original \<Rightarrow>
          (set_native (GetChannelData original) ''getChannelData'' p)
            \<lparr>audio_fn := Some (GetChannelData original)\<rparr>)"

definition patch_query :: "js_page \<Rightarrow> js_page" where
  "patch_query p =
     (case query_fn p of
        Some original \<Rightarrow>
          if has_notification p
          then (set_native (PermissionsQuery original) ''query'' p)\<lparr>query_fn := Some (PermissionsQuery original)\<rparr>
          else p
      | None \<Rightarrow> p)"

text \<open>What the replaced query answers; a query for anything but the notifications goes to the original.\<close>

definition query_answer :: "(json option \<Rightarrow> json) \<Rightarrow> string \<Rightarrow> json option \<Rightarrow> json" where
  "query_answer original permission parameters =
     (if Option.bind parameters (jget ''name'') = Some (JStr ''notifications'')
      then JObj [(''state'', JStr permission), (''name'', JStr ''notifications''), (''onchange'', JNull)]
      else original parameters)"

definition enumeration :: "(string \<times> string) list \<Rightarrow> json" where
  "enumeration kvs = JObj (map (\<lambda>(k, v). (k, JStr v)) kvs)"

definition CHROME_OBJECT :: json where
  "CHROME_OBJECT =
     JObj [(''app'', JObj
              [(''isInstalled'', JBool False),
               (''InstallState'', enumeration [(''DISABLED'', ''disabled''), (''INSTALLED'', ''installed''),
                  (''NOT_INSTALLED'', ''not_installed'')]),
               (''RunningState'', enumeration [(''CANNOT_RUN'', ''cannot_run''), (''READY_TO_RUN'', ''ready_to_run''),
                  (''RUNNING'', ''running'')])]),
           (''runtime'', JObj
              [(''OnInstalledReason'', enumeration [(''CHROME_UPDATE'', ''chrome_update''), (''INSTALL'', ''install''),
                  (''SHARED_MODULE_UPDATE'', ''shared_module_update''), (''UPDATE'', ''update'')]),
               (''OnRestartRequiredReason'', enumeration [(''APP_UPDATE'', ''app_update''), (''OS_UPDATE'', ''os_update''),
                  (''PERIODIC'', ''periodic'')]),
               (''PlatformArch'', enumeration [(''ARM'', ''arm''), (''ARM64'', ''arm64''), (''MIPS'', ''mips''),
                  (''MIPS64'', ''mips64''), (''X86_32'', ''x86-32''), (''X86_64'', ''x86-64'')]),
               (''PlatformOs'', enumeration [(''ANDROID'', ''android''), (''CROS'', ''cros''), (''LINUX'', ''linux''),
                  (''MAC'', ''mac''), (''OPENBSD'', ''openbsd''), (''WIN'', ''win'')]),
               (''RequestUpdateCheckStatus'', enumeration [(''NO_UPDATE'', ''no_update''), (''THROTTLED'', ''throttled''),
                  (''UPDATE_AVAILABLE'', ''update_available'')])])]"

definition patch_chrome :: "js_page \<Rightarrow> js_page" where
  "patch_chrome p =
     (case window_chrome p of Some _ \<Rightarrow> p | None \<Rightarrow> p\<lparr>window_chrome := Some CHROME_OBJECT\<rparr>)"

definition patch_rtc :: "js_page \<Rightarrow> js_page" where
  "patch_rtc p =
     (case rtc_fn p of
        None \<Rightarrow> p
      | Some original \<Rightarrow>
          (set_native (RtcConstructor original) ''RTCPeerConnection'' p)
            \<lparr>rtc_fn := Some (RtcConstructor original)\<rparr>)"

definition navigator_overrides :: "u32 \<Rightarrow> u32 \<Rightarrow> json \<Rightarrow> json \<Rightarrow> json \<Rightarrow> (string \<times> json) list" where
  "navigator_overrides concurrency memory plat agent languages =
     [(''hardwareConcurrency'', JInt (uint concurrency)), (''deviceMemory'', JInt (uint memory)),
      (''platform'', plat), (''userAgent'', agent), (''languages'', languages),
      (''webdriver'', JBool False)]"

text \<open>
  The script as a whole: a literal that does not parse makes all of it a syntax error, and none of its
  statements runs.
\<close>

definition run_script :: "(string \<Rightarrow> json option) \<Rightarrow> script_values \<Rightarrow> js_page \<Rightarrow> js_page" where
  "run_script parse V p =
     (case (parse (sv_platform V), parse (sv_user_agent V), parse (sv_languages V),
            parse (sv_webgl_vendor V), parse (sv_webgl_renderer V)) of
        (Some plat, Some agent, Some languages, Some vendor, Some renderer) \<Rightarrow>
          patch_rtc (patch_chrome (patch_query (patch_audio (patch_canvas
            (patch_webgl vendor renderer WebGl2 (patch_webgl vendor renderer WebGl
              (fold (\<lambda>(prop, v). define_native prop v)
                 (navigator_overrides (sv_concurrency V) (sv_memory V) plat agent languages)
                 (patch_to_string p))))))))
      | _ \<Rightarrow> p)"

subsection \<open>What a page sees of them\<close>

text \<open>What \<open>toString\<close> shows of a function; \<open>None\<close> stands for the source of one the script made.\<close>

fun own_text :: "jsfun \<Rightarrow> string option" where
  "own_text (Builtin n) = Some (native_text n)"
| "own_text _ = None"

definition text_of :: "js_page \<Rightarrow> jsfun \<Rightarrow> string option" where
  "text_of p f =
     (if function_to_string p = PatchedToString
      then (case native_names p f of Some s \<Rightarrow> Some s | None \<Rightarrow> own_text f)
      else own_text f)"

definition visible_functions :: "js_page \<Rightarrow> jsfun set" where
  "visible_functions p =
     insert (function_to_string p)
       (jd_get ` ran (nav_proto p) \<union> ran (webgl p) \<union> set_option (canvas_fn p) \<union> set_option (audio_fn p)
        \<union> set_option (query_fn p) \<union> set_option (rtc_fn p))"

definition navigator_value :: "(string \<Rightarrow> json) \<Rightarrow> js_page \<Rightarrow> string \<Rightarrow> json option" where
  "navigator_value native p prop =
     map_option (\<lambda>d. case jd_get d of NavGetter _ v \<Rightarrow> v | _ \<Rightarrow> native prop) (nav_proto p prop)"

fun get_parameter :: "(nat \<Rightarrow> json) \<Rightarrow> jsfun \<Rightarrow> nat \<Rightarrow> json" where
  "get_parameter native (GetParameter c original vendor renderer) k =
     (if k = UNMASKED_VENDOR then vendor
      else if k = UNMASKED_RENDERER then renderer
      else get_parameter native original k)"
| "get_parameter native _ k = native k"

text \<open>A connection made by the replaced constructor carries an own \<open>createDataChannel\<close>.\<close>

definition DATA_CHANNEL_METHODS :: "string list" where
  "DATA_CHANNEL_METHODS = [''close'', ''send'', ''addEventListener'', ''removeEventListener'']"

fun connection_own :: "jsfun \<Rightarrow> string \<Rightarrow> jsfun option" where
  "connection_own (RtcConstructor original) = [''createDataChannel'' \<mapsto> CreateDataChannel]"
| "connection_own _ = Map.empty"

definition pristine :: "js_page \<Rightarrow> bool" where
  "pristine p \<longleftrightarrow> (\<forall>f \<in> visible_functions p. \<exists>n. f = Builtin n)"

definition natively_shown :: "js_page \<Rightarrow> bool" where
  "natively_shown p \<longleftrightarrow>
     function_to_string p = PatchedToString \<and>
     (\<forall>f s. native_names p f = Some s \<longrightarrow> (\<exists>n. s = native_text n)) \<and>
     (\<forall>f \<in> visible_functions p. native_names p f \<noteq> None \<or> (\<exists>n. f = Builtin n))"

named_theorems patch_defs \<open>the statements of the script\<close>

declare set_native_def [patch_defs] patch_to_string_def [patch_defs] define_native_def [patch_defs]
  patch_webgl_def [patch_defs] patch_canvas_def [patch_defs] patch_audio_def [patch_defs]
  patch_query_def [patch_defs] patch_chrome_def [patch_defs] patch_rtc_def [patch_defs]

lemma shown_start: "pristine p \<Longrightarrow> natively_shown (patch_to_string p)"
  by (auto simp: natively_shown_def pristine_def visible_functions_def patch_defs)

lemma ran_upd: "x \<in> ran (m(k \<mapsto> v)) \<Longrightarrow> x = v \<or> x \<in> ran m"
  by (auto simp: ran_def split: if_splits)

lemma shown_after:
  assumes "natively_shown p" "native_names q = (native_names p)(f \<mapsto> native_text n)"
    and "function_to_string q = function_to_string p"
    and "visible_functions q \<subseteq> insert f (visible_functions p)"
  shows "natively_shown q"
  using assms unfolding natively_shown_def
  by (auto split: if_splits)

lemma shown_define: "natively_shown p \<Longrightarrow> natively_shown (define_native prop v p)"
  by (rule shown_after[of p _ "NavGetter prop v" "''get '' @ prop"])
    (auto simp: patch_defs Let_def visible_functions_def image_iff dest!: ran_upd split: option.splits)

lemma shown_webgl: "natively_shown p \<Longrightarrow> natively_shown (patch_webgl v r c p)"
  by (cases "webgl p c", simp add: patch_webgl_def,
      rule shown_after[of p _ "GetParameter c (the (webgl p c)) v r" "''getParameter''"])
    (auto simp: patch_defs Let_def visible_functions_def dest!: ran_upd)

lemma shown_canvas: "natively_shown p \<Longrightarrow> natively_shown (patch_canvas p)"
  by (cases "canvas_fn p", simp add: patch_canvas_def,
      rule shown_after[of p _ "GetImageData (the (canvas_fn p))" "''getImageData''"])
    (auto simp: patch_defs visible_functions_def)

lemma shown_audio: "natively_shown p \<Longrightarrow> natively_shown (patch_audio p)"
  by (cases "audio_fn p", simp add: patch_audio_def,
      rule shown_after[of p _ "GetChannelData (the (audio_fn p))" "''getChannelData''"])
    (auto simp: patch_defs visible_functions_def)

lemma shown_query: "natively_shown p \<Longrightarrow> natively_shown (patch_query p)"
  by (cases "query_fn p", simp add: patch_query_def, cases "has_notification p",
      rule shown_after[of p _ "PermissionsQuery (the (query_fn p))" "''query''"])
    (auto simp: patch_defs visible_functions_def)

lemma shown_chrome: "natively_shown p \<Longrightarrow> natively_shown (patch_chrome p)"
  by (auto simp: natively_shown_def patch_chrome_def visible_functions_def split: option.splits)

lemma shown_rtc: "natively_shown p \<Longrightarrow> natively_shown (patch_rtc p)"
  by (cases "rtc_fn p", simp add: patch_rtc_def,
      rule shown_after[of p _ "RtcConstructor (the (rtc_fn p))" "''RTCPeerConnection''"])
    (auto simp: patch_defs visible_functions_def)

lemma shown_overrides:
  "natively_shown p \<Longrightarrow> natively_shown (fold (\<lambda>(prop, v). define_native prop v) kvs p)"
  by (induction kvs arbitrary: p) (auto intro: shown_define)

lemma shown_text:
  "natively_shown p \<Longrightarrow> f \<in> visible_functions p \<Longrightarrow> \<exists>n. text_of p f = Some (native_text n)"
  by (fastforce simp: natively_shown_def text_of_def split: option.splits)

text \<open>
  The two ways of asking for the notification permission agree, whatever the browser under the script would have said.
\<close>

lemma query_agrees:
  assumes "jget ''name'' parameters = Some (JStr ''notifications'')"
  shows "jget ''state'' (query_answer original permission (Some parameters)) = Some (JStr permission)"
    "jget ''name'' (query_answer original permission (Some parameters)) = Some (JStr ''notifications'')"
  using assms by (simp_all add: query_answer_def jget_def)

lemma patch_chrome_once:
  "patch_chrome (patch_chrome p) = patch_chrome p" "window_chrome p = Some c \<Longrightarrow> patch_chrome p = p"
  by (auto simp: patch_chrome_def split: option.splits)

lemma frame_rest [simp]:
  "nav_proto (patch_to_string p) = nav_proto p" "nav_own (patch_to_string p) = nav_own p"
  "webgl (patch_to_string p) = webgl p" "rtc_fn (patch_to_string p) = rtc_fn p"
  "nav_proto (patch_webgl v r c p) = nav_proto p" "nav_own (patch_webgl v r c p) = nav_own p"
  "rtc_fn (patch_webgl v r c p) = rtc_fn p"
  "nav_proto (patch_canvas p) = nav_proto p" "nav_own (patch_canvas p) = nav_own p" "webgl (patch_canvas p) = webgl p"
  "rtc_fn (patch_canvas p) = rtc_fn p"
  "nav_proto (patch_audio p) = nav_proto p" "nav_own (patch_audio p) = nav_own p" "webgl (patch_audio p) = webgl p"
  "rtc_fn (patch_audio p) = rtc_fn p"
  "nav_proto (patch_query p) = nav_proto p" "nav_own (patch_query p) = nav_own p" "webgl (patch_query p) = webgl p"
  "rtc_fn (patch_query p) = rtc_fn p"
  "nav_proto (patch_chrome p) = nav_proto p" "nav_own (patch_chrome p) = nav_own p" "webgl (patch_chrome p) = webgl p"
  "rtc_fn (patch_chrome p) = rtc_fn p"
  "nav_proto (patch_rtc p) = nav_proto p" "nav_own (patch_rtc p) = nav_own p" "webgl (patch_rtc p) = webgl p"
  "nav_own (define_native prop x p) = nav_own p" "webgl (define_native prop x p) = webgl p"
  "rtc_fn (define_native prop x p) = rtc_fn p"
  by (auto simp: patch_defs Let_def split: option.splits)

lemma frame_fold [simp]:
  "nav_own (fold (\<lambda>(prop, v). define_native prop v) kvs p) = nav_own p"
  "webgl (fold (\<lambda>(prop, v). define_native prop v) kvs p) = webgl p"
  "rtc_fn (fold (\<lambda>(prop, v). define_native prop v) kvs p) = rtc_fn p"
  by (induction kvs arbitrary: p) auto

text \<open>One override: the new descriptor mirrors the old one and reads as the value given.\<close>

definition override :: "string \<Rightarrow> json \<Rightarrow> js_descriptor option \<Rightarrow> js_descriptor" where
  "override prop v old =
     (case old of
        None \<Rightarrow> \<lparr>jd_get = NavGetter prop v, jd_enumerable = True, jd_configurable = True\<rparr>
      | Some d \<Rightarrow> if jd_configurable d then d\<lparr>jd_get := NavGetter prop v\<rparr> else d)"

lemma nav_define:
  "nav_proto (define_native prop v p) k =
     (if k = prop then Some (override prop v (nav_proto p prop)) else nav_proto p k)"
  by (auto simp: patch_defs Let_def override_def split: option.splits)

lemma nav_fold:
  "distinct (map fst kvs) \<Longrightarrow>
   nav_proto (fold (\<lambda>(prop, v). define_native prop v) kvs p) k =
     (case map_of kvs k of None \<Rightarrow> nav_proto p k | Some v \<Rightarrow> Some (override k v (nav_proto p k)))"
  by (induction kvs arbitrary: p)
    (auto simp: nav_define split: option.splits dest: map_of_SomeD intro: rev_image_eqI)

lemma webgl_patched:
  "webgl (patch_webgl v r c p) c' =
     (if c' = c then map_option (\<lambda>f. GetParameter c f v r) (webgl p c) else webgl p c')"
  by (auto simp: patch_defs Let_def split: option.splits)


definition plain_page :: js_page where
  "plain_page = \<lparr>native_names = Map.empty, function_to_string = Builtin ''toString'',
     nav_proto = [''webdriver'' \<mapsto> \<lparr>jd_get = Builtin ''get webdriver'', jd_enumerable = True, jd_configurable = True\<rparr>],
     nav_own = {}, webgl = [WebGl \<mapsto> Builtin ''getParameter''], canvas_fn = None, audio_fn = None,
     query_fn = None, has_notification = False, window_chrome = Some (JObj []),
     rtc_fn = Some (Builtin ''RTCPeerConnection'')\<rparr>"

lemma plain_pristine: "pristine plain_page"
  by (auto simp: pristine_def plain_page_def visible_functions_def)


text \<open>
  What the registry does not cover: a connection made through the replaced constructor has an own
  \<open>createDataChannel\<close>, a script function that is never registered, so it shows its source.
\<close>

lemma data_channel_exposed:
  assumes "function_to_string p = PatchedToString" "native_names p CreateDataChannel = None"
    and "rtc_fn p = Some original"
  shows "\<exists>f g. rtc_fn (patch_rtc p) = Some f \<and> connection_own f ''createDataChannel'' = Some g
    \<and> text_of (patch_rtc p) g = None"
  using assms by (auto simp: patch_defs text_of_def)

text \<open>A literal that does not parse disables every statement.\<close>

lemma bad_literal_disables:
  "parse (sv_user_agent V) = None \<Longrightarrow> run_script parse V p = p"
  by (auto simp: run_script_def split: option.splits prod.splits)

end
