(* ===== verification/ByteStream.thy ===== *)
theory ByteStream
  imports Prelude
begin

text \<open>
  The streams the capture tools under \<open>src/examples\<close> read: what the peer sends, as the segments in which it
  becomes available, with the errors of the operating system in between. A read takes at most as
  many bytes as its buffer holds and leaves the rest of the segment; the end of the list, or an empty
  segment, reads as the end of the stream.
\<close>

type_synonym segments = "(string + u8 list) list"

fun read_some :: "nat \<Rightarrow> segments \<Rightarrow> (string + u8 list) \<times> segments" where
  "read_some k [] = (Inr [], [])"
| "read_some k (Inl e # st) = (Inl e, st)"
| "read_some k (Inr seg # st) =
     (if length seg \<le> k then (Inr seg, st) else (Inr (take k seg), Inr (drop k seg) # st))"

fun available :: "segments \<Rightarrow> nat" where
  "available [] = 0"
| "available (Inl e # st) = available st"
| "available (Inr seg # st) = length seg + available st"

text \<open>The bytes that arrive before the first error or the end.\<close>

fun contents :: "segments \<Rightarrow> u8 list" where
  "contents [] = []"
| "contents (Inl e # st) = []"
| "contents (Inr seg # st) = (if seg = [] then [] else seg @ contents st)"

lemma byte_less: "unat (b :: u8) < 256"
proof -
  have "unat b < 2 ^ LENGTH(8)" by (rule unsigned_less)
  then show ?thesis by simp
qed

lemma read_some_available:
  "read_some k st = (Inr bs, st') \<Longrightarrow> available st = length bs + available st'"
  by (induction k st rule: read_some.induct) (auto split: if_splits)

lemma read_some_error_available: "read_some k st = (Inl e, st') \<Longrightarrow> available st' = available st"
  by (induction k st rule: read_some.induct) (auto split: if_splits)

lemma read_some_decreases:
  "(Inr bs, st') = read_some k st \<Longrightarrow> bs \<noteq> [] \<Longrightarrow> available st' < available st"
  by (drule sym, drule read_some_available) (cases bs, simp_all)

lemma read_some_length: "read_some k st = (Inr bs, st') \<Longrightarrow> length bs \<le> k"
  by (induction k st rule: read_some.induct) (auto split: if_splits)

lemma read_some_contents:
  "read_some k st = (Inr bs, st') \<Longrightarrow> bs \<noteq> [] \<Longrightarrow> contents st = bs @ contents st'"
  by (induction k st rule: read_some.induct) (auto split: if_splits)

lemma read_some_empty:
  "read_some k st = (Inr [], st') \<Longrightarrow> 0 < k \<Longrightarrow> contents st = []"
  by (induction k st rule: read_some.induct) (auto split: if_splits)

lemma read_some_error: "read_some k st = (Inl e, st') \<Longrightarrow> contents st = []"
  by (induction k st rule: read_some.induct) (auto split: if_splits)

lemma read_some_more:
  assumes "contents st \<noteq> []" "0 < k"
  obtains bs st' where "read_some k st = (Inr bs, st')" "bs \<noteq> []" "contents st = bs @ contents st'"
    "available st' < available st" "length bs \<le> k"
proof (cases "read_some k st")
  case (Pair r st')
  show ?thesis
  proof (cases r)
    case (Inr bs)
    have ne: "bs \<noteq> []" using read_some_empty[of k st st'] assms Pair Inr by auto
    then have "0 < length bs" by simp
    then have "available st' < available st"
      using read_some_available[of k st bs st'] Pair Inr by simp
    then show ?thesis
      using that[of bs st'] Pair Inr ne read_some_contents[of k st bs st'] read_some_length[of k st bs st'] by simp
  qed (use read_some_error assms Pair in blast)
qed

end
