(* ===== verification/CaptureHello.thy ===== *)
theory CaptureHello
  imports TlsCapture Emulation ByteStream
begin

text \<open>
  Models \<open>src/examples/capture_fingerprint.rs\<close>, the tool the TLS tables of the emulations were measured with:
  reading a hello sent directly or through a \<open>CONNECT\<close>, and the report made of it. What the report prints is
  a record of its values; its fixed texts are left out.
\<close>

section \<open>Names of code points\<close>

definition CIPHER_NAMES :: "(u16 \<times> string) list" where
  "CIPHER_NAMES =
     [(0x1301, ''TLS_AES_128_GCM_SHA256''), (0x1302, ''TLS_AES_256_GCM_SHA384''),
      (0x1303, ''TLS_CHACHA20_POLY1305_SHA256''), (0xc02b, ''ECDHE-ECDSA-AES128-GCM-SHA256''),
      (0xc02f, ''ECDHE-RSA-AES128-GCM-SHA256''), (0xc02c, ''ECDHE-ECDSA-AES256-GCM-SHA384''),
      (0xc030, ''ECDHE-RSA-AES256-GCM-SHA384''), (0xcca9, ''ECDHE-ECDSA-CHACHA20-POLY1305''),
      (0xcca8, ''ECDHE-RSA-CHACHA20-POLY1305''), (0xc013, ''ECDHE-RSA-AES128-SHA''),
      (0xc014, ''ECDHE-RSA-AES256-SHA''), (0xc009, ''ECDHE-ECDSA-AES128-SHA''),
      (0xc00a, ''ECDHE-ECDSA-AES256-SHA''), (0x009c, ''AES128-GCM-SHA256''),
      (0x009d, ''AES256-GCM-SHA384''), (0x002f, ''AES128-SHA''), (0x0035, ''AES256-SHA''),
      (0xc008, ''ECDHE-ECDSA-DES-CBC3-SHA''), (0xc012, ''ECDHE-RSA-DES-CBC3-SHA''),
      (0x000a, ''DES-CBC3-SHA'')]"

definition SIGALG_NAMES :: "(u16 \<times> string) list" where
  "SIGALG_NAMES =
     [(0x0403, ''ecdsa_secp256r1_sha256''), (0x0503, ''ecdsa_secp384r1_sha384''),
      (0x0603, ''ecdsa_secp521r1_sha512''), (0x0804, ''rsa_pss_rsae_sha256''),
      (0x0805, ''rsa_pss_rsae_sha384''), (0x0806, ''rsa_pss_rsae_sha512''),
      (0x0401, ''rsa_pkcs1_sha256''), (0x0501, ''rsa_pkcs1_sha384''), (0x0601, ''rsa_pkcs1_sha512''),
      (0x0807, ''ed25519''), (0x0808, ''ed448''), (0x0201, ''rsa_pkcs1_sha1''), (0x0203, ''ecdsa_sha1'')]"

definition CURVE_NAMES :: "(u16 \<times> string) list" where
  "CURVE_NAMES =
     [(0x0017, ''SECP256R1''), (0x0018, ''SECP384R1''), (0x0019, ''SECP521R1''), (0x001d, ''X25519''),
      (0x001e, ''X448''), (0x11ec, ''X25519MLKEM768''), (0x6399, ''X25519KYBER768DRAFT00'')]"

definition EXTENSION_NAMES :: "(u16 \<times> string) list" where
  "EXTENSION_NAMES =
     [(0x0000, ''server_name''), (0x0005, ''status_request''), (0x000a, ''supported_groups''),
      (0x000b, ''ec_point_formats''), (0x000d, ''signature_algorithms''),
      (0x0010, ''application_layer_protocol_negotiation''), (0x0012, ''signed_certificate_timestamp''),
      (0x0015, ''padding''), (0x0017, ''extended_master_secret''), (0x001b, ''compress_certificate''),
      (0x001c, ''record_size_limit''), (0x0022, ''delegated_credentials''), (0x0023, ''session_ticket''),
      (0x002b, ''supported_versions''), (0x002d, ''psk_key_exchange_modes''), (0x0033, ''key_share''),
      (0x0039, ''quic_transport_parameters''), (0x44cd, ''application_settings''),
      (0xfe0d, ''encrypted_client_hello''), (0xff01, ''renegotiation_info'')]"

definition lookup_name :: "(u16 \<times> string) list \<Rightarrow> u16 \<Rightarrow> string option" where
  "lookup_name table code = map_option snd (find (\<lambda>cn. fst cn = code) table)"

definition describe :: "(u16 \<times> string) list \<Rightarrow> u16 \<Rightarrow> string" where
  "describe table code =
     ''0x'' @ hex4 code @ '' '' @ (case lookup_name table code of Some name \<Rightarrow> name | None \<Rightarrow> ''<unknown>'')"

fun collect_names ::
    "(u16 \<times> string) list \<Rightarrow> bool \<Rightarrow> u16 list \<Rightarrow> string list \<Rightarrow> u16 list \<Rightarrow> string list \<times> u16 list" where
  "collect_names table skip_grease [] names unknown = (names, unknown)"
| "collect_names table skip_grease (code # codes) names unknown =
     (if skip_grease \<and> is_grease code then collect_names table skip_grease codes names unknown
      else (case lookup_name table code of
              Some name \<Rightarrow> collect_names table skip_grease codes (names @ [name]) unknown
            | None \<Rightarrow> collect_names table skip_grease codes names (unknown @ [code])))"

definition name_list :: "(u16 \<times> string) list \<Rightarrow> u16 list \<Rightarrow> bool \<Rightarrow> string \<times> u16 list" where
  "name_list table codes skip_grease =
     (case collect_names table skip_grease codes [] [] of (names, unknown) \<Rightarrow> (join '':'' names, unknown))"

section \<open>Reading a hello\<close>

definition MAX_HELLO_BYTES :: nat where "MAX_HELLO_BYTES = 16 * 1024"

definition record_complete :: "u8 list \<Rightarrow> bool" where
  "record_complete buf \<longleftrightarrow> RECORD_HEADER_LEN \<le> length buf \<and>
     (unat (u16_from_be (buf ! 3) (buf ! 4)) + RECORD_HEADER_LEN \<le> length buf
      \<or> MAX_HELLO_BYTES \<le> length buf)"

function read_record :: "u8 list \<Rightarrow> segments \<Rightarrow> (string + u8 list) \<times> segments" where
  "read_record buf st =
     (if record_complete buf then (Inr buf, st)
      else (case read_some 4096 st of
              (Inl e, st') \<Rightarrow> (Inl e, st')
            | (Inr chunk, st') \<Rightarrow> if chunk = [] then (Inr buf, st') else read_record (buf @ chunk) st'))"
  by pat_completeness auto
termination
  by (relation "measure (\<lambda>(buf, st). available st)") (auto dest: read_some_decreases)

declare read_record.simps [simp del]

datatype captured = CapturedHello "u8 list" "string option" | PlainHttp string | NoHello

definition ascii :: "string \<Rightarrow> u8 list" where
  "ascii s = map of_char s"

definition PLAIN_HTTP_METHODS :: "u8 list list" where
  "PLAIN_HTTP_METHODS =
     map ascii [''GET '', ''POST'', ''HEAD'', ''PUT '', ''DELE'', ''OPTI'', ''PATC'', ''TRAC'']"

definition HEAD_END :: "u8 list" where "HEAD_END = [13, 10, 13, 10]"

text \<open>The loop over a cleartext request: until a line feed, 1024 bytes or the end.\<close>

function read_plain :: "u8 list \<Rightarrow> segments \<Rightarrow> (string + u8 list) \<times> segments" where
  "read_plain request st =
     (if 10 \<in> set request \<or> 1024 \<le> length request then (Inr request, st)
      else (case read_some 1024 st of
              (Inl e, st') \<Rightarrow> (Inl e, st')
            | (Inr chunk, st') \<Rightarrow>
                if chunk = [] then (Inr request, st') else read_plain (request @ chunk) st'))"
  by pat_completeness auto
termination
  by (relation "measure (\<lambda>(request, st). available st)") (auto dest: read_some_decreases)

text \<open>The loop over the head of a \<open>CONNECT\<close>: until a blank line, the end, or more than the limit.\<close>

function read_connect :: "u8 list \<Rightarrow> segments \<Rightarrow> (string + u8 list) \<times> segments" where
  "read_connect request st =
     (if sublist HEAD_END request then (Inr request, st)
      else (case read_some 1024 st of
              (Inl e, st') \<Rightarrow> (Inl e, st')
            | (Inr chunk, st') \<Rightarrow>
                if chunk = [] then (Inr request, st')
                else if MAX_HELLO_BYTES < length (request @ chunk) then (Inr (request @ chunk), st')
                else read_connect (request @ chunk) st'))"
  by pat_completeness auto
termination
  by (relation "measure (\<lambda>(request, st). available st)") (auto dest: read_some_decreases)

declare read_plain.simps [simp del] read_connect.simps [simp del]

definition first_line :: "string \<Rightarrow> string option" where
  "first_line s =
     (if s = [] then None
      else (let l = takeWhile (\<lambda>c. c \<noteq> CHR 0x0A) s in
            Some (if CHR 0x0A \<in> set s then (case strip_suffix [CHR 0x0D] l of Some l' \<Rightarrow> l' | None \<Rightarrow> l) else l)))"

fun until_ws :: "string \<Rightarrow> string \<times> string" where
  "until_ws [] = ([], [])"
| "until_ws (c # cs) =
     (if list_ex (\<lambda>w. prefix w (c # cs)) ws_codes then ([], c # cs)
      else (case until_ws cs of (a, b) \<Rightarrow> (c # a, b)))"

definition second_word :: "string \<Rightarrow> string option" where
  "second_word s =
     (let after = snd (until_ws (strip_ws ws_codes s)); w = fst (until_ws (strip_ws ws_codes after))
      in if w = [] then None else Some w)"

definition connect_target :: "u8 list \<Rightarrow> string option" where
  "connect_target request = Option.bind (first_line (from_utf8_lossy request)) second_word"

text \<open>\<open>ack\<close> is the error of acknowledging the \<open>CONNECT\<close>, if there is one.\<close>

definition read_client_hello :: "string option \<Rightarrow> segments \<Rightarrow> (string + captured) \<times> segments" where
  "read_client_hello ack st =
     (case read_some 8 st of
        (Inl e, st1) \<Rightarrow> (Inl e, st1)
      | (Inr seed, st1) \<Rightarrow>
          if seed = [] then (Inr NoHello, st1)
          else if list_ex (\<lambda>m. prefix m seed) PLAIN_HTTP_METHODS then
            (case read_plain seed st1 of
               (Inl e, st2) \<Rightarrow> (Inl e, st2)
             | (Inr request, st2) \<Rightarrow>
                 (Inr (PlainHttp (case first_line (from_utf8_lossy request) of
                                    Some l \<Rightarrow> l | None \<Rightarrow> ''<unreadable>'')), st2))
          else if \<not> prefix (ascii ''CONNECT'') seed then
            (case read_record seed st1 of
               (Inl e, st2) \<Rightarrow> (Inl e, st2)
             | (Inr bytes, st2) \<Rightarrow> (Inr (CapturedHello bytes None), st2))
          else
            (case read_connect seed st1 of
               (Inl e, st2) \<Rightarrow> (Inl e, st2)
             | (Inr request, st2) \<Rightarrow>
                 (case ack of
                    Some e \<Rightarrow> (Inl e, st2)
                  | None \<Rightarrow>
                      (case read_record [] st2 of
                         (Inl e, st3) \<Rightarrow> (Inl e, st3)
                       | (Inr bytes, st3) \<Rightarrow> (Inr (CapturedHello bytes (connect_target request)), st3)))))"

section \<open>The report\<close>

definition grease_marker :: "u16 \<Rightarrow> string" where
  "grease_marker code = (if is_grease code then ''  (GREASE)'' else [])"

record hello_report =
  hr_ja4 :: ja4
  hr_sni :: "string option"
  hr_alpn :: "string list"
  hr_ciphers :: "string list"
  hr_extensions :: "string list"
  hr_groups :: "string list"
  hr_sigalgs :: "string list"
  hr_cipher_list :: "string \<times> u16 list"
  hr_sigalgs_list :: "string \<times> u16 list"
  hr_versions :: string
  hr_curves :: string
  hr_unknown_curves :: "u16 list"
  hr_grease :: bool

definition described :: "(u16 \<times> string) list \<Rightarrow> u16 list \<Rightarrow> string list" where
  "described table codes = map (\<lambda>c. describe table c @ grease_marker c) codes"

definition curve_expr :: "string \<Rightarrow> string" where
  "curve_expr curves =
     join '', '' (map (\<lambda>n. ''SslCurve::'' @ n) (filter (\<lambda>s. s \<noteq> []) (split_char (CHR '':'') curves)))"

definition hello_report_of :: "(string \<Rightarrow> u8 list) \<Rightarrow> client_hello \<Rightarrow> hello_report" where
  "hello_report_of sha hello =
     (case name_list CURVE_NAMES (ch_supported_groups hello) True of (curves, unknown_curves) \<Rightarrow>
       \<lparr>hr_ja4 = from_client_hello sha hello Tcp,
        hr_sni = ch_server_name hello,
        hr_alpn = ch_alpn hello,
        hr_ciphers = described CIPHER_NAMES (ch_cipher_suites hello),
        hr_extensions = described EXTENSION_NAMES (ch_extensions hello),
        hr_groups = described CURVE_NAMES (ch_supported_groups hello),
        hr_sigalgs = described SIGALG_NAMES (ch_signature_algorithms hello),
        hr_cipher_list = name_list CIPHER_NAMES (ch_cipher_suites hello) True,
        hr_sigalgs_list = name_list SIGALG_NAMES (ch_signature_algorithms hello) True,
        hr_versions = join '', '' (map (\<lambda>v. ''0x'' @ hex4 v @ grease_marker v) (ch_supported_versions hello)),
        hr_curves = curve_expr curves,
        hr_unknown_curves = unknown_curves,
        hr_grease = list_ex is_grease (ch_cipher_suites hello @ ch_extensions hello)\<rparr>)"

definition report_hello :: "(string \<Rightarrow> u8 list) \<Rightarrow> u8 list \<Rightarrow> ja4_error + hello_report" where
  "report_hello sha bytes =
     (case parse_client_hello bytes of Inl e \<Rightarrow> Inl e | Inr hello \<Rightarrow> Inr (hello_report_of sha hello))"

section \<open>A hello is reported as it was sent\<close>

lemma record_total_prefix:
  "5 \<le> length a \<Longrightarrow> 5 \<le> length b \<Longrightarrow> a @ x = b @ y \<Longrightarrow> record_total a = record_total b"
proof -
  assume l: "5 \<le> length a" "5 \<le> length b" and e: "a @ x = b @ y"
  have "a ! i = b ! i" if "i < 5" for i
    using that l e nth_append[of a x i] nth_append[of b y i] by auto
  then show ?thesis by (simp add: record_total_def)
qed

lemma read_record_ok:
  assumes "5 \<le> length rec" "record_total rec = length rec" "length rec \<le> MAX_HELLO_BYTES"
  shows "buf @ contents st = rec @ behind \<Longrightarrow> length buf \<le> MAX_HELLO_BYTES + 4096 \<Longrightarrow>
    \<exists>extra st'. read_record buf st = (Inr (rec @ extra), st') \<and>
      length (rec @ extra) \<le> MAX_HELLO_BYTES + 4096"
proof (induction "available st" arbitrary: buf st rule: less_induct)
  case less
  have tot: "5 \<le> length buf \<Longrightarrow> record_total buf = length rec"
    using record_total_prefix[of buf rec] less.prems(1) assms by metis
  show ?case
  proof (cases "record_complete buf")
    case True
    then have "length rec \<le> length buf"
      using tot assms by (auto simp: record_complete_def record_total_def RECORD_HEADER_LEN_def)
    then obtain extra where "buf = rec @ extra"
      using less.prems(1) by (metis append_eq_append_conv_if append_take_drop_id)
    then show ?thesis
      using True less.prems(2) by (subst read_record.simps) simp
  next
    case False
    have short: "length buf < length rec"
    proof (rule ccontr)
      assume "\<not> length buf < length rec"
      then have "record_complete buf"
        using tot assms by (auto simp: record_complete_def record_total_def RECORD_HEADER_LEN_def)
      then show False using False by simp
    qed
    then have "contents st \<noteq> []" using less.prems(1) by (metis append_Nil2 length_append not_add_less1)
    then obtain bs st' where r: "read_some 4096 st = (Inr bs, st')" "bs \<noteq> []"
      "contents st = bs @ contents st'" "available st' < available st" "length bs \<le> 4096"
      by (rule read_some_more[of st 4096]) auto
    have "read_record buf st = read_record (buf @ bs) st'"
      using False r by (subst read_record.simps) simp
    moreover have "length (buf @ bs) \<le> MAX_HELLO_BYTES + 4096" using short assms(3) r(5) by simp
    ultimately show ?thesis
      using less.hyps[OF r(4), of "buf @ bs"] less.prems(1) r(3) by simp
  qed
qed

lemma slice_record_behind:
  assumes "wf_msg m" "length (enc_record m @ behind) < 2 ^ 64"
  shows "handshake_slice (enc_record m @ behind) = Inr (enc_handshake m)"
proof -
  let ?hs = "enc_handshake m"
  have g: "good (rd_new (enc_record m @ behind))" using assms(2) by (rule good_new)
  obtain r1 where r1: "rd_u8 (rd_new (enc_record m @ behind)) = Inr (CONTENT_TYPE_HANDSHAKE, r1)"
      "good r1" "rest r1 = 3 # 1 # block16 ?hs @ behind"
    using rd_u8_ok [OF g] by (auto simp: enc_record_def)
  obtain v r2 where r2: "rd_u16 r1 = Inr (v, r2)" "good r2" "rest r2 = block16 ?hs @ behind"
    using rd_u16_ok [OF r1(2,3)] by auto
  obtain r3 where "rd_block 2 r2 = Inr (?hs, r3)"
    using rd_block16_ok [of r2 ?hs behind] r2 assms by (auto simp: wf_msg_def)
  then show ?thesis
    using r1 r2 by (simp add: handshake_slice_def enc_record_def)
qed

lemma report_of_record:
  assumes "wf_msg m" "hello_of_msg m = Inr h" "length (enc_record m @ extra) \<le> MAX_HELLO_BYTES + 4096"
  shows "report_hello sha (enc_record m @ extra) = Inr (hello_report_of sha h)"
proof -
  have "length (enc_record m @ extra) < 2 ^ 64" using assms(3) by (simp add: MAX_HELLO_BYTES_def)
  then show ?thesis
    using parse_after_slice[OF assms(1) slice_record_behind[OF assms(1)]] assms(2)
    by (simp add: report_hello_def)
qed

text \<open>The target of a request line is its second word.\<close>

lemma unat_of_char: "unat (of_char c :: u8) = byte c"
proof -
  have "(of_char c :: u8) = of_nat (byte c)" by (simp only: byte_def of_nat_of_char)
  then show ?thesis using byte_bound[of c] by (simp add: unsigned_of_nat take_bit_nat_eq_self)
qed

lemma chars_ascii: "map char_of_byte (ascii s) = s"
  by (induction s) (simp_all add: ascii_def char_of_byte_def unat_of_char byte_def)

lemma ascii_lossy:
  assumes "list_all (\<lambda>c. byte c < 128) s"
  shows "from_utf8_lossy (ascii s) = s"
proof -
  have "\<forall>b \<in> set (ascii s). b < 128"
    using assms by (auto simp: ascii_def list_all_iff word_less_nat_alt unat_of_char)
  then show ?thesis using from_utf8_lossy_ascii chars_ascii by metis
qed

lemma first_line_keeps:
  assumes "p \<noteq> []" "CHR 0x0A \<notin> set p" "last p \<noteq> CHR 0x0D"
  shows "\<exists>l. first_line (p @ r) = Some (p @ l)"
proof -
  define l where "l = takeWhile (\<lambda>c. c \<noteq> CHR 0x0A) r"
  have tw: "takeWhile (\<lambda>c. c \<noteq> CHR 0x0A) (p @ r) = p @ l"
    using assms(2) by (auto simp: l_def takeWhile_append)
  have fl: "first_line (p @ r) = Some (if CHR 0x0A \<in> set (p @ r)
      then (case strip_suffix [CHR 0x0D] (p @ l) of Some l' \<Rightarrow> l' | None \<Rightarrow> p @ l) else p @ l)"
    unfolding first_line_def Let_def tw using assms(1) by simp
  show ?thesis
  proof (cases "suffix [CHR 0x0D] (p @ l)")
    case False
    then show ?thesis unfolding fl strip_suffix_def by auto
  next
    case True
    then have "l \<noteq> []" using assms(1,3) by (metis append_Nil2 last_snoc suffix_def)
    then have "take (length (p @ l) - length [CHR 0x0D]) (p @ l) = p @ take (length l - 1) l"
      by (cases l) auto
    then show ?thesis unfolding fl strip_suffix_def using True by auto
  qed
qed

lemma ws_at_graphic:
  assumes "graphic c"
  shows "list_ex (\<lambda>w. prefix w (c # cs)) ws_codes = False"
proof -
  have "\<not> prefix w (c # cs)" if "w \<in> set ws_codes" for w
  proof -
    have "w \<noteq> []" "\<not> graphic (hd w)" using ws_codes_edges that by (simp_all add: list_all_iff)
    then show ?thesis using assms by (cases w) auto
  qed
  then show ?thesis by (simp add: list_ex_iff)
qed

lemma ws_at_space: "list_ex (\<lambda>w. prefix w (CHR '' '' # cs)) ws_codes = True"
proof -
  have "prefix '' '' (CHR '' '' # cs)" by simp
  then show ?thesis using ws_codes_space unfolding list_ex_iff by blast
qed

lemmas ws_at = ws_at_graphic ws_at_space

lemma until_ws_word: "list_all graphic w \<Longrightarrow> until_ws (w @ CHR '' '' # r) = (w, CHR '' '' # r)"
  by (induction w) (simp_all add: ws_at)

lemma strip_ws_word: "list_all graphic w \<Longrightarrow> w \<noteq> [] \<Longrightarrow> strip_ws ws_codes (w @ r) = w @ r"
  using ws_codes_edges by (intro strip_ws_graphic) (auto simp: list_all_iff hd_append)

lemma second_word_text:
  assumes "list_all graphic v" "v \<noteq> []" "list_all graphic w" "w \<noteq> []"
  shows "second_word (v @ CHR '' '' # w @ CHR '' '' # r) = Some w"
  using assms by (simp add: second_word_def strip_ws_word until_ws_word strip_ws_space)

lemma connect_target_text:
  assumes "list_all graphic target" "target \<noteq> []" "list_all (\<lambda>c. byte c < 128) r"
  shows "connect_target (ascii (''CONNECT '' @ target @ CHR '' '' # r)) = Some target"
proof -
  define v where "v = ''CONNECT''"
  have v: "list_all graphic v" "v \<noteq> []" "CHR 0x0A \<notin> set v" by (simp_all add: v_def graphic_def byte_def)
  let ?p = "v @ CHR '' '' # target @ '' ''"
  have gr: "graphic c \<Longrightarrow> byte c < 128 \<and> c \<noteq> CHR 0x0A" for c
    by (auto simp: graphic_def byte_def)
  have lossy: "from_utf8_lossy (ascii (?p @ r)) = ?p @ r"
    using assms gr v(1) by (intro ascii_lossy) (auto simp: list_all_iff byte_def)
  have "CHR 0x0A \<notin> set target" using assms(1) gr by (auto simp: list_all_iff)
  then obtain l where "first_line (?p @ r) = Some (?p @ l)"
    using first_line_keeps[of ?p r] v(3) by auto
  then have "connect_target (ascii (?p @ r)) = Some target"
    using second_word_text[OF v(1,2) assms(1,2), of l] lossy by (simp add: connect_target_def)
  then show ?thesis by (simp add: v_def)
qed

text \<open>A request head is well formed when its blank line is at its end and nowhere before.\<close>

definition request_head :: "u8 list \<Rightarrow> bool" where
  "request_head req \<longleftrightarrow> sublist HEAD_END req \<and> \<not> sublist HEAD_END (butlast req)"

lemma request_head_open: "request_head req \<Longrightarrow> n < length req \<Longrightarrow> \<not> sublist HEAD_END (take n req)"
proof -
  assume "request_head req" "n < length req"
  moreover from this have "take n req = take n (butlast req)" by (simp add: take_butlast)
  ultimately show ?thesis
    by (metis request_head_def sublist_order.order_trans sublist_take)
qed

lemma read_connect_ok:
  assumes "request_head req" "length req \<le> MAX_HELLO_BYTES"
  shows "buf @ concat segs = req \<Longrightarrow> [] \<notin> set segs \<Longrightarrow>
    read_connect buf (map Inr segs @ st) = (Inr req, st)"
proof (induction "available (map Inr segs)" arbitrary: buf segs rule: less_induct)
  case less
  show ?case
  proof (cases segs)
    case Nil
    then show ?thesis
      using less.prems assms(1) by (subst read_connect.simps) (simp add: request_head_def)
  next
    case (Cons s ss)
    have "buf = take (length buf) req" "length buf < length req"
      using less.prems Cons by auto
    then have part: "\<not> sublist HEAD_END buf" using assms(1) request_head_open by metis
    define c where "c = take 1024 s"
    define segs' where "segs' = (if length s \<le> 1024 then ss else drop 1024 s # ss)"
    have r: "read_some 1024 (map Inr segs @ st) = (Inr c, map Inr segs' @ st)"
      by (simp add: Cons c_def segs'_def)
    have c: "c \<noteq> []" using less.prems(2) Cons by (auto simp: c_def)
    have split: "(buf @ c) @ concat segs' = req"
      using less.prems(1) Cons by (auto simp: c_def segs'_def)
    have "length (buf @ c) \<le> MAX_HELLO_BYTES"
      using split assms(2) by (metis le_trans length_append le_add1)
    then have "read_connect buf (map Inr segs @ st) = read_connect (buf @ c) (map Inr segs' @ st)"
      using part r c by (subst read_connect.simps) simp
    moreover have "available (map Inr segs') < available (map Inr segs)"
      using less.prems(2) Cons by (auto simp: segs'_def)
    moreover have "[] \<notin> set segs'" using less.prems(2) Cons by (auto simp: segs'_def)
    ultimately show ?thesis using less.hyps[of segs' "buf @ c"] split by simp
  qed
qed

lemma enc_record_start: "\<exists>more. enc_record m = 22 # 3 # 1 # more \<and> 2 \<le> length more"
  by (simp add: enc_record_def block16_def CONTENT_TYPE_HANDSHAKE_def)

lemma record_of_hello:
  assumes "wf_msg m"
  shows "5 \<le> length (enc_record m)" "record_total (enc_record m) = length (enc_record m)"
  using record_total_enc_record[OF assms] by (auto simp: enc_record_def)

lemma tls_is_not_http:
  "list_ex (\<lambda>k. prefix k (22 # bs)) PLAIN_HTTP_METHODS = False" "prefix (ascii ''CONNECT'') (22 # bs) = False"
  by (simp_all add: PLAIN_HTTP_METHODS_def ascii_def)

lemma connect_is_not_plain:
  assumes "prefix (ascii ''CONNECT'') bs"
  shows "list_ex (\<lambda>k. prefix k bs) PLAIN_HTTP_METHODS = False"
  using assms by (auto simp: PLAIN_HTTP_METHODS_def ascii_def prefix_def)

text \<open>C38. 
  The capture tool reports the hello that was sent. A client that opens with a well-formed hello record of at most
  16 KiB, or sends it after a \<open>CONNECT\<close> whose first read holds the method and whose head ends where the client waits
  for the answer, is reported with the values of exactly that hello, however its bytes are split and whatever follows
  them; in the second case with the target of its request.
\<close>

theorem captured_hello_reported:
  assumes "wf_msg m" "hello_of_msg m = Inr h" "length (enc_record m) \<le> MAX_HELLO_BYTES"
    and sent: "contents st = enc_record m @ behind"
    and head: "request_head (concat (s # segs))" "length (concat (s # segs)) \<le> MAX_HELLO_BYTES"
      "[] \<notin> set segs" "prefix (ascii ''CONNECT'') s"
  shows "(\<exists>bytes st'. read_client_hello ack st = (Inr (CapturedHello bytes None), st') \<and>
            report_hello sha bytes = Inr (hello_report_of sha h)) \<and>
         (\<exists>bytes st'. read_client_hello None (map Inr (s # segs) @ st) =
              (Inr (CapturedHello bytes (connect_target (concat (s # segs)))), st') \<and>
            report_hello sha bytes = Inr (hello_report_of sha h))"
proof
  note rec = record_of_hello[OF assms(1)]
  have "contents st \<noteq> []" using sent rec by auto
  then obtain seed st1 where r: "read_some 8 st = (Inr seed, st1)" "seed \<noteq> []"
    "contents st = seed @ contents st1" "length seed \<le> 8"
    by (rule read_some_more[of st 8]) auto
  obtain more where "seed = 22 # more"
    using r(2,3) sent enc_record_start[of m] by (cases seed) auto
  note tls = tls_is_not_http[of more, folded this]
  obtain extra st' where "read_record seed st1 = (Inr (enc_record m @ extra), st')"
    "length (enc_record m @ extra) \<le> MAX_HELLO_BYTES + 4096"
    using read_record_ok[OF rec(1,2) assms(3), of seed st1 behind] r sent
    by (auto simp: MAX_HELLO_BYTES_def)
  then show "\<exists>bytes st'. read_client_hello ack st = (Inr (CapturedHello bytes None), st') \<and>
      report_hello sha bytes = Inr (hello_report_of sha h)"
    using r(1,2) tls report_of_record[OF assms(1,2)] by (simp add: read_client_hello_def)
next
  note rec = record_of_hello[OF assms(1)]
  define seed where "seed = take 8 s"
  define segs' where "segs' = (if length s \<le> 8 then segs else drop 8 s # segs)"
  have r: "read_some 8 (map Inr (s # segs) @ st) = (Inr seed, map Inr segs' @ st)"
    by (simp add: seed_def segs'_def)
  have "prefix (ascii ''CONNECT'') seed" "seed \<noteq> []"
    using head(4) by (auto simp: seed_def ascii_def prefix_def)
  note http = this connect_is_not_plain[OF this(1)]
  have c: "read_connect seed (map Inr segs' @ st) = (Inr (concat (s # segs)), st)"
    by (rule read_connect_ok[OF head(1,2)]) (use head(3) in \<open>auto simp: seed_def segs'_def\<close>)
  obtain extra st' where "read_record [] st = (Inr (enc_record m @ extra), st')"
    "length (enc_record m @ extra) \<le> MAX_HELLO_BYTES + 4096"
    using read_record_ok[OF rec(1,2) assms(3), of "[]" st behind] sent by auto
  then show "\<exists>bytes st'. read_client_hello None (map Inr (s # segs) @ st) =
        (Inr (CapturedHello bytes (connect_target (concat (s # segs)))), st') \<and>
      report_hello sha bytes = Inr (hello_report_of sha h)"
    using r http c report_of_record[OF assms(1,2)] by (simp add: read_client_hello_def)
qed

definition sample_connect :: "u8 list" where
  "sample_connect = ascii ''CONNECT a.b:443 HTTP/1.1'' @ HEAD_END"

lemma sample_connect_head: "request_head sample_connect"
  by (simp add: request_head_def sample_connect_def ascii_def HEAD_END_def sublist_Cons_right)

lemma sample_connect_target: "connect_target sample_connect = Some ''a.b:443''"
  using connect_target_text[of "''a.b:443''" "''HTTP/1.1'' @ [CHR 0x0D, CHR 0x0A, CHR 0x0D, CHR 0x0A]"]
  by (simp add: sample_connect_def ascii_def HEAD_END_def graphic_def byte_def)

theorem captured_hello_reported_witness:
  "\<exists>h bytes st'. hello_of_msg sample_msg = Inr h \<and>
     read_client_hello None (map Inr [sample_connect] @ [Inr (enc_record sample_msg)])
       = (Inr (CapturedHello bytes (Some ''a.b:443'')), st') \<and>
     report_hello (\<lambda>s. replicate 32 0) bytes = Inr (hello_report_of (\<lambda>s. replicate 32 0) h)"
proof -
  obtain h where h: "hello_of_msg sample_msg = Inr h"
    by (simp add: hello_of_msg_def sample_msg_def absorb_extension_def ext_ids)
  have l: "length (enc_record sample_msg) \<le> MAX_HELLO_BYTES"
    by (simp add: enc_record_def enc_body_def enc_ext_def sample_msg_def MAX_HELLO_BYTES_def)
  have c: "contents [Inr (enc_record sample_msg)] = enc_record sample_msg @ []"
    using enc_record_start[of sample_msg] by auto
  have "prefix (ascii ''CONNECT'') sample_connect" "length (concat [sample_connect]) \<le> MAX_HELLO_BYTES"
    by (simp_all add: sample_connect_def ascii_def MAX_HELLO_BYTES_def HEAD_END_def)
  then show ?thesis
    using captured_hello_reported[OF sample_wf h l c, of sample_connect "[]"] h sample_connect_head
      sample_connect_target by auto
qed

text \<open>
  The mode is read off one read: a request whose first bytes arrive on their own is taken for a
  TLS record.
\<close>

lemma split_connect_misread:
  "\<exists>bytes. fst (read_client_hello None [Inr (ascii ''CON''), Inr (ascii ''NECT a.b:443 HTTP/1.1'' @ HEAD_END)])
     = Inr (CapturedHello bytes None)"
proof -
  have "read_record (ascii ''CON'') [Inr (ascii ''NECT a.b:443 HTTP/1.1'' @ HEAD_END)]
      = read_record sample_connect []"
    by (subst read_record.simps)
      (simp add: record_complete_def RECORD_HEADER_LEN_def ascii_def HEAD_END_def sample_connect_def)
  moreover have "read_record sample_connect [] = (Inr sample_connect, [])"
    by (subst read_record.simps) simp
  ultimately show ?thesis
    by (simp add: read_client_hello_def PLAIN_HTTP_METHODS_def ascii_def)
qed

section \<open>What is printed is what the emulations say\<close>

definition code_of :: "(u16 \<times> string) list \<Rightarrow> string \<Rightarrow> u16" where
  "code_of table name = (case find (\<lambda>cn. snd cn = name) table of Some cn \<Rightarrow> fst cn | None \<Rightarrow> 0)"

lemma collect_names_known:
  "map (lookup_name table) (filter (\<lambda>c. \<not> is_grease c) codes) = map Some names \<Longrightarrow>
   collect_names table True codes ns us = (ns @ names, us)"
  by (induction codes arbitrary: names ns) (auto split: option.splits)

lemma name_list_known:
  assumes "filter (\<lambda>c. \<not> is_grease c) codes = map (code_of table) (split_char (CHR '':'') listed)"
    and "list_all (\<lambda>n. lookup_name table (code_of table n) = Some n) (split_char (CHR '':'') listed)"
  shows "name_list table codes True = (listed, [])"
proof -
  have "map (lookup_name table) (filter (\<lambda>c. \<not> is_grease c) codes) = map Some (split_char (CHR '':'') listed)"
    unfolding assms(1) using assms(2) by (simp add: list_all_iff)
  then show ?thesis
    using join_split_char[of "CHR '':''" listed] by (simp add: name_list_def collect_names_known)
qed

lemma emulation_names_known:
  "list_all (\<lambda>n. lookup_name CIPHER_NAMES (code_of CIPHER_NAMES n) = Some n) (split_char (CHR '':'') CHROME_CIPHERS)"
  "list_all (\<lambda>n. lookup_name CIPHER_NAMES (code_of CIPHER_NAMES n) = Some n) (split_char (CHR '':'') SAFARI_27_CIPHERS)"
  "list_all (\<lambda>n. lookup_name SIGALG_NAMES (code_of SIGALG_NAMES n) = Some n) (split_char (CHR '':'') CHROME_SIGALGS)"
  "list_all (\<lambda>n. lookup_name SIGALG_NAMES (code_of SIGALG_NAMES n) = Some n) (split_char (CHR '':'') SAFARI_27_SIGALGS)"
  by code_simp+

text \<open>
  Capturing what an emulation sends prints the emulation: for a hello that offers, GREASE aside, the cipher suites and
  signature algorithms of either browser's entry in their order, the two lists the tool prints for transcription are
  the strings of that entry, and no code point is reported as unknown.
\<close>

theorem emulation_transcribed:
  assumes "e = chrome \<or> e = safari_27"
    and "filter (\<lambda>c. \<not> is_grease c) (ch_cipher_suites h)
           = map (code_of CIPHER_NAMES) (split_char (CHR '':'') (cipher_list (emu_tls e)))"
    and "filter (\<lambda>c. \<not> is_grease c) (ch_signature_algorithms h)
           = map (code_of SIGALG_NAMES) (split_char (CHR '':'') (sigalgs_list (emu_tls e)))"
  shows "hr_cipher_list (hello_report_of sha h) = (cipher_list (emu_tls e), []) \<and>
         hr_sigalgs_list (hello_report_of sha h) = (sigalgs_list (emu_tls e), [])"
  using assms name_list_known emulation_names_known
  by (auto simp: hello_report_of_def chrome_def safari_27_def split: prod.splits)

lemma chrome_codes_not_grease:
  "filter (\<lambda>c. \<not> is_grease c) (0x0a0a # map (code_of CIPHER_NAMES) (split_char (CHR '':'') CHROME_CIPHERS))
     = map (code_of CIPHER_NAMES) (split_char (CHR '':'') CHROME_CIPHERS)"
  "filter (\<lambda>c. \<not> is_grease c) (map (code_of SIGALG_NAMES) (split_char (CHR '':'') CHROME_SIGALGS))
     = map (code_of SIGALG_NAMES) (split_char (CHR '':'') CHROME_SIGALGS)"
  by code_simp+

theorem emulation_transcribed_witness:
  "fst (hr_cipher_list (hello_report_of (\<lambda>s. replicate 32 0)
     (hello_default\<lparr>ch_cipher_suites := 0x0a0a # map (code_of CIPHER_NAMES) (split_char (CHR '':'') CHROME_CIPHERS),
        ch_signature_algorithms := map (code_of SIGALG_NAMES) (split_char (CHR '':'') CHROME_SIGALGS)\<rparr>)))
   = CHROME_CIPHERS"
proof -
  have "cipher_list (emu_tls chrome) = CHROME_CIPHERS" "sigalgs_list (emu_tls chrome) = CHROME_SIGALGS"
    by (simp_all add: chrome_def)
  then show ?thesis
    using emulation_transcribed[of chrome
      "hello_default\<lparr>ch_cipher_suites :=
          0x0a0a # map (code_of CIPHER_NAMES) (split_char (CHR '':'') CHROME_CIPHERS),
        ch_signature_algorithms := map (code_of SIGALG_NAMES) (split_char (CHR '':'') CHROME_SIGALGS)\<rparr>"]
      chrome_codes_not_grease by simp
qed

text \<open>
  The curves are printed under other names than the emulations write: \<open>P-256\<close> is not a name of the
  tool's table.
\<close>

lemma curves_not_transcribed:
  "\<forall>c. lookup_name CURVE_NAMES c \<noteq> Some ''P-256''" "sublist ''P-256'' CHROME_CURVES"
  by (auto simp: lookup_name_def CURVE_NAMES_def split: if_splits) code_simp

end
