(* ===== verification/CaptureH2.thy ===== *)
theory CaptureH2
  imports CaptureHello
begin

text \<open>
  Models \<open>src/examples/capture_h2.rs\<close>, the tool the HTTP/2 tables of the emulations were measured with: HPACK integers
  and header names, and the report of a client's opening frames. What is printed is a list of lines as
  values; an index out of range, which makes the program panic, is an outcome of its own. The certificate of the
  listener is the TLS library's.
\<close>

section \<open>Names\<close>

definition PREFACE :: "u8 list" where
  "PREFACE = ascii ''PRI * HTTP/2.0'' @ HEAD_END @ ascii ''SM'' @ HEAD_END"

definition FRAME_HEADER_LEN :: nat where "FRAME_HEADER_LEN = 9"
definition MAX_BYTES :: nat where "MAX_BYTES = 64 * 1024"
definition FRAME_DATA :: u8 where "FRAME_DATA = 0x0"
definition FRAME_HEADERS :: u8 where "FRAME_HEADERS = 0x1"
definition FRAME_PRIORITY :: u8 where "FRAME_PRIORITY = 0x2"
definition FRAME_SETTINGS :: u8 where "FRAME_SETTINGS = 0x4"
definition FRAME_WINDOW_UPDATE :: u8 where "FRAME_WINDOW_UPDATE = 0x8"
definition FLAG_PRIORITY :: u8 where "FLAG_PRIORITY = 0x20"

lemmas frame_consts = FRAME_DATA_def FRAME_HEADERS_def FRAME_PRIORITY_def FRAME_SETTINGS_def
  FRAME_WINDOW_UPDATE_def

definition SETTING_NAMES :: "(u16 \<times> string) list" where
  "SETTING_NAMES =
     [(0x1, ''HeaderTableSize''), (0x2, ''EnablePush''), (0x3, ''MaxConcurrentStreams''),
      (0x4, ''InitialWindowSize''), (0x5, ''MaxFrameSize''), (0x6, ''MaxHeaderListSize''),
      (0x8, ''EnableConnectProtocol''), (0x9, ''NoRfc7540Priorities'')]"

definition STATIC_NAMES :: "string list" where
  "STATIC_NAMES =
     ['':authority'', '':method'', '':method'', '':path'', '':path'', '':scheme'', '':scheme'', '':status'', '':status'',
      '':status'', '':status'', '':status'', '':status'', '':status'', ''accept-charset'', ''accept-encoding'',
      ''accept-language'', ''accept-ranges'', ''accept'', ''access-control-allow-origin'', ''age'', ''allow'',
      ''authorization'', ''cache-control'', ''content-disposition'', ''content-encoding'', ''content-language'',
      ''content-length'', ''content-location'', ''content-range'', ''content-type'', ''cookie'', ''date'', ''etag'',
      ''expect'', ''expires'', ''from'', ''host'', ''if-match'', ''if-modified-since'', ''if-none-match'', ''if-range'',
      ''if-unmodified-since'', ''last-modified'', ''link'', ''location'', ''max-forwards'', ''proxy-authenticate'',
      ''proxy-authorization'', ''range'', ''referer'', ''refresh'', ''retry-after'', ''server'', ''set-cookie'',
      ''strict-transport-security'', ''transfer-encoding'', ''user-agent'', ''vary'', ''via'', ''www-authenticate'']"

fun hex_plain :: "nat \<Rightarrow> string" where
  "hex_plain n = (if n < 16 then [hex_digit n] else hex_plain (n div 16) @ [hex_digit (n mod 16)])"

declare hex_plain.simps [simp del]

definition setting_name :: "u16 \<Rightarrow> string" where
  "setting_name i =
     (case find (\<lambda>cn. fst cn = i) SETTING_NAMES of
        Some cn \<Rightarrow> snd cn
      | None \<Rightarrow> ''Unknown(0x'' @ hex_plain (unat i) @ '')'')"

definition static_name :: "nat \<Rightarrow> string" where
  "static_name index =
     (if 1 \<le> index \<and> index \<le> length STATIC_NAMES then STATIC_NAMES ! (index - 1)
      else ''<static '' @ dec index @ ''>'')"

section \<open>HPACK\<close>

fun hpack_more :: "u8 list \<Rightarrow> nat \<Rightarrow> nat \<Rightarrow> nat \<Rightarrow> (nat \<times> nat) option" where
  "hpack_more [] val shift i = None"
| "hpack_more (b # bs) val shift i =
     (let val' = val + unat (b AND 0x7f) * 2 ^ shift in
      if b AND 0x80 = 0 then Some (val', i + 1)
      else if 28 < shift + 7 then None
      else hpack_more bs val' (shift + 7) (i + 1))"

definition hpack_int :: "u8 list \<Rightarrow> nat \<Rightarrow> (nat \<times> nat) option" where
  "hpack_int bytes prefix_bits =
     (case bytes of
        [] \<Rightarrow> None
      | b # bs \<Rightarrow>
          (let mask = 2 ^ prefix_bits - 1; first = unat b mod 2 ^ prefix_bits in
           if first < mask then Some (first, 1) else hpack_more bs mask 0 1))"

definition skip_string :: "u8 list \<Rightarrow> nat option" where
  "skip_string bytes = map_option (\<lambda>(len, used). used + len) (hpack_int bytes 7)"

definition get_from :: "nat \<Rightarrow> u8 list \<Rightarrow> u8 list option" where
  "get_from n bs = (if n \<le> length bs then Some (drop n bs) else None)"

definition literal :: "u8 list \<Rightarrow> nat \<Rightarrow> (string \<times> nat) option" where
  "literal block prefix_bits =
     Option.bind (hpack_int block prefix_bits) (\<lambda>(index, used).
     Option.bind
       (if index = 0
        then Option.bind (Option.bind (get_from used block) skip_string) (\<lambda>n. Some (''<literal>'', used + n))
        else Some (static_name index, used)) (\<lambda>(name, after_name).
     Option.bind (Option.bind (get_from after_name block) skip_string) (\<lambda>value_len.
     Some (name, after_name + value_len))))"

text \<open>One field: the names it adds and the bytes it takes.\<close>

definition header_field :: "u8 list \<Rightarrow> (string list \<times> nat) option" where
  "header_field block =
     (let byte = hd block; named = map_option (\<lambda>(name, used). ([name], used)) in
      if byte AND 0x80 \<noteq> 0 then map_option (\<lambda>(index, used). ([static_name index], used)) (hpack_int block 7)
      else if byte AND 0x40 \<noteq> 0 then named (literal block 6)
      else if byte AND 0x20 \<noteq> 0 then map_option (\<lambda>(size, used). ([], used)) (hpack_int block 5)
      else named (literal block 4))"

function header_names :: "u8 list \<Rightarrow> string list" where
  "header_names block =
     (if block = [] then []
      else (case header_field block of
              None \<Rightarrow> []
            | Some (names, consumed) \<Rightarrow>
                if consumed = 0 \<or> length block < consumed then names
                else names @ header_names (drop consumed block)))"
  by pat_completeness auto
termination
  by (relation "measure length") auto

declare header_names.simps [simp del]

section \<open>Frames\<close>

text \<open>Filling the buffer: whether it holds as many bytes as wanted.\<close>

function fill :: "segments \<Rightarrow> u8 list \<Rightarrow> nat \<Rightarrow> (string + bool) \<times> u8 list \<times> segments" where
  "fill st buf want =
     (if want \<le> length buf then (Inr True, buf, st)
      else if MAX_BYTES \<le> length buf then (Inr False, buf, st)
      else (case read_some 4096 st of
              (Inl e, st') \<Rightarrow> (Inl e, buf, st')
            | (Inr chunk, st') \<Rightarrow>
                if chunk = [] then (Inr False, buf, st') else fill st' (buf @ chunk) want))"
  by pat_completeness auto
termination
  by (relation "measure (\<lambda>(st, buf, want). available st)") (auto dest: read_some_decreases)

declare fill.simps [simp del]

type_synonym priority = "u32 \<times> nat \<times> bool"

datatype h2_line =
    ClosedEarly
  | PrefaceOk
  | Settings "(string \<times> u32) list"
  | WindowUpdate u32 u32 "nat option"
  | Priority u32 priority
  | Headers u32 u8 "priority option" "string list" "string list"
  | Data u32 nat
  | OtherFrame u8 u32 nat
  | HeadLine string
  | HeadReadEnded string

datatype h2_end = Finished | ReadEnded string | Panicked

fun settings_entries :: "u8 list \<Rightarrow> (u16 \<times> u32) list" where
  "settings_entries (a # b # c # d # e # f # bs) =
     (u16_from_be a b, u32_from_be c d e f) # settings_entries bs"
| "settings_entries _ = []"

definition read_priority :: "u8 list \<Rightarrow> priority" where
  "read_priority b =
     (u32_from_be (b ! 0 AND 0x7f) (b ! 1) (b ! 2) (b ! 3), unat (b ! 4) + 1, b ! 0 AND 0x80 \<noteq> 0)"

definition pseudo_order :: "string list \<Rightarrow> string list" where
  "pseudo_order names = map (trim_start_char (CHR '':'')) (filter (\<lambda>n. prefix '':'' n) names)"

text \<open>The line of a frame; \<open>None\<close> is a panic on a body that is too short.\<close>

definition frame_line :: "u8 \<Rightarrow> u8 \<Rightarrow> u32 \<Rightarrow> u8 list \<Rightarrow> h2_line option" where
  "frame_line kind flags stream_id body =
     (if kind = FRAME_SETTINGS
      then Some (Settings (map (\<lambda>(i, v). (setting_name i, v)) (settings_entries body)))
      else if kind = FRAME_WINDOW_UPDATE then
        (if length body < 4 then None
         else (let inc = u32_from_be (body ! 0 AND 0x7f) (body ! 1) (body ! 2) (body ! 3) in
               Some (WindowUpdate stream_id inc (if stream_id = 0 then Some (65535 + unat inc) else None))))
      else if kind = FRAME_PRIORITY then
        (if length body < 5 then None else Some (Priority stream_id (read_priority body)))
      else if kind = FRAME_HEADERS then
        (let prioritised = flags AND FLAG_PRIORITY \<noteq> 0 \<and> 5 \<le> length body;
             names = header_names (if prioritised then drop 5 body else body) in
         Some (Headers stream_id flags (if prioritised then Some (read_priority body) else None)
                 (pseudo_order names) names))
      else if kind = FRAME_DATA then Some (Data stream_id (length body))
      else Some (OtherFrame kind stream_id (length body)))"

lemma fill_available:
  "fill st buf want = (r, buf', st') \<Longrightarrow> length buf' + available st' \<le> length buf + available st"
proof (induction st buf want rule: fill.induct)
  case (1 st buf want)
  show ?case
  proof (cases "length buf < want \<and> length buf < MAX_BYTES \<and>
      (\<exists>c s. read_some 4096 st = (Inr c, s) \<and> c \<noteq> [])")
    case True
    then obtain c s where r: "read_some 4096 st = (Inr c, s)" "c \<noteq> []" by blast
    then have "fill s (buf @ c) want = (r, buf', st')"
      using True 1(2) by (subst (asm) fill.simps) simp
    then show ?thesis
      using "1.IH"[OF _ _ r(1)[symmetric] refl r(2)] True read_some_available[OF r(1)] by simp
  next
    case False
    then show ?thesis
      using 1(2) read_some_error_available[of 4096 st] read_some_available[of 4096 st]
      by (subst (asm) fill.simps) (fastforce split: if_splits prod.splits sum.splits)
  qed
qed

lemma fill_length: "fill st buf want = (Inr True, buf', st') \<Longrightarrow> want \<le> length buf'"
proof (induction st buf want rule: fill.induct)
  case (1 st buf want)
  then show ?case
    by (subst (asm) (2) fill.simps) (auto split: if_splits prod.splits sum.splits)
qed

lemma filled:
  "(Inr True, buf', st') = fill st buf want \<Longrightarrow>
   length buf' + available st' \<le> length buf + available st \<and> want \<le> length buf'"
  by (auto dest!: sym[of _ "fill st buf want"] dest: fill_available fill_length)

function report_frames :: "segments \<Rightarrow> u8 list \<Rightarrow> nat \<Rightarrow> h2_line list \<times> h2_end" where
  "report_frames st buf cursor =
     (case fill st buf (cursor + FRAME_HEADER_LEN) of
        (Inl e, _, _) \<Rightarrow> ([], ReadEnded e)
      | (Inr False, _, _) \<Rightarrow> ([], Finished)
      | (Inr True, buf1, st1) \<Rightarrow>
          (let head = take FRAME_HEADER_LEN (drop cursor buf1);
               len = unat (u32_from_be 0 (head ! 0) (head ! 1) (head ! 2));
               stream_id = u32_from_be (head ! 5 AND 0x7f) (head ! 6) (head ! 7) (head ! 8) in
           case fill st1 buf1 (cursor + FRAME_HEADER_LEN + len) of
             (Inl e, _, _) \<Rightarrow> ([], ReadEnded e)
           | (Inr False, _, _) \<Rightarrow> ([], Finished)
           | (Inr True, buf2, st2) \<Rightarrow>
               (case frame_line (head ! 3) (head ! 4) stream_id
                       (take len (drop (cursor + FRAME_HEADER_LEN) buf2)) of
                  None \<Rightarrow> ([], Panicked)
                | Some line \<Rightarrow>
                    if head ! 3 = FRAME_HEADERS then ([line], Finished)
                    else (case report_frames st2 buf2 (cursor + FRAME_HEADER_LEN + len) of
                            (lines, outcome) \<Rightarrow> (line # lines, outcome)))))"
  by pat_completeness auto
termination
proof (relation "measure (\<lambda>(st, buf, cursor). length buf + available st - cursor)", goal_cases)
  case 1
  show ?case by simp
next
  case 2
  then show ?case
    by (auto simp: FRAME_HEADER_LEN_def dest!: filled)
qed

declare report_frames.simps [simp del]

section \<open>The report\<close>

text \<open>Over HTTP/1.1 the head is read up to its blank line; a read error ends it.\<close>

function read_head :: "segments \<Rightarrow> u8 list \<Rightarrow> u8 list \<times> h2_line list" where
  "read_head st buf =
     (if sublist HEAD_END buf \<or> MAX_BYTES \<le> length buf then (buf, [])
      else (case read_some 4096 st of
              (Inl e, st') \<Rightarrow> (buf, [HeadReadEnded e])
            | (Inr chunk, st') \<Rightarrow> if chunk = [] then (buf, []) else read_head st' (buf @ chunk)))"
  by pat_completeness auto
termination
  by (relation "measure (\<lambda>(st, buf). available st)") (auto dest: read_some_decreases)

declare read_head.simps [simp del]

function split_crlf :: "string \<Rightarrow> string list" where
  "split_crlf s =
     (case split_once [CHR 0x0D, CHR 0x0A] s of
        None \<Rightarrow> [s]
      | Some (a, b) \<Rightarrow> a # split_crlf b)"
  by pat_completeness auto
termination
  by (relation "measure length") (auto dest!: split_once_Some)

declare split_crlf.simps [simp del]

definition report_http1 :: "segments \<Rightarrow> u8 list \<Rightarrow> h2_line list" where
  "report_http1 st buf =
     (case read_head st buf of (buf', ended) \<Rightarrow>
        ended @ map HeadLine (takeWhile (\<lambda>l. l \<noteq> []) (split_crlf (from_utf8_lossy buf'))))"

definition report_h2 :: "segments \<Rightarrow> h2_line list \<times> h2_end" where
  "report_h2 st =
     (case fill st [] (length PREFACE) of
        (Inl e, _, _) \<Rightarrow> ([], ReadEnded e)
      | (Inr False, _, _) \<Rightarrow> ([ClosedEarly], Finished)
      | (Inr True, buf, st') \<Rightarrow>
          if take (length PREFACE) buf \<noteq> PREFACE then (report_http1 st' buf, Finished)
          else (case report_frames st' buf (length PREFACE) of
                  (lines, outcome) \<Rightarrow> (PrefaceOk # lines, outcome)))"

section \<open>Reading integers and names back\<close>

lemma and_bit: "(b :: u8) AND 2 ^ k = 0 \<longleftrightarrow> even (unat b div 2 ^ k)"
proof -
  have "bit b k \<longleftrightarrow> bit (unat b) k" by (simp add: bit_unsigned_iff)
  then show ?thesis by (simp add: and_exp_eq_0_iff_not_bit bit_iff_odd[of "unat b"])
qed

lemma and_bits:
  "(b :: u8) AND 0x80 = 0 \<longleftrightarrow> even (unat b div 128)"
  "(b :: u8) AND 0x40 = 0 \<longleftrightarrow> even (unat b div 64)"
  "(b :: u8) AND 0x20 = 0 \<longleftrightarrow> even (unat b div 32)"
  using and_bit[of b 7] and_bit[of b 6] and_bit[of b 5] by simp_all

lemma and_7f: "unat ((b :: u8) AND 0x7f) = unat b mod 128"
proof -
  have "b AND 0x7f = take_bit 7 b" by (simp add: take_bit_eq_mask mask_eq_exp_minus_1)
  then have "b AND 0x7f = b mod 128" by (simp add: take_bit_eq_mod)
  then show ?thesis by (simp add: unat_mod)
qed

lemma unat_small_byte: "n < 256 \<Longrightarrow> unat (of_nat n :: u8) = n"
  by (simp add: unsigned_of_nat take_bit_nat_eq_self)

text \<open>The reference encoder: \<open>hi\<close> holds the bits above the prefix.\<close>

fun enc_more :: "nat \<Rightarrow> u8 list" where
  "enc_more m = (if m < 128 then [of_nat m] else of_nat (128 + m mod 128) # enc_more (m div 128))"

declare enc_more.simps [simp del]

definition enc_int :: "nat \<Rightarrow> nat \<Rightarrow> nat \<Rightarrow> u8 list" where
  "enc_int prefix_bits hi n =
     (let mask = 2 ^ prefix_bits - 1 in
      if n < mask then [of_nat (hi + n)] else of_nat (hi + mask) # enc_more (n - mask))"

lemma two_pow_7: "(2 :: nat) ^ 7 = 128"
  by simp

lemma hpack_more_ok:
  "m < 2 ^ (7 * j) \<Longrightarrow> 0 < j \<Longrightarrow> j \<le> 5 \<Longrightarrow>
   hpack_more (enc_more m @ bs) val (7 * (5 - j)) i
     = Some (val + m * 2 ^ (7 * (5 - j)), i + length (enc_more m))"
proof (induction m arbitrary: j val i rule: enc_more.induct)
  case (1 m)
  show ?case
  proof (cases "m < 128")
    case True
    then show ?thesis
      by (subst (1 2) enc_more.simps) (simp add: and_bits and_7f unat_small_byte)
  next
    case False
    have j: "1 < j" using 1(2,3) False by (cases "j = 1") auto
    have "m div 128 < 2 ^ (7 * (j - 1))"
    proof -
      obtain k where "j = Suc k" using j by (cases j) auto
      then have "m < 2 ^ (7 * (j - 1)) * 128" using 1(2) by (simp add: power_add)
      then show ?thesis by (rule less_mult_imp_div_less)
    qed
    then have ih: "hpack_more (enc_more (m div 128) @ bs) val' (7 * (5 - (j - 1))) i'
        = Some (val' + m div 128 * 2 ^ (7 * (5 - (j - 1))), i' + length (enc_more (m div 128)))" for val' i'
      using "1.IH"[OF False, of "j - 1"] j 1(4) by simp
    have s: "7 * (5 - (j - 1)) = 7 * (5 - j) + 7" "7 * (5 - j) + 7 \<le> 28" using j 1(4) by auto
    define c :: u8 where "c = of_nat (128 + m mod 128)"
    have b: "unat c = 128 + m mod 128" unfolding c_def by (rule unat_small_byte) simp
    define X :: nat where "X = 2 ^ (7 * (5 - j))"
    have "m * X = (m mod 128 + m div 128 * 128) * X" by simp
    then have v: "m * X = m mod 128 * X + m div 128 * (X * 128)"
      by (simp only: add_mult_distrib mult.assoc mult.commute[of 128 X])
    have X: "2 ^ (7 * (5 - j) + 7) = X * 128" by (simp add: X_def power_add)
    have d: "(128 + m mod 128) div 128 = 1" by (rule div_nat_eqI) simp_all
    have step: "hpack_more (c # bs') val (7 * (5 - j)) i
        = hpack_more bs' (val + m mod 128 * X) (7 * (5 - j) + 7) (i + 1)" for bs'
      using s by (simp add: and_bits and_7f b d Let_def X_def)
    have e: "enc_more m = c # enc_more (m div 128)"
      using False by (subst enc_more.simps) (simp add: c_def)
    show ?thesis
      unfolding e using ih[of "val + m mod 128 * X" "i + 1", unfolded s(1)] v X step X_def[symmetric]
      by simp
  qed
qed

lemma enc_more_not_Nil [simp]: "enc_more m \<noteq> []"
  by (subst enc_more.simps) simp

lemma hpack_int_ok:
  assumes "n < 2 ^ 35" "1 \<le> p" "p \<le> 7" "2 ^ p dvd hi" "hi + 2 ^ p \<le> 256"
  shows "hpack_int (enc_int p hi n @ bs) p = Some (n, length (enc_int p hi n))"
proof (cases "n < 2 ^ p - 1")
  case True
  obtain q where q: "hi = 2 ^ p * q" using assms(4) by (auto simp: dvd_def)
  define c :: u8 where "c = of_nat (hi + n)"
  have "unat c = hi + n" unfolding c_def by (rule unat_small_byte) (use True assms(5) in linarith)
  then have "unat c mod 2 ^ p = n" using True q by simp
  moreover have "enc_int p hi n = [c]" using True by (simp add: enc_int_def c_def Let_def)
  ultimately show ?thesis using True by (simp add: hpack_int_def Let_def)
next
  case False
  define mask :: nat where "mask = 2 ^ p - 1"
  obtain q where q: "hi = 2 ^ p * q" using assms(4) by (auto simp: dvd_def)
  have m: "mask < 2 ^ p" "mask \<le> n" using False by (simp_all add: mask_def)
  define c :: u8 where "c = of_nat (hi + mask)"
  have "unat c = hi + mask" unfolding c_def by (rule unat_small_byte) (use m assms(5) in linarith)
  then have c: "unat c mod 2 ^ p = mask" using m q by simp
  have e: "enc_int p hi n = c # enc_more (n - mask)"
    using False by (simp add: enc_int_def c_def Let_def mask_def)
  have "n - mask < 2 ^ (7 * 5)" using assms(1) by simp
  then have "hpack_more (enc_more (n - mask) @ bs) mask 0 1
      = Some (mask + (n - mask), 1 + length (enc_more (n - mask)))"
    using hpack_more_ok[of "n - mask" 5 bs mask 1] by simp
  then show ?thesis
    unfolding e append_Cons hpack_int_def list.case Let_def mask_def[symmetric] c using m(2) by simp
qed

text \<open>
  A string literal, with the flag that its bytes are Huffman-coded, and a header field in each of its representations.
\<close>

type_synonym hpack_string = "bool \<times> u8 list"

datatype field =
    Indexed nat
  | LiteralField bool nat hpack_string
  | NeverIndexed nat hpack_string
  | NewName bool hpack_string hpack_string
  | TableSize nat

definition enc_string :: "hpack_string \<Rightarrow> u8 list" where
  "enc_string s = (case s of (huffman, bs) \<Rightarrow> enc_int 7 (if huffman then 128 else 0) (length bs) @ bs)"

text \<open>The flag of a literal says whether it is added to the dynamic table.\<close>

fun enc_field :: "field \<Rightarrow> u8 list" where
  "enc_field (Indexed i) = enc_int 7 128 i"
| "enc_field (LiteralField True i v) = enc_int 6 64 i @ enc_string v"
| "enc_field (LiteralField False i v) = enc_int 4 0 i @ enc_string v"
| "enc_field (NeverIndexed i v) = enc_int 4 16 i @ enc_string v"
| "enc_field (NewName True n v) = enc_int 6 64 0 @ enc_string n @ enc_string v"
| "enc_field (NewName False n v) = enc_int 4 0 0 @ enc_string n @ enc_string v"
| "enc_field (TableSize n) = enc_int 5 32 n"

fun field_ok :: "field \<Rightarrow> bool" where
  "field_ok (Indexed i) \<longleftrightarrow> i < 2 ^ 35"
| "field_ok (LiteralField b i v) \<longleftrightarrow> 0 < i \<and> i < 2 ^ 35 \<and> length (snd v) < 2 ^ 35"
| "field_ok (NeverIndexed i v) \<longleftrightarrow> 0 < i \<and> i < 2 ^ 35 \<and> length (snd v) < 2 ^ 35"
| "field_ok (NewName b n v) \<longleftrightarrow> length (snd n) < 2 ^ 35 \<and> length (snd v) < 2 ^ 35"
| "field_ok (TableSize n) \<longleftrightarrow> n < 2 ^ 35"

fun field_names :: "field \<Rightarrow> string list" where
  "field_names (Indexed i) = [static_name i]"
| "field_names (LiteralField b i v) = [static_name i]"
| "field_names (NeverIndexed i v) = [static_name i]"
| "field_names (NewName b n v) = [''<literal>'']"
| "field_names (TableSize n) = []"

lemma skip_string_ok: "length (snd s) < 2 ^ 35 \<Longrightarrow> skip_string (enc_string s @ bs) = Some (length (enc_string s))"
  using hpack_int_ok[of "length (snd s)" 7 "if fst s then 128 else 0" "snd s @ bs"]
  by (cases s) (simp add: skip_string_def enc_string_def)

lemma enc_int_not_Nil [simp]: "enc_int p hi n \<noteq> []"
  by (simp add: enc_int_def Let_def)

lemma get_from_append [simp]: "get_from (length a) (a @ b) = Some b"
  "get_from (length a + length b) (a @ b @ c) = Some c"
  by (simp_all add: get_from_def)

lemma literal_ok:
  assumes "hpack_int (h @ enc_string v @ bs) p = Some (i, length h)" "0 < i" "length (snd v) < 2 ^ 35"
  shows "literal (h @ enc_string v @ bs) p = Some (static_name i, length (h @ enc_string v))"
  using assms skip_string_ok[of v bs] by (simp add: literal_def)

lemma literal_name_ok:
  assumes "hpack_int (h @ enc_string n @ enc_string v @ bs) p = Some (0, length h)"
    and "length (snd n) < 2 ^ 35" "length (snd v) < 2 ^ 35"
  shows "literal (h @ enc_string n @ enc_string v @ bs) p
    = Some (''<literal>'', length (h @ enc_string n @ enc_string v))"
  using assms skip_string_ok[of n "enc_string v @ bs"] skip_string_ok[of v bs]
    get_from_append(2)[of h "enc_string n" "enc_string v @ bs"]
  by (simp add: literal_def add.assoc)

text \<open>The first byte of a field tells its representation.\<close>

lemma enc_int_hd:
  assumes "hi + 2 ^ p \<le> 256"
  shows "hi \<le> unat (hd (enc_int p hi n))" "unat (hd (enc_int p hi n)) < hi + 2 ^ p"
proof -
  define k where "k = min n (2 ^ p - 1)"
  have k: "k < 2 ^ p" by (simp add: k_def min_less_iff_disj)
  have "hd (enc_int p hi n) = of_nat (hi + k)"
    by (cases "n < 2 ^ p - 1") (simp_all add: enc_int_def Let_def k_def min_def del: of_nat_add)
  then have "unat (hd (enc_int p hi n)) = hi + k"
    using unat_small_byte[of "hi + k"] assms k by simp
  then show "hi \<le> unat (hd (enc_int p hi n))" "unat (hd (enc_int p hi n)) < hi + 2 ^ p"
    using k by simp_all
qed

lemma representation:
  "128 \<le> unat (b :: u8) \<Longrightarrow> b AND 0x80 \<noteq> 0"
  "unat b < 128 \<Longrightarrow> b AND 0x80 = 0"
  "64 \<le> unat b \<Longrightarrow> unat b < 128 \<Longrightarrow> b AND 0x40 \<noteq> 0"
  "unat b < 64 \<Longrightarrow> b AND 0x40 = 0"
  "32 \<le> unat b \<Longrightarrow> unat b < 64 \<Longrightarrow> b AND 0x20 \<noteq> 0"
  "unat b < 32 \<Longrightarrow> b AND 0x20 = 0"
proof -
  have one: "k \<le> n \<Longrightarrow> n < 2 * k \<Longrightarrow> n div k = 1" for n k :: nat
    by (rule div_nat_eqI) simp_all
  show "128 \<le> unat b \<Longrightarrow> b AND 0x80 \<noteq> 0" using one[of 128 "unat b"] byte_less[of b] by (simp add: and_bits)
  show "unat b < 128 \<Longrightarrow> b AND 0x80 = 0" by (simp add: and_bits)
  show "64 \<le> unat b \<Longrightarrow> unat b < 128 \<Longrightarrow> b AND 0x40 \<noteq> 0" using one[of 64 "unat b"] by (simp add: and_bits)
  show "unat b < 64 \<Longrightarrow> b AND 0x40 = 0" by (simp add: and_bits)
  show "32 \<le> unat b \<Longrightarrow> unat b < 64 \<Longrightarrow> b AND 0x20 \<noteq> 0" using one[of 32 "unat b"] by (simp add: and_bits)
  show "unat b < 32 \<Longrightarrow> b AND 0x20 = 0" by (simp add: and_bits)
qed

lemma header_field_ok:
  assumes "field_ok f"
  shows "header_field (enc_field f @ bs) = Some (field_names f, length (enc_field f))"
proof -
  have hd: "hd (enc_int p hi n @ xs) = hd (enc_int p hi n)" for p hi n xs by simp
  show ?thesis
  proof (cases f rule: enc_field.cases)
    case (1 i)
    have "128 \<le> unat (hd (enc_int 7 128 i))" using enc_int_hd(1)[of 128 7 i] by simp
    then show ?thesis
      using assms 1 hpack_int_ok[of i 7 128 bs] by (simp add: header_field_def hd representation Let_def)
  next
    case (2 i v)
    have "64 \<le> unat (hd (enc_int 6 64 i))" "unat (hd (enc_int 6 64 i)) < 128"
      using enc_int_hd[of 64 6 i] by simp_all
    then show ?thesis
      using assms 2 literal_ok[OF hpack_int_ok[of i 6 64 "enc_string v @ bs"]]
      by (simp add: header_field_def hd representation Let_def)
  next
    case (3 i v)
    have "unat (hd (enc_int 4 0 i)) < 16" using enc_int_hd(2)[of 0 4 i] by simp
    then show ?thesis
      using assms 3 literal_ok[OF hpack_int_ok[of i 4 0 "enc_string v @ bs"]]
      by (simp add: header_field_def hd representation Let_def)
  next
    case (4 i v)
    have "unat (hd (enc_int 4 16 i)) < 32" using enc_int_hd(2)[of 16 4 i] by simp
    then show ?thesis
      using assms 4 literal_ok[OF hpack_int_ok[of i 4 16 "enc_string v @ bs"]]
      by (simp add: header_field_def hd representation Let_def)
  next
    case (5 n v)
    have "64 \<le> unat (hd (enc_int 6 64 0))" "unat (hd (enc_int 6 64 0)) < 128"
      using enc_int_hd[of 64 6 0] by simp_all
    then show ?thesis
      using assms 5 literal_name_ok[OF hpack_int_ok[of 0 6 64 "enc_string n @ enc_string v @ bs"]]
      by (simp add: header_field_def hd representation Let_def)
  next
    case (6 n v)
    have "unat (hd (enc_int 4 0 0)) < 16" using enc_int_hd(2)[of 0 4 0] by simp
    then show ?thesis
      using assms 6 literal_name_ok[OF hpack_int_ok[of 0 4 0 "enc_string n @ enc_string v @ bs"]]
      by (simp add: header_field_def hd representation Let_def)
  next
    case (7 n)
    have "32 \<le> unat (hd (enc_int 5 32 n))" "unat (hd (enc_int 5 32 n)) < 64"
      using enc_int_hd[of 32 5 n] by simp_all
    then show ?thesis
      using assms 7 hpack_int_ok[of n 5 32 bs] by (simp add: header_field_def hd representation Let_def)
  qed
qed

lemma enc_field_not_Nil [simp]: "enc_field f \<noteq> []"
  by (cases f rule: enc_field.cases) auto

lemma header_names_fields:
  "list_all field_ok fs \<Longrightarrow> header_names (concat (map enc_field fs)) = concat (map field_names fs)"
proof (induction fs)
  case Nil
  then show ?case by (subst header_names.simps) simp
next
  case (Cons f fs)
  then show ?case
    using header_field_ok[of f "concat (map enc_field fs)"]
    by (subst header_names.simps) simp
qed

end
