(* ===== verification/CaptureFrames.thy ===== *)
theory CaptureFrames
  imports CaptureH2
begin

text \<open>
  The frames of \<open>src/examples/capture_h2.rs\<close>: a reference encoder of a client's opening frames, and what the
  report says of them. Nothing here is code of the program but for what \<open>CaptureH2\<close> defines; the encoder is the
  specification the reading is held against.
\<close>

lemma fill_ok:
  "buf @ contents st = sent \<Longrightarrow> want \<le> length sent \<Longrightarrow> want \<le> MAX_BYTES \<Longrightarrow>
   \<exists>buf' st'. fill st buf want = (Inr True, buf', st') \<and> buf' @ contents st' = sent \<and> want \<le> length buf'"
proof (induction "available st" arbitrary: buf st rule: less_induct)
  case less
  show ?case
  proof (cases "want \<le> length buf")
    case True
    then show ?thesis using less.prems by (subst fill.simps) simp
  next
    case False
    then have "contents st \<noteq> []" using less.prems(1,2) by auto
    then obtain bs st' where r: "read_some 4096 st = (Inr bs, st')" "bs \<noteq> []"
      "contents st = bs @ contents st'" "available st' < available st"
      by (rule read_some_more[of st 4096]) auto
    have "fill st buf want = fill st' (buf @ bs) want"
      using False less.prems(3) r by (subst fill.simps) simp
    then show ?thesis using less.hyps[OF r(4), of "buf @ bs"] less.prems r(3) by simp
  qed
qed

text \<open>The reference encoder of a frame. A 31-bit number shares its first byte with a flag.\<close>

definition be32 :: "u32 \<Rightarrow> u8 list" where
  "be32 v = [of_nat (unat v div 16777216), of_nat (unat v div 65536 mod 256),
             of_nat (unat v div 256 mod 256), of_nat (unat v mod 256)]"

definition be31 :: "bool \<Rightarrow> u32 \<Rightarrow> u8 list" where
  "be31 flag v = of_nat ((if flag then 128 else 0) + unat v div 16777216) # tl (be32 v)"

lemma unat_u32_less: "unat (v :: u32) < 4294967296"
proof -
  have "unat v < 2 ^ LENGTH(32)" by (rule unsigned_less)
  then show ?thesis by simp
qed

lemma bytes_of_u32: "n div 16777216 * 16777216 + n div 65536 mod 256 * 65536 + n div 256 mod 256 * 256 + n mod 256 = (n :: nat)"
proof -
  define a b c where "a = n div 256" and "b = a div 256" and "c = b div 256"
  have d: "n div 16777216 = c" "n div 65536 = b" "n div 256 = a"
    by (simp_all add: a_def b_def c_def div_mult2_eq[symmetric])
  have "n = a * 256 + n mod 256" "a = b * 256 + a mod 256" "b = c * 256 + b mod 256"
    by (simp_all add: a_def b_def c_def)
  then show ?thesis unfolding d by linarith
qed

lemma unat_u32_bytes:
  "unat v div 16777216 < 256" "unat v div 65536 mod 256 < 256" "unat v div 256 mod 256 < 256" "unat (v :: u32) mod 256 < 256"
  using unat_u32_less[of v] by (simp_all add: less_mult_imp_div_less)

lemma u32_of_bytes:
  assumes "unat a = unat v div 16777216"
  shows "u32_from_be a (be32 v ! 1) (be32 v ! 2) (be32 v ! 3) = v"
proof -
  have "unat (be32 v ! 1) = unat v div 65536 mod 256" "unat (be32 v ! 2) = unat v div 256 mod 256"
    "unat (be32 v ! 3) = unat v mod 256"
    using unat_u32_bytes[of v] by (simp_all add: be32_def unat_small_byte)
  then show ?thesis unfolding u32_from_be_def assms by (simp only: bytes_of_u32) simp
qed

lemma u32_be32: "u32_from_be (be32 v ! 0) (be32 v ! 1) (be32 v ! 2) (be32 v ! 3) = v"
  by (rule u32_of_bytes) (use unat_u32_bytes[of v] in \<open>simp add: be32_def unat_small_byte\<close>)

lemma be31_parts:
  assumes "v < 2 ^ 31"
  shows "u32_from_be (be31 flag v ! 0 AND 0x7f) (be31 flag v ! 1) (be31 flag v ! 2) (be31 flag v ! 3) = v"
    "be31 flag v ! 0 AND 0x80 \<noteq> 0 \<longleftrightarrow> flag"
proof -
  have "unat v < 2147483648" using assms by (simp add: word_less_nat_alt)
  then have v: "unat v div 16777216 < 128" by (simp add: less_mult_imp_div_less)
  define c :: u8 where "c = of_nat ((if flag then 128 else 0) + unat v div 16777216)"
  have c: "unat c = (if flag then 128 else 0) + unat v div 16777216"
    unfolding c_def by (rule unat_small_byte) (use v in auto)
  have hi: "unat (c AND 0x7f) = unat v div 16777216" using v by (simp add: and_7f c)
  have at: "be31 flag v ! 0 = c" "be31 flag v ! 1 = be32 v ! 1" "be31 flag v ! 2 = be32 v ! 2" "be31 flag v ! 3 = be32 v ! 3"
    by (simp_all add: be31_def be32_def c_def)
  show "u32_from_be (be31 flag v ! 0 AND 0x7f) (be31 flag v ! 1) (be31 flag v ! 2) (be31 flag v ! 3) = v"
    unfolding at by (rule u32_of_bytes) (rule hi)
  show "be31 flag v ! 0 AND 0x80 \<noteq> 0 \<longleftrightarrow> flag"
    unfolding at using representation(1,2)[of c] c v by (cases flag) auto
qed

lemma lengths_be [simp]: "length (be32 v) = 4" "length (be31 f v) = 4"
  by (simp_all add: be31_def be32_def)

datatype frame =
    FSettings "(u16 \<times> u32) list"
  | FWindowUpdate u32 u32
  | FPriority u32 u32 u8 bool
  | FHeaders u32 u8 "(u32 \<times> u8 \<times> bool) option" "field list"
  | FData u32 u8 "u8 list"
  | FOther u8 u8 u32 "u8 list"

fun kind_of :: "frame \<Rightarrow> u8" where
  "kind_of (FSettings es) = FRAME_SETTINGS"
| "kind_of (FWindowUpdate i n) = FRAME_WINDOW_UPDATE"
| "kind_of (FPriority i d w e) = FRAME_PRIORITY"
| "kind_of (FHeaders i fl p fs) = FRAME_HEADERS"
| "kind_of (FData i fl b) = FRAME_DATA"
| "kind_of (FOther k fl i b) = k"

fun flags_of :: "frame \<Rightarrow> u8" where
  "flags_of (FHeaders i fl p fs) = fl"
| "flags_of (FData i fl b) = fl"
| "flags_of (FOther k fl i b) = fl"
| "flags_of _ = 0"

fun stream_of_frame :: "frame \<Rightarrow> u32" where
  "stream_of_frame (FSettings es) = 0"
| "stream_of_frame (FWindowUpdate i n) = i"
| "stream_of_frame (FPriority i d w e) = i"
| "stream_of_frame (FHeaders i fl p fs) = i"
| "stream_of_frame (FData i fl b) = i"
| "stream_of_frame (FOther k fl i b) = i"

definition enc_priority :: "u32 \<times> u8 \<times> bool \<Rightarrow> u8 list" where
  "enc_priority p = (case p of (d, w, e) \<Rightarrow> be31 e d @ [w])"

fun body_of :: "frame \<Rightarrow> u8 list" where
  "body_of (FSettings es) = concat (map (\<lambda>(i, v). be16 i @ be32 v) es)"
| "body_of (FWindowUpdate i n) = be31 False n"
| "body_of (FPriority i d w e) = enc_priority (d, w, e)"
| "body_of (FHeaders i fl p fs) =
     (case p of None \<Rightarrow> [] | Some q \<Rightarrow> enc_priority q) @ concat (map enc_field fs)"
| "body_of (FData i fl b) = b"
| "body_of (FOther k fl i b) = b"

fun frame_fields_ok :: "frame \<Rightarrow> bool" where
  "frame_fields_ok (FSettings es) = True"
| "frame_fields_ok (FWindowUpdate i n) \<longleftrightarrow> n < 2 ^ 31"
| "frame_fields_ok (FPriority i d w e) \<longleftrightarrow> d < 2 ^ 31"
| "frame_fields_ok (FHeaders i fl p fs) \<longleftrightarrow>
     (fl AND FLAG_PRIORITY \<noteq> 0 \<longleftrightarrow> p \<noteq> None) \<and> (case p of None \<Rightarrow> True | Some (d, w, e) \<Rightarrow> d < 2 ^ 31)
     \<and> list_all field_ok fs"
| "frame_fields_ok (FData i fl b) = True"
| "frame_fields_ok (FOther k fl i b) \<longleftrightarrow>
     k \<notin> {FRAME_SETTINGS, FRAME_WINDOW_UPDATE, FRAME_PRIORITY, FRAME_HEADERS, FRAME_DATA}"

definition frame_ok :: "frame \<Rightarrow> bool" where
  "frame_ok f \<longleftrightarrow> frame_fields_ok f \<and> stream_of_frame f < 2 ^ 31 \<and> length (body_of f) < 2 ^ 24"

definition frame_head :: "frame \<Rightarrow> u8 list" where
  "frame_head f =
     (let l = length (body_of f) in
      [of_nat (l div 65536), of_nat (l div 256 mod 256), of_nat (l mod 256), kind_of f, flags_of f]
      @ be31 False (stream_of_frame f))"

definition enc_frame :: "frame \<Rightarrow> u8 list" where
  "enc_frame f = frame_head f @ body_of f"

definition told :: "u32 \<times> u8 \<times> bool \<Rightarrow> priority" where
  "told p = (case p of (d, w, e) \<Rightarrow> (d, unat w + 1, e))"

fun line_of :: "frame \<Rightarrow> h2_line" where
  "line_of (FSettings es) = Settings (map (\<lambda>(i, v). (setting_name i, v)) es)"
| "line_of (FWindowUpdate i n) = WindowUpdate i n (if i = 0 then Some (65535 + unat n) else None)"
| "line_of (FPriority i d w e) = Priority i (told (d, w, e))"
| "line_of (FHeaders i fl p fs) =
     (let names = concat (map field_names fs) in Headers i fl (map_option told p) (pseudo_order names) names)"
| "line_of (FData i fl b) = Data i (length b)"
| "line_of (FOther k fl i b) = OtherFrame k i (length b)"

lemma be16_parts: "be16 i = [be16 i ! 0, be16 i ! 1]" "u16_from_be (be16 i ! 0) (be16 i ! 1) = i"
  by (simp_all add: be16_def u16_from_be_be16)

lemma be32_parts: "be32 v = [be32 v ! 0, be32 v ! 1, be32 v ! 2, be32 v ! 3]"
  by (simp add: be32_def)

lemma settings_entries_ok: "settings_entries (concat (map (\<lambda>(i, v). be16 i @ be32 v) es)) = es"
proof (induction es)
  case (Cons e es)
  obtain i v where e: "e = (i, v)" by fastforce
  have "settings_entries (be16 i @ be32 v @ bs) = (i, v) # settings_entries bs" for bs
    by (subst be16_parts(1), subst be32_parts) (simp add: be16_parts(2)[simplified] u32_be32[simplified])
  then show ?case using Cons e by simp
qed simp

lemma read_priority_ok:
  assumes "d < 2 ^ 31"
  shows "read_priority (enc_priority (d, w, e) @ bs) = told (d, w, e)"
  using be31_parts[OF assms, of e] by (simp add: read_priority_def enc_priority_def told_def nth_append)

lemma frame_line_ok:
  assumes "frame_fields_ok f"
  shows "frame_line (kind_of f) (flags_of f) (stream_of_frame f) (body_of f) = Some (line_of f)"
proof (cases f)
  case (FSettings es)
  then show ?thesis by (simp add: frame_line_def settings_entries_ok)
next
  case (FWindowUpdate i n)
  then show ?thesis
    using assms be31_parts(1)[of n False] by (simp add: frame_line_def frame_consts Let_def)
next
  case (FPriority i d w e)
  then show ?thesis
    using assms read_priority_ok[of d w e "[]"]
    by (simp add: frame_line_def frame_consts enc_priority_def)
next
  case (FHeaders i fl p fs)
  show ?thesis
  proof (cases p)
    case None
    then show ?thesis
      using assms FHeaders header_names_fields[of fs] by (simp add: frame_line_def frame_consts Let_def)
  next
    case (Some q)
    obtain d w e where q: "q = (d, w, e)" by (cases q)
    have l: "length (enc_priority q) = 5" by (simp add: enc_priority_def q)
    then show ?thesis
      using assms FHeaders Some q header_names_fields[of fs] read_priority_ok[of d w e]
      by (simp add: frame_line_def frame_consts Let_def)
  qed
next
  case (FData i fl b)
  then show ?thesis by (simp add: frame_line_def frame_consts)
next
  case (FOther k fl i b)
  then show ?thesis using assms by (simp add: frame_line_def)
qed

lemma frame_head_parts:
  assumes "frame_ok f"
  shows "length (frame_head f) = 9"
    "unat (u32_from_be 0 (frame_head f ! 0) (frame_head f ! 1) (frame_head f ! 2)) = length (body_of f)"
    "frame_head f ! 3 = kind_of f" "frame_head f ! 4 = flags_of f"
    "u32_from_be (frame_head f ! 5 AND 0x7f) (frame_head f ! 6) (frame_head f ! 7) (frame_head f ! 8) = stream_of_frame f"
proof -
  define v :: u32 where "v = of_nat (length (body_of f))"
  have "length (body_of f) < 4294967296" using assms by (simp add: frame_ok_def)
  then have v: "unat v = length (body_of f)" by (simp add: v_def unsigned_of_nat take_bit_nat_eq_self)
  have z: "unat v div 16777216 = 0" using assms v by (simp add: frame_ok_def)
  have at: "frame_head f ! 0 = be32 v ! 1" "frame_head f ! 1 = be32 v ! 2" "frame_head f ! 2 = be32 v ! 3"
    using z v by (simp_all add: frame_head_def be32_def Let_def)
  show "unat (u32_from_be 0 (frame_head f ! 0) (frame_head f ! 1) (frame_head f ! 2)) = length (body_of f)"
    unfolding at using u32_of_bytes[of 0 v] z v by simp
  show "length (frame_head f) = 9" "frame_head f ! 3 = kind_of f" "frame_head f ! 4 = flags_of f"
    by (simp_all add: frame_head_def Let_def)
  have at': "frame_head f ! 5 = be31 False (stream_of_frame f) ! 0" "frame_head f ! 6 = be31 False (stream_of_frame f) ! 1"
    "frame_head f ! 7 = be31 False (stream_of_frame f) ! 2" "frame_head f ! 8 = be31 False (stream_of_frame f) ! 3"
    by (simp_all add: frame_head_def Let_def)
  show "u32_from_be (frame_head f ! 5 AND 0x7f) (frame_head f ! 6) (frame_head f ! 7) (frame_head f ! 8) = stream_of_frame f"
    unfolding at' by (rule be31_parts(1)) (use assms in \<open>simp add: frame_ok_def\<close>)
qed

lemma cut_out: "buf @ after = pre @ piece @ later \<Longrightarrow> length pre + length piece \<le> length buf \<Longrightarrow>
  take (length piece) (drop (length pre) buf) = piece"
  by (drule arg_cong[of _ _ "\<lambda>l. take (length piece) (drop (length pre) l)"]) simp

lemma report_frames_ok:
  assumes "buf @ contents st = pre @ enc_frame f @ later" "length pre + length (enc_frame f) \<le> MAX_BYTES" "frame_ok f"
  obtains buf' st' where "buf' @ contents st' = pre @ enc_frame f @ later"
    "report_frames st buf (length pre) =
       (if kind_of f = FRAME_HEADERS then ([line_of f], Finished)
        else (case report_frames st' buf' (length pre + length (enc_frame f)) of
                (lines, outcome) \<Rightarrow> (line_of f # lines, outcome)))"
proof -
  note parts = frame_head_parts[OF assms(3)]
  have l: "length (enc_frame f) = 9 + length (body_of f)" by (simp add: enc_frame_def parts(1))
  obtain buf1 st1 where one: "fill st buf (length pre + 9) = (Inr True, buf1, st1)"
      "buf1 @ contents st1 = pre @ enc_frame f @ later" "length pre + 9 \<le> length buf1"
    using fill_ok[OF assms(1), of "length pre + 9"] assms(2) l by auto
  obtain buf2 st2 where two: "fill st1 buf1 (length pre + 9 + length (body_of f)) = (Inr True, buf2, st2)"
      "buf2 @ contents st2 = pre @ enc_frame f @ later" "length pre + 9 + length (body_of f) \<le> length buf2"
    using fill_ok[OF one(2), of "length pre + 9 + length (body_of f)"] assms(2) l by auto
  have head: "take 9 (drop (length pre) buf1) = frame_head f"
    using cut_out[of buf1 _ pre "frame_head f" "body_of f @ later"] one parts(1) by (simp add: enc_frame_def)
  have body: "take (length (body_of f)) (drop (length pre + 9) buf2) = body_of f"
    using cut_out[of buf2 _ "pre @ frame_head f" "body_of f" later] two parts(1) by (simp add: enc_frame_def)
  have line: "frame_line (kind_of f) (flags_of f) (stream_of_frame f) (body_of f) = Some (line_of f)"
    using assms(3) by (intro frame_line_ok) (simp add: frame_ok_def)
  have l': "length pre + length (enc_frame f) = length pre + 9 + length (body_of f)" by (simp add: l)
  show ?thesis
  proof (rule that[OF two(2)])
    show "report_frames st buf (length pre) =
       (if kind_of f = FRAME_HEADERS then ([line_of f], Finished)
        else (case report_frames st2 buf2 (length pre + length (enc_frame f)) of
                (lines, outcome) \<Rightarrow> (line_of f # lines, outcome)))"
      by (subst report_frames.simps)
        (simp only: FRAME_HEADER_LEN_def one(1) head parts(2-5) Let_def two(1) body line l' prod.case sum.case option.case
          bool.case)
  qed
qed

lemma report_frames_all:
  assumes "buf @ contents st = pre @ concat (map enc_frame fs) @ enc_frame h @ behind"
    and "length pre + length (concat (map enc_frame fs)) + length (enc_frame h) \<le> MAX_BYTES"
    and "list_all (\<lambda>f. frame_ok f \<and> kind_of f \<noteq> FRAME_HEADERS) fs" "frame_ok h" "kind_of h = FRAME_HEADERS"
  shows "report_frames st buf (length pre) = (map line_of (fs @ [h]), Finished)"
  using assms
proof (induction fs arbitrary: pre buf st)
  case Nil
  have "report_frames st buf (length pre) = ([line_of h], Finished)"
    using report_frames_ok[of buf st pre h behind] Nil by auto
  then show ?case by simp
next
  case (Cons f fs)
  obtain buf' st' where b: "buf' @ contents st' = pre @ enc_frame f @ concat (map enc_frame fs) @ enc_frame h @ behind"
    "report_frames st buf (length pre) =
       (case report_frames st' buf' (length (pre @ enc_frame f)) of (lines, outcome) \<Rightarrow> (line_of f # lines, outcome))"
    using report_frames_ok[of buf st pre f "concat (map enc_frame fs) @ enc_frame h @ behind"] Cons.prems(1-3)
    by (auto simp: add.assoc)
  have "report_frames st' buf' (length (pre @ enc_frame f)) = (map line_of (fs @ [h]), Finished)"
    by (rule Cons.IH) (use b(1) Cons.prems in \<open>simp_all add: add.assoc\<close>)
  then show ?case using b(2) by simp
qed

section \<open>The report of an opening\<close>


text \<open>What Chrome opens a connection with, as its entry of the emulations has it.\<close>

definition chrome_opening :: "frame list" where
  "chrome_opening =
     [FSettings [(0x1, CHROME_HEADER_TABLE_SIZE), (0x2, 0), (0x4, CHROME_INITIAL_STREAM_WINDOW),
                 (0x6, CHROME_MAX_HEADER_LIST_SIZE)],
      FWindowUpdate 0 15663105]"

definition chrome_request :: "field list" where
  "chrome_request =
     [Indexed 2, LiteralField True 1 (False, ascii ''127.0.0.1:9443''), Indexed 7, Indexed 4,
      NewName True (True, [0x41, 0x52, 0xb1]) (False, ascii ''?0''), LiteralField True 58 (False, ascii ''Mozilla/5.0''),
      NeverIndexed 32 (True, [0xd4, 0x7f])]"

definition chrome_bytes :: "u8 list" where
  "chrome_bytes = PREFACE @ concat (map enc_frame chrome_opening)
     @ enc_frame (FHeaders 1 0x25 (Some (0, CHROME_HEADERS_WEIGHT, True)) chrome_request)"

lemmas chrome_sample = chrome_opening_def chrome_request_def CHROME_HEADER_TABLE_SIZE_def CHROME_INITIAL_STREAM_WINDOW_def
  CHROME_MAX_HEADER_LIST_SIZE_def CHROME_HEADERS_WEIGHT_def

lemma chrome_opening_ok:
  "list_all (\<lambda>f. frame_ok f \<and> kind_of f \<noteq> FRAME_HEADERS) chrome_opening"
  "frame_ok (FHeaders 1 0x25 (Some (0, CHROME_HEADERS_WEIGHT, True)) chrome_request)"
  by (simp_all add: chrome_sample frame_ok_def frame_consts FLAG_PRIORITY_def be16_def enc_priority_def enc_int_def
      enc_string_def enc_more.simps[of 17] ascii_def Let_def)

lemma chrome_bytes_length: "length chrome_bytes = 129"
  by (simp add: chrome_bytes_def PREFACE_def HEAD_END_def enc_frame_def frame_head_def chrome_sample be16_def
      enc_priority_def enc_int_def enc_string_def enc_more.simps[of 17] ascii_def Let_def)

lemma chrome_lines:
  "map line_of (chrome_opening @ [FHeaders 1 0x25 (Some (0, CHROME_HEADERS_WEIGHT, True)) chrome_request]) =
     [Settings [(''HeaderTableSize'', 65536), (''EnablePush'', 0), (''InitialWindowSize'', 6291456),
        (''MaxHeaderListSize'', 262144)],
      WindowUpdate 0 15663105 (Some (unat CHROME_CONNECTION_WINDOW)),
      Headers 1 0x25 (Some (0, 256, True)) [''method'', ''authority'', ''scheme'', ''path'']
        ['':method'', '':authority'', '':scheme'', '':path'', ''<literal>'', ''user-agent'', ''cookie'']]"
  by (simp add: chrome_sample setting_name_def SETTING_NAMES_def CHROME_CONNECTION_WINDOW_def told_def static_name_def
      STATIC_NAMES_def pseudo_order_def trim_start_char_def Let_def)


text \<open>The names the settings are printed under are those the entries of the emulations are written in.\<close>

fun setting_code :: "setting_id \<Rightarrow> u16" where
  "setting_code HeaderTableSize = 1"
| "setting_code EnablePush = 2"
| "setting_code MaxConcurrentStreams = 3"
| "setting_code InitialWindowSize = 4"
| "setting_code MaxFrameSize = 5"
| "setting_code MaxHeaderListSize = 6"
| "setting_code EnableConnectProtocol = 8"
| "setting_code NoRfc7540Priorities = 9"

lemma emulation_settings_named:
  "map (setting_name \<circ> setting_code) CHROME_SETTINGS_IDS =
     [''HeaderTableSize'', ''EnablePush'', ''InitialWindowSize'', ''MaxHeaderListSize'', ''MaxConcurrentStreams'',
      ''MaxFrameSize'', ''EnableConnectProtocol'', ''NoRfc7540Priorities'']"
  "map (setting_name \<circ> setting_code) SAFARI_SETTINGS_IDS =
     [''EnablePush'', ''MaxConcurrentStreams'', ''InitialWindowSize'', ''NoRfc7540Priorities'', ''HeaderTableSize'',
      ''MaxFrameSize'', ''MaxHeaderListSize'', ''EnableConnectProtocol'']"
  by (simp_all add: setting_name_def SETTING_NAMES_def CHROME_SETTINGS_IDS_def SAFARI_SETTINGS_IDS_def)

text \<open>
  A frame whose body is shorter than its kind needs makes the tool panic, as an index is out of range: nothing
  checks the length of a WINDOW_UPDATE or of a PRIORITY.
\<close>

lemma short_frames_panic:
  "length body < 4 \<Longrightarrow> frame_line FRAME_WINDOW_UPDATE fl i body = None"
  "length body < 5 \<Longrightarrow> frame_line FRAME_PRIORITY fl i body = None"
  "report_h2 [Inr (PREFACE @ [0, 0, 0, 8, 0, 0, 0, 0, 0])] = ([PrefaceOk], Panicked)"
  subgoal by (simp add: frame_line_def frame_consts)
  subgoal by (simp add: frame_line_def frame_consts)
  subgoal
    by (simp add: report_h2_def fill.simps report_frames.simps PREFACE_def HEAD_END_def ascii_def MAX_BYTES_def
        FRAME_HEADER_LEN_def frame_line_def frame_consts u32_from_be_def Let_def)
  done

text \<open>The buffer stays within its limit but for the read that crosses it.\<close>

lemma fill_bounded:
  "fill st buf want = (r, buf', st') \<Longrightarrow> length buf \<le> MAX_BYTES + 4095 \<Longrightarrow> length buf' \<le> MAX_BYTES + 4095"
proof (induction st buf want rule: fill.induct)
  case (1 st buf want)
  show ?case
  proof (cases "length buf < want \<and> length buf < MAX_BYTES \<and>
      (\<exists>c s. read_some 4096 st = (Inr c, s) \<and> c \<noteq> [])")
    case True
    then obtain c s where r: "read_some 4096 st = (Inr c, s)" "c \<noteq> []" by blast
    then have "fill s (buf @ c) want = (r, buf', st')"
      using True 1(2) by (subst (asm) fill.simps) simp
    then show ?thesis
      using "1.IH"[OF _ _ r(1)[symmetric] refl r(2)] True read_some_length[OF r(1)] by simp
  next
    case False
    then show ?thesis
      using 1(2,3) by (subst (asm) fill.simps) (fastforce split: if_splits prod.splits sum.splits)
  qed
qed

end
