(* ===== verification/Measure.thy ===== *)
theory Measure
  imports CaptureHello ClientHints
begin

text \<open>
  Models the two programs under \<open>src/examples\<close> that check measured values: \<open>emulation_roundtrip.rs\<close> compares what an
  emulation puts on the wire with the fingerprint of the browser it stands for, and \<open>capture_hints.rs\<close> reads the
  client hints of a page. What the HTTP library sends under an emulation, the JSON parser and the
  page are arguments; the lines printed are values.
\<close>

section \<open>The round trip of an emulation\<close>

record target =
  t_name :: string
  t_expected :: string
  t_build :: emulation
  t_caveat :: "string option"

definition TARGETS :: "target list" where
  "TARGETS =
     [\<lparr>t_name = ''Chromium 153 (Linux)'', t_expected = CHROME_JA4_REAL, t_build = chrome,
       t_caveat = Some (''sends extension 0xca34 (btls's BoringSSL has it, but neither btls nor wreq ''
         @ ''binds it) and ML-DSA sigalgs 0x0904/5/6 (BoringSSL has no SSL_SIGN_* for them)'')\<rparr>,
      \<lparr>t_name = ''Safari 27 (macOS 27, warm)'', t_expected = SAFARI_27_JA4, t_build = safari_27, t_caveat = None\<rparr>]"

function read_first_record :: "u8 list \<Rightarrow> segments \<Rightarrow> string + u8 list" where
  "read_first_record buf st =
     (if 5 \<le> length buf \<and> unat (u16_from_be (buf ! 3) (buf ! 4)) + 5 \<le> length buf then Inr buf
      else (case read_some 4096 st of
              (Inl e, st') \<Rightarrow> Inl e
            | (Inr chunk, st') \<Rightarrow> if chunk = [] then Inr buf else read_first_record (buf @ chunk) st'))"
  by pat_completeness auto
termination
  by (relation "measure (\<lambda>(buf, st). available st)") (auto dest: read_some_decreases)

declare read_first_record.simps [simp del]

datatype measure_error = ReadFailed string | NotAHello ja4_error

text \<open>\<open>wire\<close> is what the HTTP library sends to the listener when it is built with an emulation.\<close>

definition measure_emulation :: "(emulation \<Rightarrow> segments) \<Rightarrow> emulation \<Rightarrow> measure_error + client_hello" where
  "measure_emulation wire e =
     (case read_first_record [] (wire e) of
        Inl err \<Rightarrow> Inl (ReadFailed err)
      | Inr bytes \<Rightarrow> (case parse_client_hello bytes of Inl err \<Rightarrow> Inl (NotAHello err) | Inr h \<Rightarrow> Inr h))"

definition count_real :: "u16 list \<Rightarrow> nat" where
  "count_real codes = length (filter (\<lambda>c. \<not> is_grease c) codes)"

text \<open>A segment with its label, what was measured and, where it differs, what was wanted.\<close>

record verdict =
  v_name :: string
  v_want :: string
  v_got :: string
  v_segments :: "(string \<times> string \<times> string option) list"
  v_counts :: "nat list"
  v_caveat :: "string option"

definition compare_segments :: "string list \<Rightarrow> ja4 \<Rightarrow> (string \<times> string \<times> string option) list" where
  "compare_segments want j =
     map (\<lambda>(label, g, w). (label, g, if g = w then None else Some w))
       (zip [''a'', ''b'', ''c''] (zip [ja4_a j, ja4_b j, ja4_c j] want))"

definition verdict_of :: "(string \<Rightarrow> u8 list) \<Rightarrow> target \<Rightarrow> client_hello \<Rightarrow> verdict" where
  "verdict_of sha t h =
     (let j = from_client_hello sha h Tcp in
      \<lparr>v_name = t_name t, v_want = t_expected t, v_got = ja4_display j,
       v_segments = compare_segments (split_char (CHR ''_'') (t_expected t)) j,
       v_counts = map count_real [ch_cipher_suites h, ch_extensions h, ch_supported_groups h, ch_signature_algorithms h],
       v_caveat = t_caveat t\<rparr>)"

text \<open>An error ends the run; the targets before it have been reported.\<close>

fun roundtrip ::
    "(string \<Rightarrow> u8 list) \<Rightarrow> (emulation \<Rightarrow> segments) \<Rightarrow> target list \<Rightarrow> verdict list \<times> measure_error option" where
  "roundtrip sha wire [] = ([], None)"
| "roundtrip sha wire (t # ts) =
     (case measure_emulation wire (t_build t) of
        Inl e \<Rightarrow> ([], Some e)
      | Inr h \<Rightarrow> (case roundtrip sha wire ts of (vs, e) \<Rightarrow> (verdict_of sha t h # vs, e)))"

lemma read_first_record_ok:
  assumes "5 \<le> length rec" "record_total rec = length rec"
  shows "buf @ contents st = rec @ behind \<Longrightarrow>
    \<exists>extra. read_first_record buf st = Inr (rec @ extra) \<and> length extra \<le> length behind"
proof (induction "available st" arbitrary: buf st rule: less_induct)
  case less
  have tot: "5 \<le> length buf \<Longrightarrow> unat (u16_from_be (buf ! 3) (buf ! 4)) + 5 = length rec"
    using record_total_prefix[of buf rec "contents st" behind] less.prems assms
    by (simp add: record_total_def RECORD_HEADER_LEN_def)
  show ?case
  proof (cases "5 \<le> length buf \<and> unat (u16_from_be (buf ! 3) (buf ! 4)) + 5 \<le> length buf")
    case True
    then have "length rec \<le> length buf" using tot by simp
    then obtain extra where "buf = rec @ extra" "behind = extra @ contents st"
      using less.prems by (auto simp: append_eq_append_conv2)
    then show ?thesis using True by (subst read_first_record.simps) simp
  next
    case False
    then have "length buf < length rec" using tot assms(1) by linarith
    then have "contents st \<noteq> []" using less.prems by auto
    then obtain bs st' where r: "read_some 4096 st = (Inr bs, st')" "bs \<noteq> []"
      "contents st = bs @ contents st'" "available st' < available st"
      by (rule read_some_more[of st 4096]) auto
    have "read_first_record buf st = read_first_record (buf @ bs) st'"
      using r by (subst read_first_record.simps, subst if_not_P[OF False]) simp
    then show ?thesis using less.hyps[OF r(4), of "buf @ bs"] less.prems r(3) by simp
  qed
qed

lemma measured_record:
  assumes "wf_msg m" "hello_of_msg m = Inr h" "contents (wire e) = enc_record m @ behind"
    and "length (enc_record m @ behind) < 2 ^ 64"
  shows "measure_emulation wire e = Inr h"
proof -
  obtain extra where x: "read_first_record [] (wire e) = Inr (enc_record m @ extra)" "length extra \<le> length behind"
    using read_first_record_ok[OF record_of_hello(1,2)[OF assms(1)], of "[]" "wire e" behind] assms(3) by auto
  then have "length (enc_record m @ extra) < 2 ^ 64" using assms(4) by simp
  then show ?thesis
    using parse_after_slice[OF assms(1) slice_record_behind[OF assms(1)]] assms(2) x(1)
    by (simp add: measure_emulation_def)
qed

lemma expected_segments:
  "t \<in> set TARGETS \<Longrightarrow> \<exists>a b c. split_char (CHR ''_'') (t_expected t) = [a, b, c] \<and> length a = 10 \<and> length b = 12
     \<and> t_expected t = a @ ''_'' @ b @ ''_'' @ c"
  by (auto simp: TARGETS_def CHROME_JA4_REAL_def SAFARI_27_JA4_def)

lemma segments_match:
  assumes "length a = length (ja4_a j)" "length b = length (ja4_b j)"
  shows "list_all (\<lambda>(label, g, w). w = None) (compare_segments [a, b, c] j)
    \<longleftrightarrow> ja4_display j = a @ ''_'' @ b @ ''_'' @ c"
  using assms by (auto simp: compare_segments_def ja4_display_def split: if_splits)

text \<open>C39. 
  The round trip decides what it means to decide: when the HTTP library sends a well-formed hello under a target's
  emulation, however its bytes arrive and whatever follows it, the check reports a verdict for the target,
  and all three of its segments match exactly when the fingerprint printed for that hello is the one
  recorded from the real browser.
\<close>

theorem roundtrip_decides:
  assumes "\<And>s. length (sha s) = 32" "t \<in> set TARGETS" "wf_msg m" "hello_of_msg m = Inr h"
    and "contents (wire (t_build t)) = enc_record m @ behind" "length (enc_record m @ behind) < 2 ^ 64"
  shows "roundtrip sha wire [t] = ([verdict_of sha t h], None) \<and>
    length (v_segments (verdict_of sha t h)) = 3 \<and>
    (list_all (\<lambda>(label, g, w). w = None) (v_segments (verdict_of sha t h))
       \<longleftrightarrow> ja4_display (from_client_hello sha h Tcp) = t_expected t)"
proof -
  obtain a b c where t: "split_char (CHR ''_'') (t_expected t) = [a, b, c]" "length a = 10" "length b = 12"
      "t_expected t = a @ ''_'' @ b @ ''_'' @ c"
    using expected_segments[OF assms(2)] by blast
  define j where "j = from_client_hello sha h Tcp"
  have l: "length (ja4_a j) = 10" "length (ja4_b j) = 12" using ja4_lengths[OF assms(1)] by (simp_all add: j_def)
  have "v_segments (verdict_of sha t h) = compare_segments [a, b, c] j"
    by (simp add: verdict_of_def Let_def t(1) j_def)
  then have "list_all (\<lambda>(label, g, w). w = None) (v_segments (verdict_of sha t h)) \<longleftrightarrow>
      ja4_display j = t_expected t"
    using segments_match[of a j b c] t(2-4) l by simp
  moreover have "length (v_segments (verdict_of sha t h)) = 3"
    by (simp add: verdict_of_def Let_def t(1) compare_segments_def)
  ultimately show ?thesis
    using measured_record[OF assms(3,4), of wire "t_build t" behind] assms(5,6) by (simp add: j_def)
qed

theorem roundtrip_decides_witness:
  "\<exists>h. roundtrip (\<lambda>s. replicate 32 0) (\<lambda>e. [Inr (enc_record sample_msg), Inr [21]]) [TARGETS ! 1]
       = ([verdict_of (\<lambda>s. replicate 32 0) (TARGETS ! 1) h], None)"
proof -
  obtain h where h: "hello_of_msg sample_msg = Inr h"
    by (simp add: hello_of_msg_def sample_msg_def absorb_extension_def ext_ids)
  have l: "length (enc_record sample_msg @ [21]) < 2 ^ 64"
    by (simp add: enc_record_def enc_body_def enc_ext_def sample_msg_def)
  have c: "contents [Inr (enc_record sample_msg), Inr [21]] = enc_record sample_msg @ [21]"
    using enc_record_start[of sample_msg] by auto
  have "TARGETS ! 1 \<in> set TARGETS" by (simp add: TARGETS_def)
  then show ?thesis
    using roundtrip_decides[OF _ _ sample_wf h, of "\<lambda>s. replicate 32 0" "TARGETS ! 1"
        "\<lambda>e. [Inr (enc_record sample_msg), Inr [21]]" "[21]"] c l by auto
qed

section \<open>The shape of a fingerprint\<close>

lemma hex_alnum: "n < 16 \<Longrightarrow> is_alnum (hex_digit n)"
  by (simp add: hex_digit_def is_alnum_def is_alpha_def is_digit_def is_lower_def is_upper_def byte_def)

lemma byte_16: "byte c div 16 < 16"
  using byte_bound[of c] by (simp add: less_mult_imp_div_less)

lemma truncated_hash_alnum: "list_all is_alnum (truncated_hash sha parts)"
proof -
  have "list_all is_alnum (hex2 b)" for b
    using byte_less[of b] by (simp add: hex2_def hex_alnum less_mult_imp_div_less)
  then show ?thesis
    by (auto simp: truncated_hash_def EMPTY_HASH_def list_all_iff is_alnum_def is_digit_def byte_def)
qed

lemma segment_a_alnum: "list_all is_alnum (ja4_a (from_client_hello sha h t))"
proof -
  have "list_all is_alnum (version_code h)"
    by (simp add: version_code_def Let_def is_alnum_def is_alpha_def is_digit_def is_lower_def is_upper_def byte_def)
  moreover have "list_all is_alnum (two_digits n)" for n
    using dec_digits[of n] by (auto simp: two_digits_def list_all_iff is_alnum_def is_digit_def byte_def)
  moreover have "list_all is_alnum (alpn_code h)"
    using hex_alnum byte_16
    by (auto simp: alpn_code_def is_alnum_def is_digit_def byte_def split: option.splits)
  moreover have "is_alnum (transport_code t)" "is_alnum (CHR ''d'')" "is_alnum (CHR ''i'')"
    by (cases t; simp add: is_alnum_def is_alpha_def is_digit_def is_lower_def is_upper_def byte_def)+
  ultimately show ?thesis by (simp add: from_client_hello_def Let_def)
qed

text \<open>C31. 
  A fingerprint is well-formed for every hello, hash results of the right length granted: the printed text splits at its
  underscores into exactly its three segments, of ten, twelve and twelve characters, all of them letters or digits, even
  when the client offers protocol names made of other bytes.
\<close>

theorem ja4_well_formed:
  assumes "\<And>s. length (sha s) = 32"
  shows "let j = from_client_hello sha h t in
    split_char (CHR ''_'') (ja4_display j) = [ja4_a j, ja4_b j, ja4_c j] \<and>
    map length [ja4_a j, ja4_b j, ja4_c j] = [10, 12, 12] \<and>
    list_all is_alnum (ja4_a j @ ja4_b j @ ja4_c j)"
proof -
  define j where "j = from_client_hello sha h t"
  have "list_all is_alnum EMPTY_HASH" by (simp add: EMPTY_HASH_def is_alnum_def is_digit_def byte_def)
  then have n: "list_all is_alnum (ja4_a j)" "list_all is_alnum (ja4_b j)" "list_all is_alnum (ja4_c j)"
    using segment_a_alnum[of sha h t] truncated_hash_alnum[of sha] by (simp_all add: j_def from_client_hello_def Let_def)
  have "\<not> is_alnum (CHR ''_'')"
    by (simp add: is_alnum_def is_alpha_def is_digit_def is_lower_def is_upper_def byte_def)
  then have "CHR ''_'' \<notin> set (ja4_a j)" "CHR ''_'' \<notin> set (ja4_b j)" "CHR ''_'' \<notin> set (ja4_c j)"
    using n by (auto simp: list_all_iff)
  then have "split_char (CHR ''_'') (ja4_display j) = [ja4_a j, ja4_b j, ja4_c j]"
    by (simp add: ja4_display_def split_char_append split_char_absent)
  then show ?thesis using n ja4_lengths[of sha, OF assms, of h t] by (simp add: Let_def j_def[symmetric])
qed

theorem ja4_well_formed_witness:
  "length (split_char (CHR ''_'') (ja4_display (from_client_hello (\<lambda>s. replicate 32 7)
     (hello_default\<lparr>ch_alpn := [''_'']\<rparr>) Quic))) = 3"
  using ja4_well_formed[of "\<lambda>s. replicate 32 7" "hello_default\<lparr>ch_alpn := [''_'']\<rparr>" Quic] by (simp add: Let_def)

section \<open>The hints of a page\<close>

definition HIGH_ENTROPY :: "string list" where
  "HIGH_ENTROPY = [''platform'', ''platformVersion'', ''architecture'', ''bitness'', ''model'', ''uaFullVersion'',
     ''fullVersionList'', ''wow64'']"

definition snippet :: string where
  "snippet =
     (let hints = join '', '' (map (\<lambda>h. [CHR 0x27] @ h @ [CHR 0x27]) HIGH_ENTROPY) in
      ''(async () => JSON.stringify({ userAgent: navigator.userAgent, ''
      @ ''brands: navigator.userAgentData ? navigator.userAgentData.brands : null, ''
      @ ''mobile: navigator.userAgentData ? navigator.userAgentData.mobile : null, ''
      @ ''platform: navigator.userAgentData ? navigator.userAgentData.platform : null, ''
      @ ''high: await (navigator.userAgentData ? navigator.userAgentData.getHighEntropyValues(['' @ hints @ '']) ''
      @ '': Promise.resolve(null)) }, null, 2))()'')"

datatype hint_line =
    NotJson string
  | NoUserAgentData
  | PlatformRow string string
  | ArchitectureRow string string
  | BrandRows "(string \<times> string) list" bool
  | NoBrands

definition str_or_unknown :: "json \<Rightarrow> string" where
  "str_or_unknown v = (case as_str_json v of Some s \<Rightarrow> s | None \<Rightarrow> ''?'')"

definition report_hints :: "(string \<Rightarrow> string + json) \<Rightarrow> string \<Rightarrow> hint_line list" where
  "report_hints from_str raw =
     (case from_str raw of
        Inl e \<Rightarrow> [NotJson e]
      | Inr parsed \<Rightarrow>
          (let high = jidx ''high'' parsed in
           if high = JNull then [NoUserAgentData]
           else
             [PlatformRow (str_or_unknown (jidx ''platform'' high)) (str_or_unknown (jidx ''platformVersion'' high)),
              ArchitectureRow (str_or_unknown (jidx ''architecture'' high)) (str_or_unknown (jidx ''bitness'' high)),
              (case as_array_json (jidx ''brands'' parsed) of
                 None \<Rightarrow> NoBrands
               | Some bs \<Rightarrow>
                   BrandRows (map (\<lambda>b. (str_or_unknown (jidx ''brand'' b), str_or_unknown (jidx ''version'' b))) bs)
                     (list_ex (\<lambda>b. as_str_json (jidx ''brand'' b) = Some ''Google Chrome'') bs))]))"

text \<open>
  The tool must run against an honest browser: under the hints this library overrides, what it measures is the override
  itself, row for row, and it calls the build branded whatever it is.
\<close>

lemma overridden_hints_read_back:
  assumes "from_str raw = Inr (JObj [(''brands'', JArr (map brand_json (brands h))), (''high'', to_cdp_metadata h)])"
  shows "report_hints from_str raw =
    [PlatformRow (ch_platform h) (ch_platform_version h), ArchitectureRow (ch_architecture h) (ch_bitness h),
     BrandRows (brands h) True]"
  using assms by (simp add: report_hints_def str_or_unknown_def to_cdp_metadata_def brands_def brand_json_def GREASE_BRAND_def)

end
