(* ===== verification/Spec2Isabelle.thy ===== *)
theory Spec2Isabelle
  imports TlsCapture Challenge Client StateStore CdpSession Geo ProxyPool Identity Emulation
    Behavior HttpScraper Human CdpLaunch Scraper SessionContract SpoofingProxy ProxyLifecycle
    CertCompression Stealth StealthScript ByteStream CaptureHello CaptureH2 CaptureFrames Measure
begin

text \<open>
  A verification development of \<open>stealthscraper-rs\<close>, a scraping library that drives a browser and a plain HTTP
  client under one identity. The sources named below are under \<open>src/src\<close>, the measuring tools
  under \<open>src/examples\<close>.

  The program. A session (\<open>session.rs\<close>) fetches over plain HTTP (\<open>http_scraper.rs\<close>) until a response is a
  challenge; it then opens a browser (\<open>scraper.rs\<close>), clears the page there, takes the cookies over and returns to
  HTTP. The scraper launches the browser (\<open>cdp/launch.rs\<close>), speaks the DevTools protocol over its pipe
  (\<open>cdp/transport.rs\<close>, \<open>cdp/session.rs\<close>), prepares pages with the stealth script (\<open>stealth.rs\<close>), moves and types like a
  person (\<open>behavior.rs\<close>, \<open>solver.rs\<close>), decides by \<open>challenge/*.rs\<close> and rotates through a pool (\<open>proxy_pool.rs\<close>). The browser's
  traffic goes through a local proxy (\<open>proxy.rs\<close>) that terminates TLS with minted certificates (\<open>ca.rs\<close>), reads the
  browser's hello (\<open>tls_capture.rs\<close>, \<open>ja4/*.rs\<close>) and forwards through a client that imitates a browser (\<open>client.rs\<close>,
  \<open>emulation.rs\<close>, \<open>client_hints.rs\<close>, \<open>cert_compression.rs\<close>). What is known of a host is kept in a store (\<open>state/*.rs\<close>).

  Foundations. \<open>Prelude\<close> has the machine integers, durations, results as sums and the shared lemmas; \<open>Rust_Str\<close> and \<open>Json\<close>
  the string and JSON operations the sources call; \<open>Events\<close> the errors and events. \<open>Effects\<close> has actions on a world
  that records what was sent, launched and emitted, \<open>Stateful\<close> the same over a component's own state with the locale
  \<open>step_relation\<close>: what one operation keeps, every run keeps. \<open>Net\<close> and \<open>Upstream\<close> gather what the environment answers.

  Theories and sources, with what their lemmas show:

  \<^item> \<open>Ja4Parse\<close>, \<open>Ja4Fingerprint\<close>, \<open>TlsCapture\<close>: the parser inverts the wire format, never accepts a prefix and keeps no more than it
    was given; the fingerprint is blind to order and GREASE; a hello is captured exactly once however it is split.

  \<^item> \<open>Cookie\<close>, \<open>Identity\<close> (\<open>identity.rs\<close>): cookies reach only hosts in their scope, the header carries exactly those that
    apply; the policy that moves a session never flaps (locale \<open>transport_policy\<close>).

  \<^item> \<open>Geo\<close>, \<open>Profile\<close>, \<open>ClientHints\<close>, \<open>Emulation\<close>, \<open>Client\<close>: one profile yields one browser in every header, hint and table.

  \<^item> \<open>Challenge\<close>, \<open>Mitigation\<close>, \<open>ProxyPool\<close>: when a page is a challenge, the bounded budget and the back-off (locale \<open>decision\<close>), and a
    rotation that never returns to a blocked proxy (locale \<open>rotation\<close>).

  \<^item> \<open>StateModel\<close>, \<open>StateStore\<close>: exact tallies; the three stores against one map (locales \<open>basic_store\<close>, \<open>state_store\<close>),
    durability and atomicity wherever an error strikes.

  \<^item> \<open>CdpTransport\<close>, \<open>CdpSession\<close>, \<open>CdpLaunch\<close>: calls, replies and the end of the connection as an interleaving; the calls each page method makes,
    none of them observable; a launch that leaves nothing behind.

  \<^item> \<open>Behavior\<close>, \<open>Human\<close>: pointer paths and scrolling as numbers and as protocol calls; the challenge solver.

  \<^item> \<open>CertAuthority\<close>, \<open>SpoofingProxy\<close>, \<open>ProxyLifecycle\<close>: certificates that name their one host and a cache that is a queue (locale
    \<open>bounded_cache\<close>), tunnels that keep to their host while requests and client swaps interleave, and the tasks with their end.

  \<^item> \<open>CertCompression\<close>, \<open>Stealth\<close>, \<open>StealthScript\<close>: the bounded decompression; the script's inputs; its noise against a stateless device and the
    functions it replaces as a page sees them.

  \<^item> \<open>HttpScraper\<close>, \<open>Scraper\<close>, \<open>Egress\<close>: a fetch as one request of the identity, the cookie jar against a map; the
    challenge loop, its verdict and its end; proxy, client and locale that tell one story through rotations.

  \<^item> \<open>Session\<close>, \<open>SessionSafety\<close>, \<open>SessionContract\<close>: every history of a session keeps one identity and one way out; what a fetch lets out and how
    often; that it returns.

  \<^item> \<open>ByteStream\<close>, \<open>CaptureHello\<close> (\<open>capture_fingerprint.rs\<close>), \<open>CaptureH2\<close>, \<open>CaptureFrames\<close> (\<open>capture_h2.rs\<close>), \<open>Measure\<close>
    (\<open>emulation_roundtrip.rs\<close>, \<open>capture_hints.rs\<close>): the tools the tables were measured with, over streams whose bytes arrive in any
    pieces. A hello, with or without a proxy's request before it, and the opening frames of an HTTP/2 connection with
    their HPACK names are reported as a reference encoder wrote them, and the round-trip check passes exactly when the fingerprints agree.

  Conventions. A struct is a record, an enum a datatype, a fallible result a sum with the error on the left. Code behind a mutex is a function of the
  state; where tasks interleave there is a step relation with a rule per atomic piece (\<open>conn_step\<close>, \<open>ca_step\<close>, \<open>px_step\<close>,
  \<open>ln_step\<close>). Library code (the HTTP and TLS stack, SHA-256, the URL parser, the Public Suffix List, the database, the codecs, the JSON
  encoder), the operating system, clocks and random draws are arguments; what is assumed of them is a
  named hypothesis of the theorem that needs it.

  Fuel. Polling loops take \<open>ho_fuel\<close>; with clocks that advance (\<open>clock_ok\<close>) fifty rounds are enough for every constant
  timeout of the sources (\<open>fuel_ok\<close>), because each round sleeps the poll interval: at most 47 rounds for scrolling to settle and
  15 for a selector. The challenge loop takes one pass more than the attempts of its policy, and \<open>solve_challenge_returns\<close> shows that it
  never needs another. All other loops are total functions with a measure.

  Not modelled: \<open>lib.rs\<close> and the \<open>mod.rs\<close> files, which only re-export; the debug log of the proxy; pass-through writes of the
  captured stream; the rounding of floats, which are carried as rationals; of the tools, their accept loops, the wording of what they
  print and the self-signed certificate of the listener; the usage examples \<open>demo.rs\<close>, \<open>cloudflare_test.rs\<close> and
  \<open>readme_check.rs\<close>.
\<close>

end
